(* ===== verification/Prelude.thy ===== *)
theory Prelude
  imports Main "HOL-Library.Word" "HOL-Library.Finite_Map"
begin

unbundle bit_operations_syntax

section \<open>Prelude: machine integers, outcomes, byte streams\<close>

text \<open>
  What every component shares: the machine integer types, the outcome of a Rust computation (a
  value, an error or a panic), the pieces of the Rust standard library the crate calls on slices
  and byte streams (\<open>chunks\<close>, \<open>read_exact\<close>, the big and little endian
  conversions of \<open>u32\<close>, \<open>String::from_utf8\<close>,
  \<open>saturating_sub\<close>), the iteration order of a \<open>HashMap\<close>, and the generic
  lemmas about them.
\<close>

named_theorems wf_intros \<open>introduction rules for the invariants of the components\<close>
named_theorems codec_simps \<open>round trips of encoders and decoders\<close>

subsection \<open>Types\<close>

type_synonym u8 = "8 word"
type_synonym u32 = "32 word"
type_synonym u64 = "64 word"
type_synonym bytes = "u8 list"

text \<open>
  A Rust \<open>String\<close> is the list of the bytes of its UTF-8 encoding, here a
  \<open>string\<close> (a list of 8-bit characters). \<open>as_bytes\<close> and
  \<open>of_bytes\<close> move between the two views.
\<close>

definition as_bytes :: "string \<Rightarrow> bytes" where
  "as_bytes s = map (\<lambda>c. of_nat (of_char c)) s"

definition of_bytes :: "bytes \<Rightarrow> string" where
  "of_bytes bs = map (\<lambda>b. char_of (unat b)) bs"

lemma of_bytes_as_bytes [simp]: "of_bytes (as_bytes s) = s"
proof -
  have "of_char c < (256 :: nat)" for c
    using nat_of_char_less_256 by simp
  then show ?thesis
    by (simp add: of_bytes_def as_bytes_def comp_def unat_of_nat map_idI)
qed

lemma as_bytes_of_bytes [simp]: "as_bytes (of_bytes bs) = bs"
proof -
  have "of_char (char_of (unat b) :: char) = unat b" for b :: u8
    using unsigned_less [of b, where 'a = nat] by (simp add: of_char_of)
  then show ?thesis
    by (simp add: of_bytes_def as_bytes_def comp_def)
qed

lemma length_as_bytes [simp]: "length (as_bytes s) = length s"
  by (simp add: as_bytes_def)

lemma length_of_bytes [simp]: "length (of_bytes bs) = length bs"
  by (simp add: of_bytes_def)

lemma as_bytes_append [simp]: "as_bytes (s @ t) = as_bytes s @ as_bytes t"
  by (simp add: as_bytes_def)

lemma of_bytes_append [simp]: "of_bytes (s @ t) = of_bytes s @ of_bytes t"
  by (simp add: of_bytes_def)

lemma as_bytes_inject [simp]: "as_bytes s = as_bytes t \<longleftrightarrow> s = t"
  by (metis of_bytes_as_bytes)

subsection \<open>Outcomes\<close>

text \<open>
  \<open>Ok\<close> and \<open>Err\<close> are the two constructors of Rust's
  \<open>Result\<close>; \<open>Panic\<close> is the abrupt end of the thread (an out-of-range
  slice, an \<open>unwrap\<close> of an error).
\<close>

datatype ('e, 'a) outcome = Ok 'a | Err 'e | Panic

fun and_then :: "('e, 'a) outcome \<Rightarrow> ('a \<Rightarrow> ('e, 'b) outcome) \<Rightarrow> ('e, 'b) outcome" where
  "and_then (Ok x) f = f x"
| "and_then (Err e) f = Err e"
| "and_then Panic f = Panic"

fun map_err :: "('e \<Rightarrow> 'f) \<Rightarrow> ('e, 'a) outcome \<Rightarrow> ('f, 'a) outcome" where
  "map_err f (Ok x) = Ok x"
| "map_err f (Err e) = Err (f e)"
| "map_err f Panic = Panic"

text \<open>The result of a function outside the crate, which returns and does not panic.\<close>

fun of_result :: "'e + 'a \<Rightarrow> ('e, 'a) outcome" where
  "of_result (Inl e) = Err e"
| "of_result (Inr x) = Ok x"

lemma of_result_not_Panic [simp]: "of_result r \<noteq> Panic"
  by (cases r) simp_all

lemma of_result_Ok_iff [simp]: "of_result r = Ok x \<longleftrightarrow> r = Inr x"
  by (cases r) simp_all

fun is_ok :: "('e, 'a) outcome \<Rightarrow> bool" where
  "is_ok (Ok x) = True"
| "is_ok (Err e) = False"
| "is_ok Panic = False"

lemma and_then_Ok_iff: "and_then r f = Ok y \<longleftrightarrow> (\<exists>x. r = Ok x \<and> f x = Ok y)"
  by (cases r) auto

lemma map_err_Ok_iff [simp]: "map_err f r = Ok x \<longleftrightarrow> r = Ok x"
  by (cases r) auto

lemma map_err_Panic_iff [simp]: "map_err f r = Panic \<longleftrightarrow> r = Panic"
  by (cases r) auto

subsection \<open>Unsigned arithmetic\<close>

definition saturating_sub :: "u64 \<Rightarrow> u64 \<Rightarrow> u64" where
  "saturating_sub a b = (if b \<le> a then a - b else 0)"

lemma unat_saturating_sub: "unat (saturating_sub a b) = unat a - unat b"
  by (simp add: saturating_sub_def unat_sub word_le_nat_alt)

lemma unat_of_nat_u64: "n < 2 ^ 64 \<Longrightarrow> unat (of_nat n :: u64) = n"
  by (simp add: unat_of_nat take_bit_nat_eq_self)

lemma of_nat_u64_inj: "inj_on (of_nat :: nat \<Rightarrow> u64) {..< 2 ^ 64}"
  by (rule inj_onI) (metis lessThan_iff unat_of_nat_u64)

lemma unat_of_nat_u32: "n < 2 ^ 32 \<Longrightarrow> unat (of_nat n :: u32) = n"
  by (simp add: unat_of_nat take_bit_nat_eq_self)

subsection \<open>Slices\<close>

text \<open>The last \<open>n\<close> elements of a list: what a bounded log keeps of its history.\<close>

definition last_n :: "nat \<Rightarrow> 'a list \<Rightarrow> 'a list" where
  "last_n n xs = drop (length xs - n) xs"

lemma length_last_n [simp]: "length (last_n n xs) = min n (length xs)"
  by (simp add: last_n_def)

lemma last_n_all: "length xs \<le> n \<Longrightarrow> last_n n xs = xs"
  by (simp add: last_n_def)

lemma last_n_0 [simp]: "last_n 0 xs = []"
  by (simp add: last_n_def)

lemma last_n_Nil [simp]: "last_n n [] = []"
  by (simp add: last_n_def)

lemma last_n_last_n [simp]: "last_n m (last_n n xs) = last_n (min m n) xs"
proof -
  have "(length xs - (length xs - n) - m) + (length xs - n) = length xs - min m n"
    by arith
  then show ?thesis by (simp only: last_n_def length_drop drop_drop)
qed

lemma last_n_drop: "last_n n (drop k xs) = last_n (min n (length xs - k)) xs"
proof (cases "k \<le> length xs")
  case True
  then have "length xs - k - n + k = length xs - min n (length xs - k)" by arith
  then show ?thesis by (simp add: last_n_def)
next
  case False
  then show ?thesis by simp
qed

lemma last_n_snoc_full:
  "n \<le> length xs \<Longrightarrow> last_n n (xs @ [x]) = drop 1 (last_n n xs @ [x])"
  by (cases "n = 0") (auto simp: last_n_def Suc_diff_le)

lemma last_n_snoc_room:
  "length xs < n \<Longrightarrow> last_n n (xs @ [x]) = last_n n xs @ [x]"
  by (simp add: last_n_def)

text \<open>\<open>slice::chunks(n)\<close>: consecutive pieces of length \<open>n\<close>, the last one possibly shorter.
  The source panics for \<open>n = 0\<close>; the callers below write that branch out.\<close>

function chunks :: "nat \<Rightarrow> 'a list \<Rightarrow> 'a list list" where
  "chunks n xs = (if n = 0 \<or> xs = [] then [] else take n xs # chunks n (drop n xs))"
  by pat_completeness auto
termination
  by (relation "measure (\<lambda>(n, xs). length xs)") auto

declare chunks.simps [simp del]

lemma chunks_Nil [simp]: "chunks n [] = []"
  by (subst chunks.simps) simp

lemma chunks_step: "0 < n \<Longrightarrow> xs \<noteq> [] \<Longrightarrow> chunks n xs = take n xs # chunks n (drop n xs)"
  by (subst chunks.simps) simp

lemma chunks_append:
  "0 < n \<Longrightarrow> length ys = n \<Longrightarrow> chunks n (ys @ xs) = ys # chunks n xs"
  by (subst chunks.simps) auto

lemma concat_chunks: "0 < n \<Longrightarrow> concat (chunks n xs) = xs"
proof (induction n xs rule: chunks.induct)
  case (1 n xs)
  then show ?case
    by (cases "xs = []") (simp_all add: chunks_step)
qed

lemma chunks_in_bounds:
  "c \<in> set (chunks n xs) \<Longrightarrow> c \<noteq> [] \<and> length c \<le> n"
proof (induction n xs rule: chunks.induct)
  case (1 n xs)
  then show ?case
    by (cases "n = 0 \<or> xs = []") (auto simp: chunks_step chunks.simps [of 0])
qed

lemma length_chunks: "0 < n \<Longrightarrow> length (chunks n xs) = (length xs + n - 1) div n"
proof (induction n xs rule: chunks.induct)
  case (1 n xs)
  show ?case
  proof (cases "xs = []")
    case True
    with "1.prems" show ?thesis by simp
  next
    case False
    then have ne: "0 < length xs" by simp
    have "length (chunks n xs) = Suc ((length xs - n + n - 1) div n)"
      using 1 False by (simp add: chunks_step)
    also have "\<dots> = (length xs + n - 1) div n"
    proof (cases "n \<le> length xs")
      case True
      then have "length xs + n - 1 = (length xs - n + n - 1) + n"
        using ne by simp
      with "1.prems" show ?thesis by (metis Suc_eq_plus1 div_add_self2 less_numeral_extra(3))
    next
      case False
      have "(length xs - n + n - 1) div n = 0" and "(length xs + n - 1) div n = 1"
        using False "1.prems" ne by simp (rule div_nat_eqI; use False "1.prems" ne in arith)
      then show ?thesis by simp
    qed
    finally show ?thesis .
  qed
qed

subsection \<open>Reading a byte stream\<close>

text \<open>\<open>Read::read_exact\<close>: all \<open>n\<close> bytes and the rest, or \<open>None\<close> (\<open>UnexpectedEof\<close>).\<close>

definition read_exact :: "nat \<Rightarrow> 'a list \<Rightarrow> ('a list \<times> 'a list) option" where
  "read_exact n bs = (if n \<le> length bs then Some (take n bs, drop n bs) else None)"

lemma read_exact_append [simp]:
  "length xs = n \<Longrightarrow> read_exact n (xs @ ys) = Some (xs, ys)"
  by (simp add: read_exact_def)

lemma read_exact_short: "length bs < n \<Longrightarrow> read_exact n bs = None"
  by (simp add: read_exact_def)

lemma read_exact_Some_iff:
  "read_exact n bs = Some (xs, ys) \<longleftrightarrow> bs = xs @ ys \<and> length xs = n"
  by (auto simp: read_exact_def)

text \<open>\<open>u32::to_le_bytes\<close>, \<open>to_be_bytes\<close> and their inverses.\<close>

definition to_le_bytes :: "u32 \<Rightarrow> bytes" where
  "to_le_bytes w = map (\<lambda>i. ucast (drop_bit (8 * i) w)) [0..<4]"

definition to_be_bytes :: "u32 \<Rightarrow> bytes" where
  "to_be_bytes w = rev (to_le_bytes w)"

fun from_le_bytes :: "bytes \<Rightarrow> u32" where
  "from_le_bytes [] = 0"
| "from_le_bytes (b # bs) = ucast b OR push_bit 8 (from_le_bytes bs)"

definition from_be_bytes :: "bytes \<Rightarrow> u32" where
  "from_be_bytes bs = from_le_bytes (rev bs)"

lemma length_to_le_bytes [simp]: "length (to_le_bytes w) = 4"
  by (simp add: to_le_bytes_def)

lemma length_to_be_bytes [simp]: "length (to_be_bytes w) = 4"
  by (simp add: to_be_bytes_def)

lemma to_le_bytes_eq:
  "to_le_bytes w = [ucast w, ucast (drop_bit 8 w), ucast (drop_bit 16 w), ucast (drop_bit 24 w)]"
  by (simp add: to_le_bytes_def upt_rec)

lemma from_le_bytes_to_le_bytes [simp, codec_simps]: "from_le_bytes (to_le_bytes w) = w"
proof (rule bit_word_eqI)
  fix n assume n: "n < LENGTH(32)"
  consider "n < 8" | "8 \<le> n" "n < 16" | "16 \<le> n" "n < 24" | "24 \<le> n" by linarith
  then show "bit (from_le_bytes (to_le_bytes w)) n \<longleftrightarrow> bit w n"
    using n by cases (simp_all add: to_le_bytes_eq bit_simps, linarith+)
qed

lemma from_be_bytes_to_be_bytes [simp, codec_simps]: "from_be_bytes (to_be_bytes w) = w"
  by (simp add: from_be_bytes_def to_be_bytes_def)

subsection \<open>\<open>String::from_utf8\<close>\<close>

text \<open>
  The well-formed byte sequences of UTF-8: the encodings of the Unicode scalar values, no overlong
  form and no surrogate. \<open>utf8_valid\<close> accepts exactly what
  \<open>String::from_utf8\<close> does.
\<close>

definition utf8_cont :: "u8 \<Rightarrow> bool" where
  "utf8_cont b \<longleftrightarrow> 0x80 \<le> b \<and> b \<le> 0xBF"

fun utf8_valid :: "bytes \<Rightarrow> bool" where
  "utf8_valid [] = True"
| "utf8_valid (a # bs) =
     (if a \<le> 0x7F then utf8_valid bs
      else case bs of [] \<Rightarrow> False | b # bs1 \<Rightarrow>
        if 0xC2 \<le> a \<and> a \<le> 0xDF then utf8_cont b \<and> utf8_valid bs1
        else case bs1 of [] \<Rightarrow> False | c # bs2 \<Rightarrow>
          if 0xE0 \<le> a \<and> a \<le> 0xEF then
            utf8_cont b \<and> utf8_cont c \<and> (a = 0xE0 \<longrightarrow> 0xA0 \<le> b) \<and> (a = 0xED \<longrightarrow> b \<le> 0x9F)
            \<and> utf8_valid bs2
          else case bs2 of [] \<Rightarrow> False | d # bs3 \<Rightarrow>
            0xF0 \<le> a \<and> a \<le> 0xF4 \<and> utf8_cont b \<and> utf8_cont c \<and> utf8_cont d
            \<and> (a = 0xF0 \<longrightarrow> 0x90 \<le> b) \<and> (a = 0xF4 \<longrightarrow> b \<le> 0x8F) \<and> utf8_valid bs3)"

lemma utf8_valid_ascii: "list_all (\<lambda>b. b \<le> 0x7F) bs \<Longrightarrow> utf8_valid bs"
  by (induction bs) auto

subsection \<open>The iteration order of a \<open>HashMap\<close>\<close>

text \<open>
  Rust leaves the order in which a \<open>HashMap\<close> is iterated open. A definition that iterates
  takes the list of entries the iteration yields as an argument; \<open>iterates\<close> says that the
  list holds every entry of the map once.
\<close>

definition iterates :: "('k \<times> 'v) list \<Rightarrow> ('k \<rightharpoonup> 'v) \<Rightarrow> bool" where
  "iterates kvs m \<longleftrightarrow> distinct (map fst kvs) \<and> map_of kvs = m"

lemma iterates_map_of [simp]: "distinct (map fst kvs) \<Longrightarrow> iterates kvs (map_of kvs)"
  by (simp add: iterates_def)

lemma iterates_in_iff: "iterates kvs m \<Longrightarrow> (k, v) \<in> set kvs \<longleftrightarrow> m k = Some v"
  by (auto simp: iterates_def)

lemma iterates_dom: "iterates kvs m \<Longrightarrow> dom m = fst ` set kvs"
  unfolding iterates_def by (metis dom_map_of_conv_image_fst)

lemma iterates_length: "iterates kvs m \<Longrightarrow> length kvs = card (dom m)"
  by (metis iterates_def iterates_dom length_map list.set_map distinct_card)

lemma iterates_finite: "iterates kvs m \<Longrightarrow> finite (dom m)"
  by (simp add: iterates_dom)

lemma iterates_mset_unique:
  "iterates kvs m \<Longrightarrow> iterates kvs' m \<Longrightarrow> set kvs = set kvs'"
  by (metis iterates_in_iff subrelI subset_antisym)

subsection \<open>The size of a finite map\<close>

definition fmsize :: "('k, 'v) fmap \<Rightarrow> nat" where
  "fmsize m = fcard (fmdom m)"

lemma fmsize_empty [simp]: "fmsize fmempty = 0"
  by (simp add: fmsize_def fcard.rep_eq)

lemma fmsize_upd [simp]:
  "fmsize (fmupd k v m) = (if fmlookup m k = None then Suc (fmsize m) else fmsize m)"
proof (cases "fmlookup m k")
  case None
  then have "k |\<notin>| fmdom m" by (rule fmdom_notI)
  from fcard_finsert_disjoint [OF this] None show ?thesis by (simp add: fmsize_def)
next
  case (Some v')
  then have "finsert k (fmdom m) = fmdom m" by (rule finsert_absorb [OF fmdomI])
  with Some show ?thesis by (simp add: fmsize_def)
qed

lemma fmsize_drop [simp]:
  "fmsize (fmdrop k m) = (if fmlookup m k = None then fmsize m else fmsize m - 1)"
proof (cases "fmlookup m k")
  case None
  then have "k |\<notin>| fmdom m" by (rule fmdom_notI)
  then have "fmdom m |-| {|k|} = fmdom m" by auto
  with None show ?thesis by (simp add: fmsize_def)
next
  case (Some v)
  then have "k |\<in>| fmdom m" by (rule fmdomI)
  with Some show ?thesis by (simp add: fmsize_def fcard_fminus_fsingleton)
qed

lemma fmsize_map [simp]: "fmsize (fmmap f m) = fmsize m"
  by (simp add: fmsize_def)

text \<open>The same for a finite map: \<open>kvs\<close> is a possible order of its iteration.\<close>

definition lists_entries :: "('k \<times> 'v) list \<Rightarrow> ('k, 'v) fmap \<Rightarrow> bool" where
  "lists_entries kvs m \<longleftrightarrow> distinct (map fst kvs) \<and> fmap_of_list kvs = m"

lemma lists_entries_iff: "lists_entries kvs m \<Longrightarrow> (k, v) \<in> set kvs \<longleftrightarrow> fmlookup m k = Some v"
  by (auto simp: lists_entries_def fmlookup_of_list)

lemma lists_entries_sorted: "lists_entries (sorted_list_of_fmap m) m"
proof -
  have "map fst (sorted_list_of_fmap m) = sorted_list_of_fset (fmdom m)"
    by (simp add: sorted_list_of_fmap_def comp_def)
  moreover have "fmap_of_list (sorted_list_of_fmap m) = m"
    by (rule fmap_ext) (simp add: fmlookup_of_list)
  moreover have "distinct (sorted_list_of_fset (fmdom m))"
    by (simp add: sorted_list_of_fset.rep_eq)
  ultimately show ?thesis by (simp add: lists_entries_def)
qed

subsection \<open>Objects driven by operations\<close>

text \<open>
  Several components are objects whose methods are called in any order: a step per operation.
  A \<open>simulation\<close> relates such an object to an abstract one that goes through the same
  operations; where only an invariant is kept, the abstract object is trivial.
\<close>

locale simulation =
  fixes step :: "'s \<Rightarrow> 'o \<Rightarrow> 's" and astep :: "'a \<Rightarrow> 'o \<Rightarrow> 'a"
    and rel :: "'s \<Rightarrow> 'a \<Rightarrow> bool" and allowed :: "'o \<Rightarrow> bool"
  assumes sim_step: "rel s a \<Longrightarrow> allowed op \<Longrightarrow> rel (step s op) (astep a op)"
begin

lemma sim_run: "rel s a \<Longrightarrow> list_all allowed ops \<Longrightarrow> rel (foldl step s ops) (foldl astep a ops)"
  by (induction ops arbitrary: s a) (simp_all add: sim_step)

end

locale machine =
  fixes step :: "'s \<Rightarrow> 'o \<Rightarrow> 's" and inv :: "'s \<Rightarrow> bool" and allowed :: "'o \<Rightarrow> bool"
  assumes inv_step: "inv s \<Longrightarrow> allowed op \<Longrightarrow> inv (step s op)"

sublocale machine \<subseteq> invariant: simulation step "\<lambda>a op. a" "\<lambda>s (a :: unit). inv s" allowed
  by unfold_locales (rule inv_step)

context machine begin

lemma inv_run: "inv s \<Longrightarrow> list_all allowed ops \<Longrightarrow> inv (foldl step s ops)"
  by (rule invariant.sim_run)

end

subsection \<open>Length-prefixed records\<close>

text \<open>
  The interface of a self-delimiting encoding: \<open>get\<close> takes one encoded item off the front of
  a stream. \<open>loop_items\<close> is what every reading loop of the crate needs: a loop that goes on
  with the rest of the stream after each item runs through a whole sequence of items.
\<close>

locale framing =
  fixes put :: "'a \<Rightarrow> bytes" and get :: "bytes \<Rightarrow> ('a \<times> bytes) option" and valid :: "'a \<Rightarrow> bool"
  assumes get_put: "valid x \<Longrightarrow> get (put x @ rest) = Some (x, rest)"
begin

lemma loop_items:
  assumes "\<And>s x bs rest. P x \<Longrightarrow> get bs = Some (x, rest) \<Longrightarrow> loop s bs = loop (f s x) rest"
    and "\<forall>x \<in> set xs. valid x \<and> P x"
  shows "loop s (concat (map put xs) @ rest) = loop (foldl f s xs) rest"
  using assms(2)
proof (induction xs arbitrary: s)
  case Nil
  then show ?case by simp
next
  case (Cons x xs)
  then have "get (concat (map put (x # xs)) @ rest) = Some (x, concat (map put xs) @ rest)"
    by (simp add: get_put)
  then have "loop s (concat (map put (x # xs)) @ rest) = loop (f s x) (concat (map put xs) @ rest)"
    using Cons.prems by (intro assms(1)) auto
  with Cons show ?case by simp
qed

lemma put_inject: "valid x \<Longrightarrow> valid y \<Longrightarrow> put x @ xs = put y @ ys \<Longrightarrow> x = y \<and> xs = ys"
  by (metis get_put option.inject prod.inject)

end

end
