(* ===== verification/Common.thy ===== *)
theory Common
  imports Prelude
begin

section \<open>Shared utilities (\<open>src/common.rs\<close>)\<close>

text \<open>
  URL-safe base64 without padding, used for tickets and for the peer keys of the sync state, and
  the clock conversions. The encoder works on 3-byte chunks packed into a \<open>u32\<close>; the
  decoder shifts 6 bits at a time through a \<open>u32\<close> buffer, whose upper bits overflow
  silently. The time of day is an argument: the nanoseconds between the epoch and now, negative
  before the epoch.
\<close>

subsection \<open>Encoding\<close>

definition alphabet :: bytes where
  "alphabet = as_bytes ''ABCDEFGHIJKLMNOPQRSTUVWXYZabcdefghijklmnopqrstuvwxyz0123456789-_''"

text \<open>\<open>n |= (byte as u32) << (16 - i * 8)\<close> over the bytes of a chunk.\<close>

definition pack_chunk :: "bytes \<Rightarrow> u32" where
  "pack_chunk chunk =
     fold (\<lambda>(i, byte) n. n OR push_bit (16 - i * 8) (ucast byte)) (enumerate 0 chunk) 0"

definition chunk_chars :: "bytes \<Rightarrow> nat" where
  "chunk_chars chunk =
     (if length chunk = 3 then 4 else if length chunk = 2 then 3
      else if length chunk = 1 then 2 else 0)"

definition char_index :: "u32 \<Rightarrow> nat \<Rightarrow> nat" where
  "char_index n i = unat (drop_bit (18 - i * 6) n AND 0x3F)"

definition encode_chunk :: "bytes \<Rightarrow> bytes" where
  "encode_chunk chunk =
     (let n = pack_chunk chunk
      in map (\<lambda>i. alphabet ! char_index n i) [0..<chunk_chars chunk])"

definition base64_url_encode :: "bytes \<Rightarrow> string" where
  "base64_url_encode bs = of_bytes (concat (map encode_chunk (chunks 3 bs)))"

subsection \<open>Decoding\<close>

text \<open>The 256-entry table of \<open>i8\<close>: \<open>-1\<close> outside the alphabet.\<close>

definition decode_table :: "int list" where
  "decode_table =
     fold (\<lambda>i table. table[unat (alphabet ! i) := int i]) [0..<length alphabet] (replicate 256 (-1))"

fun decode_loop :: "bytes \<Rightarrow> u32 \<Rightarrow> nat \<Rightarrow> bytes \<Rightarrow> (string, bytes) outcome" where
  "decode_loop [] buffer bits result = Ok result"
| "decode_loop (byte # bs) buffer bits result =
     (let value = decode_table ! unat byte
      in if value < 0 then Err ''invalid base64 character''
         else let buffer = push_bit 6 buffer OR of_int value; bits = bits + 6
              in if 8 \<le> bits
                 then decode_loop bs buffer (bits - 8)
                        (result @ [ucast (drop_bit (bits - 8) buffer)])
                 else decode_loop bs buffer bits result)"

definition base64_url_decode :: "string \<Rightarrow> (string, bytes) outcome" where
  "base64_url_decode input = decode_loop (as_bytes input) 0 0 []"

subsection \<open>Clock\<close>

definition current_timestamp_nanos :: "int \<Rightarrow> u64" where
  "current_timestamp_nanos now = (if 0 \<le> now then of_int now else 0)"

definition current_timestamp_secs :: "int \<Rightarrow> u64" where
  "current_timestamp_secs now = (if 0 \<le> now then of_int (now div 10 ^ 9) else 0)"

text \<open>A \<open>Duration\<close> is its number of nanoseconds.\<close>

type_synonym duration = nat

definition duration_as_ms :: "duration \<Rightarrow> u64" where
  "duration_as_ms d = of_nat (d div 10 ^ 6)"

definition duration_as_micros :: "duration \<Rightarrow> u64" where
  "duration_as_micros d = of_nat (d div 10 ^ 3)"

subsection \<open>The alphabet and the table are inverse\<close>

definition in_alphabet :: "u8 \<Rightarrow> bool" where
  "in_alphabet b \<longleftrightarrow> b \<in> set alphabet"

lemma length_alphabet [simp]: "length alphabet = 64"
  by (simp add: alphabet_def)

lemma inj_char_byte: "inj (\<lambda>c. of_nat (of_char c) :: u8)"
proof (rule injI)
  fix c d :: char
  assume "of_nat (of_char c) = (of_nat (of_char d) :: u8)"
  then have "as_bytes [c] = as_bytes [d]" by (simp add: as_bytes_def)
  then show "c = d" by simp
qed

lemma distinct_alphabet: "distinct alphabet"
proof -
  have "distinct ''ABCDEFGHIJKLMNOPQRSTUVWXYZabcdefghijklmnopqrstuvwxyz0123456789-_''"
    by simp
  then show ?thesis
    unfolding alphabet_def as_bytes_def distinct_map
    using inj_on_subset [OF inj_char_byte] by blast
qed

text \<open>Filling a table at pairwise different places.\<close>

definition fill :: "('a \<Rightarrow> nat) \<Rightarrow> ('a \<Rightarrow> 'b) \<Rightarrow> 'a list \<Rightarrow> 'b list \<Rightarrow> 'b list" where
  "fill f g is t = fold (\<lambda>i table. table[f i := g i]) is t"

lemma fill_simps [simp]:
  "fill f g [] t = t"
  "fill f g (i # is) t = fill f g is (t[f i := g i])"
  by (simp_all add: fill_def)

lemma length_fill [simp]: "length (fill f g is t) = length t"
  by (induction "is" arbitrary: t) simp_all

lemma fill_other: "k \<notin> f ` set is \<Longrightarrow> fill f g is t ! k = t ! k"
  by (induction "is" arbitrary: t) auto

lemma fill_at:
  "distinct (map f is) \<Longrightarrow> i \<in> set is \<Longrightarrow> f i < length t \<Longrightarrow> fill f g is t ! f i = g i"
proof (induction "is" arbitrary: t)
  case Nil
  then show ?case by simp
next
  case (Cons j "is")
  then show ?case
    by (cases "i = j") (auto simp: fill_other)
qed

lemma decode_table_fill:
  "decode_table = fill (\<lambda>i. unat (alphabet ! i)) int [0..<64] (replicate 256 (-1))"
  by (simp add: decode_table_def fill_def)

lemma length_decode_table [simp]: "length decode_table = 256"
  by (simp add: decode_table_fill)

lemma decode_table_alphabet [codec_simps]:
  assumes "i < 64" shows "decode_table ! unat (alphabet ! i) = int i"
proof -
  have "map (\<lambda>i. unat (alphabet ! i)) [0..<64] = map unat alphabet"
    by (rule nth_equalityI) simp_all
  moreover have "distinct (map unat alphabet)"
    using distinct_alphabet by (simp add: distinct_map inj_on_def flip: word_unat_eq_iff)
  moreover have "unat (alphabet ! i) < 256"
    using unsigned_less [of "alphabet ! i", where 'a = nat] by simp
  ultimately show ?thesis
    using assms unfolding decode_table_fill
    by (intro fill_at [where f = "\<lambda>i. unat (alphabet ! i)"]) simp_all
qed

lemma decode_table_other:
  assumes "\<not> in_alphabet b" shows "decode_table ! unat b = -1"
proof -
  have "unat b \<notin> (\<lambda>i. unat (alphabet ! i)) ` set [0..<64]"
    using assms by (auto simp: in_alphabet_def in_set_conv_nth simp flip: word_unat_eq_iff)
  moreover have "unat b < 256"
    using unsigned_less [of b, where 'a = nat] by simp
  ultimately show ?thesis
    by (simp add: decode_table_fill fill_other)
qed

lemma decode_table_neg_iff: "decode_table ! unat b < 0 \<longleftrightarrow> \<not> in_alphabet b"
proof (cases "in_alphabet b")
  case True
  then obtain i where "i < 64" "b = alphabet ! i"
    by (auto simp: in_alphabet_def in_set_conv_nth)
  with True show ?thesis by (simp add: decode_table_alphabet)
next
  case False
  then show ?thesis by (simp add: decode_table_other)
qed

subsection \<open>Sextets\<close>

text \<open>
  The \<open>i\<close>-th sextet of a packed chunk, and the decoder's step on the character that stands
  for it. The bytes of the chunk come back from two neighbouring sextets of the buffer,
  whatever the older bits above them are.
\<close>

definition sextet :: "u32 \<Rightarrow> nat \<Rightarrow> u32" where
  "sextet n i = take_bit 6 (drop_bit (18 - i * 6) n)"

lemma and_3F: "x AND 0x3F = take_bit 6 (x :: u32)"
  by (simp add: take_bit_eq_mask mask_eq_exp_minus_1)

lemma sextet_less: "unat (sextet n i) < 64"
  using take_bit_nat_less_exp [of 6 "unat (drop_bit (18 - i * 6) n)"]
  by (simp add: sextet_def unsigned_take_bit_eq)

lemma bit_sextet: "bit (sextet n i) k \<longleftrightarrow> k < 6 \<and> bit n (18 - i * 6 + k)"
  by (simp add: sextet_def bit_simps)

text \<open>One decoding step of the buffer.\<close>

definition shift_in :: "u32 \<Rightarrow> u32 \<Rightarrow> nat \<Rightarrow> u32" where
  "shift_in buffer n i = push_bit 6 buffer OR sextet n i"

lemma decode_loop_sextet:
  "decode_loop (alphabet ! char_index n i # bs) buffer bits result =
     (if 8 \<le> bits + 6
      then decode_loop bs (shift_in buffer n i) (bits + 6 - 8)
             (result @ [ucast (drop_bit (bits + 6 - 8) (shift_in buffer n i))])
      else decode_loop bs (shift_in buffer n i) (bits + 6) result)"
  using sextet_less [of n i]
  by (simp add: char_index_def and_3F Let_def shift_in_def flip: sextet_def)
     (simp add: decode_table_alphabet)

lemma less_8_cases: "i < 8 \<Longrightarrow> i = 0 \<or> i = 1 \<or> i = 2 \<or> i = 3 \<or> i = 4 \<or> i = 5 \<or> i = 6 \<or> i = (7::nat)"
  by arith

lemma bit_pack_chunk:
  "bit (pack_chunk [a]) k \<longleftrightarrow> 16 \<le> k \<and> k < 24 \<and> bit a (k - 16)"
  "bit (pack_chunk [a, b]) k \<longleftrightarrow> 16 \<le> k \<and> k < 24 \<and> bit a (k - 16) \<or> 8 \<le> k \<and> k < 16 \<and> bit b (k - 8)"
  "bit (pack_chunk [a, b, c]) k \<longleftrightarrow> 16 \<le> k \<and> k < 24 \<and> bit a (k - 16) \<or> 8 \<le> k \<and> k < 16 \<and> bit b (k - 8) \<or> k < 8 \<and> bit c k"
  by (auto simp: pack_chunk_def bit_simps dest: bit_imp_le_length)

lemma bytes_of_sextets:
  "(\<And>k. k < 8 \<Longrightarrow> bit n (16 + k) = bit a k) \<Longrightarrow>
     ucast (drop_bit 4 (shift_in (shift_in buf n 0) n (Suc 0))) = (a :: u8)"
  "(\<And>k. k < 8 \<Longrightarrow> bit n (8 + k) = bit b k) \<Longrightarrow>
     ucast (drop_bit 2 (shift_in (shift_in buf n (Suc 0)) n 2)) = (b :: u8)"
  "(\<And>k. k < 8 \<Longrightarrow> bit n k = bit c k) \<Longrightarrow>
     ucast (shift_in (shift_in buf n 2) n 3) = (c :: u8)"
proof -
  note bits = shift_in_def bit_sextet bit_simps
  show "ucast (drop_bit 4 (shift_in (shift_in buf n 0) n (Suc 0))) = (a :: u8)"
    if a: "\<And>k. k < 8 \<Longrightarrow> bit n (16 + k) = bit a k"
    by (rule bit_word_eqI) (auto dest!: less_8_cases simp: bits simp flip: a)
  show "ucast (drop_bit 2 (shift_in (shift_in buf n (Suc 0)) n 2)) = (b :: u8)"
    if b: "\<And>k. k < 8 \<Longrightarrow> bit n (8 + k) = bit b k"
    by (rule bit_word_eqI) (auto dest!: less_8_cases simp: bits simp flip: b)
  show "ucast (shift_in (shift_in buf n 2) n 3) = (c :: u8)"
    if c: "\<And>k. k < 8 \<Longrightarrow> bit n k = bit c k"
    by (rule bit_word_eqI) (auto dest!: less_8_cases simp: bits simp flip: c)
qed

subsection \<open>Chunks\<close>

lemma encode_chunk_eqs:
  "encode_chunk [a, b, c] =
     map (\<lambda>i. alphabet ! char_index (pack_chunk [a, b, c]) i) [0, Suc 0, 2, 3]"
  "encode_chunk [a, b] = map (\<lambda>i. alphabet ! char_index (pack_chunk [a, b]) i) [0, Suc 0, 2]"
  "encode_chunk [a] = map (\<lambda>i. alphabet ! char_index (pack_chunk [a]) i) [0, Suc 0]"
  by (simp_all add: encode_chunk_def chunk_chars_def upt_rec Let_def numeral_2_eq_2 numeral_3_eq_3)

lemma pack_chunk_bytes:
  "k < 8 \<Longrightarrow> bit (pack_chunk [a]) (16 + k) = bit a k"
  "k < 8 \<Longrightarrow> bit (pack_chunk [a, b]) (16 + k) = bit a k"
  "k < 8 \<Longrightarrow> bit (pack_chunk [a, b]) (8 + k) = bit b k"
  "k < 8 \<Longrightarrow> bit (pack_chunk [a, b, c]) (16 + k) = bit a k"
  "k < 8 \<Longrightarrow> bit (pack_chunk [a, b, c]) (8 + k) = bit b k"
  "k < 8 \<Longrightarrow> bit (pack_chunk [a, b, c]) k = bit c k"
  by (auto simp: bit_pack_chunk)

declare decode_loop.simps(2) [simp del]

lemma decode_encode_chunk3:
  "\<exists>buf'. decode_loop (encode_chunk [a, b, c] @ bs) buf 0 result
          = decode_loop bs buf' 0 (result @ [a, b, c])"
  by (auto simp: encode_chunk_eqs decode_loop_sextet bytes_of_sextets pack_chunk_bytes)

lemma decode_encode_tail:
  "decode_loop (encode_chunk [a, b]) buf 0 result = Ok (result @ [a, b])"
  "decode_loop (encode_chunk [a]) buf 0 result = Ok (result @ [a])"
  by (simp_all add: encode_chunk_eqs decode_loop_sextet bytes_of_sextets pack_chunk_bytes)

lemma decode_loop_encode:
  "decode_loop (concat (map encode_chunk (chunks 3 bs))) buf 0 result = Ok (result @ bs)"
proof (induction bs arbitrary: buf result rule: length_induct)
  case (1 bs)
  consider "bs = []" | a where "bs = [a]" | a b where "bs = [a, b]"
    | a b c bs' where "bs = [a, b, c] @ bs'"
    by (cases bs rule: remdups_adj.cases) (auto, metis neq_Nil_conv)
  then show ?case
  proof cases
    case 4
    then obtain buf' where
      "decode_loop (concat (map encode_chunk (chunks 3 bs))) buf 0 result
        = decode_loop (concat (map encode_chunk (chunks 3 bs'))) buf' 0 (result @ [a, b, c])"
      using decode_encode_chunk3 by (metis chunks_append concat.simps(2) length_Cons list.map(2)
          list.size(3) numeral_3_eq_3 zero_less_numeral)
    with 4 "1.IH" show ?thesis by simp
  qed (simp_all add: chunks_step decode_encode_tail)
qed

lemma base64_decode_encode [codec_simps]: "base64_url_decode (base64_url_encode bs) = Ok bs"
  by (simp add: base64_url_decode_def base64_url_encode_def decode_loop_encode)

lemma decode_loop_errors:
  "(\<forall>b \<in> set bs. in_alphabet b) \<Longrightarrow> \<exists>r. decode_loop bs buffer bits result = Ok r"
  "\<not> (\<forall>b \<in> set bs. in_alphabet b) \<Longrightarrow>
     decode_loop bs buffer bits result = Err ''invalid base64 character''"
  by (induction bs arbitrary: buffer bits result)
     (auto simp: decode_loop.simps(2) decode_table_neg_iff Let_def)

lemma length_decode_loop:
  "decode_loop bs buffer bits result = Ok r \<Longrightarrow> bits < 8 \<Longrightarrow>
     length r = length result + (bits + 6 * length bs) div 8"
proof (induction bs arbitrary: buffer bits result)
  case Nil
  then show ?case by simp
next
  case (Cons b bs)
  show ?case
  proof (cases "2 \<le> bits")
    case True
    with Cons.prems obtain buffer' x where
      "decode_loop bs buffer' (bits + 6 - 8) (result @ [x]) = Ok r"
      by (auto simp: decode_loop.simps(2) Let_def split: if_splits)
    from Cons.IH [OF this] Cons.prems True
    have "length r = length result + 1 + (bits + 6 - 8 + 6 * length bs) div 8" by simp
    also have "\<dots> = length result + (bits + 6 - 8 + 6 * length bs + 8) div 8" by simp
    also have "bits + 6 - 8 + 6 * length bs + 8 = bits + 6 * length (b # bs)" using True by simp
    finally show ?thesis .
  next
    case False
    with Cons.prems obtain buffer' where "decode_loop bs buffer' (bits + 6) result = Ok r"
      by (auto simp: decode_loop.simps(2) Let_def split: if_splits)
    from Cons.IH [OF this] False show ?thesis by (simp add: add.assoc)
  qed
qed

lemma char_index_less: "char_index n i < 64"
  using sextet_less [of n i] by (simp add: char_index_def and_3F sextet_def)

lemma encode_chunk_in_alphabet: "b \<in> set (encode_chunk chunk) \<Longrightarrow> in_alphabet b"
  by (auto simp: encode_chunk_def Let_def in_alphabet_def in_set_conv_nth)
     (metis char_index_less)

lemma length_encode:
  "length (concat (map encode_chunk (chunks 3 bs))) = (4 * length bs + 2) div 3"
proof (induction bs rule: length_induct)
  case (1 bs)
  consider "bs = []" | a where "bs = [a]" | a b where "bs = [a, b]"
    | a b c bs' where "bs = [a, b, c] @ bs'"
    by (cases bs rule: remdups_adj.cases) (auto, metis neq_Nil_conv)
  then show ?case
  proof cases
    case 4
    with "1.IH" have "length (concat (map encode_chunk (chunks 3 bs'))) = (4 * length bs' + 2) div 3"
      by simp
    moreover have "chunks 3 bs = [a, b, c] # chunks 3 bs'"
      unfolding 4 by (rule chunks_append) simp_all
    ultimately show ?thesis
      using 4 by (simp add: encode_chunk_eqs)
  qed (simp_all add: chunks_step encode_chunk_eqs)
qed

subsection \<open>Properties\<close>

text \<open>
  C28. Base64 is lossless: decoding what \<open>base64_url_encode\<close> produced gives back the bytes,
  for every byte string; the encoding holds only characters of the URL-safe alphabet (no
  padding) and has the length \<open>\<lceil>4n/3\<rceil>\<close>.
\<close>

theorem base64_roundtrip:
  "base64_url_decode (base64_url_encode bs) = Ok bs
   \<and> set (as_bytes (base64_url_encode bs)) \<subseteq> set alphabet
   \<and> length (base64_url_encode bs) = (4 * length bs + 2) div 3"
proof (intro conjI)
  show "base64_url_decode (base64_url_encode bs) = Ok bs"
    by (rule base64_decode_encode)
  show "set (as_bytes (base64_url_encode bs)) \<subseteq> set alphabet"
    by (auto simp: base64_url_encode_def in_alphabet_def dest: encode_chunk_in_alphabet)
  show "length (base64_url_encode bs) = (4 * length bs + 2) div 3"
    by (simp add: base64_url_encode_def length_encode)
qed

text \<open>
  C40. The decoder is total and rejects exactly the inputs with a character outside the
  alphabet: it never panics, fails only with \<open>invalid base64 character\<close>, and on an input
  of \<open>n\<close> alphabet characters returns \<open>\<lfloor>6n/8\<rfloor>\<close> bytes.
\<close>

theorem base64_decode_total:
  "if set (as_bytes s) \<subseteq> set alphabet
   then \<exists>r. base64_url_decode s = Ok r \<and> length r = 6 * length s div 8
   else base64_url_decode s = Err ''invalid base64 character''"
proof -
  have "set (as_bytes s) \<subseteq> set alphabet \<longleftrightarrow> (\<forall>b \<in> set (as_bytes s). in_alphabet b)"
    by (auto simp: in_alphabet_def)
  then show ?thesis
    using decode_loop_errors [of "as_bytes s" 0 0 "[]"] length_decode_loop [of "as_bytes s" 0 0 "[]"]
    by (auto simp: base64_url_decode_def)
qed

end
