(* ===== verification/Config.thy ===== *)
theory Config
  imports Common
begin

section \<open>Replicator configuration (\<open>src/config.rs\<close>)\<close>

text \<open>
  The configuration record, its defaults and its builder methods. A socket address is a
  type parameter: the crate stores addresses and hands them to iroh.
\<close>

record 'addr replicator_config =
  enable_dht :: bool
  enable_dns :: bool
  enable_mdns :: bool
  enable_pkarr_publish :: bool
  sync_interval :: duration
  max_peers :: nat
  bind_addr :: "'addr option"
  external_addr :: "'addr option"
  relay_servers :: "string list"
  enable_metrics :: bool
  secret_key_bytes :: "bytes option"

definition secs :: "nat \<Rightarrow> duration" where
  "secs n = n * 10 ^ 9"

definition millis :: "nat \<Rightarrow> duration" where
  "millis n = n * 10 ^ 6"

definition default_sync_interval :: duration where
  "default_sync_interval = secs 30"

definition default_max_peers :: nat where
  "default_max_peers = 10"

definition default_config :: "'addr replicator_config" where
  "default_config =
     \<lparr>enable_dht = False, enable_dns = True, enable_mdns = True, enable_pkarr_publish = True,
      sync_interval = default_sync_interval, max_peers = default_max_peers,
      bind_addr = None, external_addr = None, relay_servers = [],
      enable_metrics = False, secret_key_bytes = None\<rparr>"

definition with_dht :: "bool \<Rightarrow> 'addr replicator_config \<Rightarrow> 'addr replicator_config" where
  "with_dht enabled c = c\<lparr>enable_dht := enabled\<rparr>"

definition with_dns :: "bool \<Rightarrow> 'addr replicator_config \<Rightarrow> 'addr replicator_config" where
  "with_dns enabled c = c\<lparr>enable_dns := enabled\<rparr>"

definition with_mdns :: "bool \<Rightarrow> 'addr replicator_config \<Rightarrow> 'addr replicator_config" where
  "with_mdns enabled c = c\<lparr>enable_mdns := enabled\<rparr>"

definition with_pkarr :: "bool \<Rightarrow> 'addr replicator_config \<Rightarrow> 'addr replicator_config" where
  "with_pkarr enabled c = c\<lparr>enable_pkarr_publish := enabled\<rparr>"

definition with_sync_interval :: "duration \<Rightarrow> 'addr replicator_config \<Rightarrow> 'addr replicator_config" where
  "with_sync_interval interval c = c\<lparr>sync_interval := interval\<rparr>"

definition with_max_peers :: "nat \<Rightarrow> 'addr replicator_config \<Rightarrow> 'addr replicator_config" where
  "with_max_peers m c = c\<lparr>max_peers := m\<rparr>"

definition with_bind_addr :: "'addr \<Rightarrow> 'addr replicator_config \<Rightarrow> 'addr replicator_config" where
  "with_bind_addr a c = c\<lparr>bind_addr := Some a\<rparr>"

definition with_external_addr :: "'addr \<Rightarrow> 'addr replicator_config \<Rightarrow> 'addr replicator_config" where
  "with_external_addr a c = c\<lparr>external_addr := Some a\<rparr>"

definition with_relay_server :: "string \<Rightarrow> 'addr replicator_config \<Rightarrow> 'addr replicator_config" where
  "with_relay_server url c = c\<lparr>relay_servers := relay_servers c @ [url]\<rparr>"

end
