(* ===== verification/Change.thy ===== *)
theory Change
  imports Common "HOL-Library.Finite_Map"
begin

section \<open>Changes and sync messages (\<open>src/change.rs\<close>)\<close>

text \<open>
  The unit of replication, the batches and messages that carry it, and the codec of the messages.
  \<open>Uuid::new_v4\<close> and the clock are arguments of the constructors; a
  \<open>Uuid\<close> is the 128-bit number \<open>to_u128_le\<close> reads from it. The JSON
  printer and parser of \<open>serde_json\<close> are arguments of the codec.
\<close>

type_synonym uuid = "128 word"

datatype change_operation =
  OpQuery | OpSet | OpDelete | OpCommit | OpSchema | OpAuth | OpLiveNotify

record change =
  ch_id :: uuid
  ch_timestamp :: u64
  ch_namespace :: string
  ch_database :: string
  ch_table :: "string option"
  ch_operation :: change_operation
  ch_key :: "bytes option"
  ch_value :: "bytes option"
  ch_metadata :: "(string, string) fmap"

definition change_query :: "uuid \<Rightarrow> int \<Rightarrow> string \<Rightarrow> string \<Rightarrow> string option \<Rightarrow> change" where
  "change_query new_id now ns db tbl =
     \<lparr>ch_id = new_id, ch_timestamp = current_timestamp_nanos now, ch_namespace = ns,
      ch_database = db, ch_table = tbl, ch_operation = OpQuery, ch_key = None,
      ch_value = None, ch_metadata = fmempty\<rparr>"

definition change_set :: "uuid \<Rightarrow> int \<Rightarrow> string \<Rightarrow> string \<Rightarrow> bytes \<Rightarrow> bytes \<Rightarrow> change" where
  "change_set new_id now ns db k v =
     \<lparr>ch_id = new_id, ch_timestamp = current_timestamp_nanos now, ch_namespace = ns,
      ch_database = db, ch_table = None, ch_operation = OpSet, ch_key = Some k,
      ch_value = Some v, ch_metadata = fmempty\<rparr>"

definition change_delete :: "uuid \<Rightarrow> int \<Rightarrow> string \<Rightarrow> string \<Rightarrow> bytes \<Rightarrow> change" where
  "change_delete new_id now ns db k =
     \<lparr>ch_id = new_id, ch_timestamp = current_timestamp_nanos now, ch_namespace = ns,
      ch_database = db, ch_table = None, ch_operation = OpDelete, ch_key = Some k,
      ch_value = None, ch_metadata = fmempty\<rparr>"

record change_batch =
  cb_offset :: u64
  cb_changes :: "change list"
  cb_is_final :: bool

definition change_batch_new :: "u64 \<Rightarrow> change list \<Rightarrow> change_batch" where
  "change_batch_new off cs = \<lparr>cb_offset = off, cb_changes = cs, cb_is_final = False\<rparr>"

definition change_batch_with_final :: "change_batch \<Rightarrow> change_batch" where
  "change_batch_with_final b = b\<lparr>cb_is_final := True\<rparr>"

definition change_batch_len :: "change_batch \<Rightarrow> nat" where
  "change_batch_len b = length (cb_changes b)"

definition change_batch_is_empty :: "change_batch \<Rightarrow> bool" where
  "change_batch_is_empty b \<longleftrightarrow> cb_changes b = []"

datatype sync_message =
    Request u64 "nat option"
  | Response change_batch
  | Ack u64
  | Ping
  | Pong

subsection \<open>The codec\<close>

text \<open>
  Both failures of the decoder become \<open>bincode::ErrorKind::Custom\<close> of the rendered error;
  the two sources are kept apart here.
\<close>

datatype codec_error = InvalidUtf8 | Json string

type_synonym json_printer = "sync_message \<Rightarrow> string + string"
type_synonym json_parser = "string \<Rightarrow> string + sync_message"

definition encode_message :: "json_printer \<Rightarrow> sync_message \<Rightarrow> (codec_error, bytes) outcome" where
  "encode_message to_json msg =
     and_then (map_err Json (of_result (to_json msg))) (\<lambda>json. Ok (as_bytes json))"

definition decode_message :: "json_parser \<Rightarrow> bytes \<Rightarrow> (codec_error, sync_message) outcome" where
  "decode_message from_json data =
     (if utf8_valid data then map_err Json (of_result (from_json (of_bytes data))) else Err InvalidUtf8)"

text \<open>
  What the codec relies on, for one message: \<open>serde_json\<close> prints it as a string (valid
  UTF-8, as every Rust \<open>String\<close>) and parses that string back to it.
\<close>

definition json_faithful :: "json_printer \<Rightarrow> json_parser \<Rightarrow> sync_message \<Rightarrow> bool" where
  "json_faithful to_json from_json m \<longleftrightarrow>
     (\<exists>s. to_json m = Inr s \<and> utf8_valid (as_bytes s) \<and> from_json s = Inr m)"

lemma encode_message_Ok_iff:
  "encode_message to_json m = Ok bs \<longleftrightarrow> (\<exists>s. to_json m = Inr s \<and> bs = as_bytes s)"
  by (auto simp: encode_message_def and_then_Ok_iff)

lemma json_faithful_codec:
  "json_faithful to_json from_json m \<Longrightarrow>
     \<exists>bs. encode_message to_json m = Ok bs \<and> decode_message from_json bs = Ok m"
  by (auto simp: json_faithful_def encode_message_def decode_message_def)

lemma decode_message_invalid:
  "\<not> utf8_valid data \<Longrightarrow> decode_message from_json data = Err InvalidUtf8"
  by (simp add: decode_message_def)

text \<open>
  A printer and a parser for the two messages without data, with the texts \<open>serde_json\<close>
  gives them (an internally tagged enum): an instance of the two arguments.
\<close>

fun keepalive_to_json :: json_printer where
  \<open>keepalive_to_json Ping = Inr ''{"type":"Ping"}''\<close>
| \<open>keepalive_to_json Pong = Inr ''{"type":"Pong"}''\<close>
| \<open>keepalive_to_json _ = Inl ''unsupported''\<close>

definition keepalive_from_json :: json_parser where
  \<open>keepalive_from_json s =
     (if s = ''{"type":"Ping"}'' then Inr Ping
      else if s = ''{"type":"Pong"}'' then Inr Pong else Inl ''unsupported'')\<close>

lemma keepalive_faithful:
  "json_faithful keepalive_to_json keepalive_from_json Ping"
  "json_faithful keepalive_to_json keepalive_from_json Pong"
  by (auto simp: json_faithful_def keepalive_from_json_def as_bytes_def)

text \<open>
  Messages survive the wire: where \<open>serde_json\<close> prints and parses a message
  faithfully, \<open>encode_message\<close> succeeds, its bytes are valid UTF-8, and
  \<open>decode_message\<close> returns the message.
\<close>

theorem message_codec_roundtrip:
  assumes "json_faithful to_json from_json m"
  shows "\<exists>bs. encode_message to_json m = Ok bs \<and> utf8_valid bs \<and> decode_message from_json bs = Ok m"
  using assms by (auto simp: json_faithful_def encode_message_def decode_message_def)

theorem message_codec_roundtrip_witness:
  "\<exists>bs. encode_message keepalive_to_json Ping = Ok bs \<and> utf8_valid bs
        \<and> decode_message keepalive_from_json bs = Ok Ping"
  by (rule message_codec_roundtrip [OF keepalive_faithful(1)])

end
