(* ===== verification/Error_Types.thy ===== *)
theory Error_Types
  imports Common
begin

section \<open>Errors (\<open>src/error.rs\<close>)\<close>

text \<open>
  The error enumeration of the crate, its conversions from the errors of the libraries
  (which are known here by their rendered text), and its \<open>Display\<close> texts. The rendering of
  a \<open>Duration\<close> by \<open>{:?}\<close> is an argument.
\<close>

datatype error =
    Endpoint string
  | Discovery string
  | Connection string
  | ConnectionClosed string
  | InvalidTicket string
  | Sync string
  | Encoding string
  | State string
  | Shutdown
  | ChannelClosed
  | PeerNotFound string
  | MaxPeersReached nat
  | Timeout duration
  | Other string

type_synonym 'a result = "(error, 'a) outcome"

definition error_from_io :: "string \<Rightarrow> error" where
  "error_from_io err = Connection err"

definition error_from_socket_addr :: "string \<Rightarrow> error" where
  "error_from_socket_addr err = Endpoint err"

definition error_from_bincode :: "string \<Rightarrow> error" where
  "error_from_bincode err = Encoding err"

definition error_from_json :: "string \<Rightarrow> error" where
  "error_from_json err = Encoding err"

definition error_from_connection :: "string \<Rightarrow> error" where
  "error_from_connection err = Connection err"

text \<open>Decimal digits, as \<open>Display\<close> prints a \<open>usize\<close>.\<close>

fun show_nat :: "nat \<Rightarrow> string" where
  "show_nat n = (if n < 10 then [char_of (48 + n)] else show_nat (n div 10) @ [char_of (48 + n mod 10)])"

declare show_nat.simps [simp del]

fun error_display :: "(duration \<Rightarrow> string) \<Rightarrow> error \<Rightarrow> string" where
  "error_display show_dur (Endpoint s) = ''failed to create endpoint: '' @ s"
| "error_display show_dur (Discovery s) = ''discovery failed: '' @ s"
| "error_display show_dur (Connection s) = ''connection failed: '' @ s"
| "error_display show_dur (ConnectionClosed s) = ''connection closed: '' @ s"
| "error_display show_dur (InvalidTicket s) = ''invalid ticket: '' @ s"
| "error_display show_dur (Sync s) = ''sync error: '' @ s"
| "error_display show_dur (Encoding s) = ''encoding error: '' @ s"
| "error_display show_dur (State s) = ''state error: '' @ s"
| "error_display show_dur Shutdown = ''shutdown requested''"
| "error_display show_dur ChannelClosed = ''channel closed''"
| "error_display show_dur (PeerNotFound s) = ''peer not found: '' @ s"
| "error_display show_dur (MaxPeersReached n) = ''maximum peers ('' @ show_nat n @ '') reached''"
| "error_display show_dur (Timeout d) = ''operation timed out after '' @ show_dur d"
| "error_display show_dur (Other s) = ''error: '' @ s"

lemma show_nat_not_Nil [simp]: "show_nat n \<noteq> []"
  by (subst show_nat.simps) simp

end
