(* ===== verification/Persist.thy ===== *)
theory Persist
  imports Change Error_Types
begin

section \<open>The change stores (\<open>src/persist.rs\<close>)\<close>

text \<open>
  The append-only log file, the in-memory store and the manager over either. The directory of a
  store is modelled as far as the code observes it: names lead to inodes, inodes to their bytes
  (an open handle keeps its inode when the name is renamed away), the disk may have a limited
  number of bytes left, and \<open>fsync\<close> may fail. \<open>bincode\<close> and the
  rendering of I/O errors are the fields of a \<open>store_lib\<close>.
\<close>

definition LOG_MAGIC :: bytes where
  "LOG_MAGIC = as_bytes ''SDCL''"

definition LOG_VERSION :: u32 where
  "LOG_VERSION = 1"

definition HEADER_SIZE :: nat where
  "HEADER_SIZE = 16"

definition DEFAULT_FLUSH_THRESHOLD :: nat where
  "DEFAULT_FLUSH_THRESHOLD = 100"

definition DEFAULT_INDEX_INTERVAL :: nat where
  "DEFAULT_INDEX_INTERVAL = 1000"

subsection \<open>The directory\<close>

datatype io_error = NotFound | PermissionDenied | UnexpectedEof | NoSpace | SyncFailed | InvalidData string

record store_lib =
  sl_serialize :: "change \<Rightarrow> string + bytes"
  sl_deserialize :: "bytes \<Rightarrow> string + change"
  sl_io_text :: "io_error \<Rightarrow> string"

record disk =
  dk_names :: "string \<rightharpoonup> nat"
  dk_data :: "nat \<Rightarrow> bytes"
  dk_next :: nat
  dk_room :: "nat option" \<comment> \<open>bytes left, \<open>None\<close> for a disk that never fills\<close>
  dk_sync_ok :: bool
  dk_dir_ok :: bool \<comment> \<open>the directory exists or can be created\<close>
  dk_open_ok :: bool \<comment> \<open>its files can be opened\<close>

definition log_name :: string where
  "log_name = ''changes.log''"

definition disk_append :: "nat \<Rightarrow> bytes \<Rightarrow> disk \<Rightarrow> (io_error, unit) outcome \<times> disk" where
  "disk_append i bs d =
     (case dk_room d of
        None \<Rightarrow> (Ok (), d\<lparr>dk_data := (dk_data d)(i := dk_data d i @ bs)\<rparr>)
      | Some r \<Rightarrow>
          (if length bs \<le> r then Ok () else Err NoSpace,
           d\<lparr>dk_data := (dk_data d)(i := dk_data d i @ take r bs), dk_room := Some (r - length bs)\<rparr>))"

text \<open>\<open>OpenOptions\<close> with \<open>create\<close> and \<open>append\<close>, and \<open>File::create\<close>, which truncates.\<close>

definition disk_open_append :: "string \<Rightarrow> disk \<Rightarrow> nat \<times> disk" where
  "disk_open_append name d =
     (case dk_names d name of
        Some i \<Rightarrow> (i, d)
      | None \<Rightarrow> (dk_next d, d\<lparr>dk_names := (dk_names d)(name \<mapsto> dk_next d),
                             dk_data := (dk_data d)(dk_next d := []), dk_next := dk_next d + 1\<rparr>))"

definition disk_create :: "string \<Rightarrow> disk \<Rightarrow> nat \<times> disk" where
  "disk_create name d =
     (let (i, d') = disk_open_append name d in (i, d'\<lparr>dk_data := (dk_data d')(i := [])\<rparr>))"

definition disk_remove :: "string \<Rightarrow> disk \<Rightarrow> disk" where
  "disk_remove name d = d\<lparr>dk_names := (dk_names d)(name := None)\<rparr>"

definition disk_rename :: "string \<Rightarrow> string \<Rightarrow> disk \<Rightarrow> disk" where
  "disk_rename a b d = d\<lparr>dk_names := (dk_names d)(a := None, b := dk_names d a)\<rparr>"

subsection \<open>The file store\<close>

record index_entry =
  ix_offset :: u64
  ix_position :: nat
  ix_length :: u32

record file_store =
  fs_tail :: u64
  fs_file :: "nat option"
  fs_buffer :: "change list"
  fs_flush_threshold :: nat
  fs_index :: "index_entry list"
  fs_index_interval :: nat

definition log_header :: bytes where
  "log_header = LOG_MAGIC @ to_le_bytes LOG_VERSION @ replicate 8 0"

definition write_header :: "nat \<Rightarrow> disk \<Rightarrow> (io_error, unit) outcome \<times> disk" where
  "write_header i d = disk_append i log_header d"

text \<open>The length prefix of the record at the front of a stream.\<close>

definition read_len :: "bytes \<Rightarrow> (u32 \<times> bytes) option" where
  "read_len bs = map_option (\<lambda>(len_buf, rest). (from_le_bytes len_buf, rest)) (read_exact 4 bs)"

text \<open>The scan of \<open>build_index\<close>; a seek past the end of the file ends it at the next read.\<close>

function build_index_loop :: "nat \<Rightarrow> bytes \<Rightarrow> nat \<Rightarrow> u64 \<Rightarrow> index_entry list" where
  "build_index_loop interval data pos off =
     (case read_len (drop pos data) of
        None \<Rightarrow> []
      | Some (len, rest) \<Rightarrow>
          if len = 0 \<or> unat len > 16 * 1024 * 1024 then []
          else (if unat off mod interval = 0
                then [\<lparr>ix_offset = off, ix_position = pos, ix_length = len\<rparr>] else [])
               @ build_index_loop interval data (pos + 4 + unat len) (off + 1))"
  by pat_completeness auto
termination
  by (relation "measure (\<lambda>(interval, data, pos, off). length data - pos)")
     (auto simp: read_len_def read_exact_def split: if_splits)

declare build_index_loop.simps [simp del]

definition build_index :: "nat \<Rightarrow> bytes \<Rightarrow> index_entry list" where
  "build_index interval data = build_index_loop interval data HEADER_SIZE 0"

definition tail_of_index :: "index_entry list \<Rightarrow> u64" where
  "tail_of_index index = (if index = [] then 0 else ix_offset (last index) + 1)"

definition initialize_file ::
  "nat \<Rightarrow> nat \<Rightarrow> disk \<Rightarrow> (io_error, u64 \<times> index_entry list) outcome \<times> disk" where
  "initialize_file i interval d =
     (let data = dk_data d i
      in if length data < HEADER_SIZE then
           (case write_header i d of
              (Ok _, d') \<Rightarrow> (Ok (0, []), d')
            | (Err e, d') \<Rightarrow> (Err e, d')
            | (Panic, d') \<Rightarrow> (Panic, d'))
         else if take 4 data \<noteq> LOG_MAGIC then
           (Err (InvalidData ''invalid log file: missing magic bytes''), d)
         else if LOG_VERSION < from_le_bytes (take 4 (drop 4 data)) then
           (Err (InvalidData (''unsupported log version: '' @ show_nat (unat (from_le_bytes (take 4 (drop 4 data)))))), d)
         else (let index = build_index interval data in (Ok (tail_of_index index, index), d)))"

text \<open>
  \<open>Path::extension\<close> and \<open>file_stem\<close> of a file name: split at the last
  dot; a name whose only dot is its first character has no extension.
\<close>

definition path_split :: "string \<Rightarrow> string \<times> string option" where
  "path_split name =
     (let ext = rev (takeWhile (\<lambda>c. c \<noteq> CHR ''.'') (rev name));
          stem = take (length name - length ext - 1) name
      in if length ext = length name \<or> stem = [] then (name, None) else (stem, Some ext))"

datatype temp_file_type = TempFlush | TempCompacting

definition classify_temp :: "string \<Rightarrow> temp_file_type option" where
  "classify_temp name =
     (case path_split name of
        (stem, Some ext) \<Rightarrow>
          if ext = ''tmp'' then
            Some (if list_ex (\<lambda>k. take 10 (drop k stem) = ''compacting'') [0..<length stem] then TempCompacting else TempFlush)
          else None
      | _ \<Rightarrow> None)"

text \<open>
  \<open>entries\<close> is what \<open>read_dir\<close> yields, \<open>removable\<close> tells
  for which names \<open>remove_file\<close> succeeds. A file that cannot be removed is left with
  a warning.
\<close>

definition recover_temp_files :: "string list \<Rightarrow> (string \<Rightarrow> bool) \<Rightarrow> disk \<Rightarrow> disk" where
  "recover_temp_files entries removable d =
     (let temp_files = [(name, t). name \<leftarrow> entries, t \<leftarrow> (case classify_temp name of None \<Rightarrow> [] | Some t \<Rightarrow> [t])];
          remove = (\<lambda>name d. if removable name then disk_remove name d else d);
          d1 = fold (\<lambda>(name, t) d. case t of TempFlush \<Rightarrow> remove name d | TempCompacting \<Rightarrow> remove name d)
                 temp_files d
      in if dk_names d1 ''changes.compacting.tmp'' \<noteq> None then remove ''changes.compacting.tmp'' d1 else d1)"

definition file_store_new ::
  "store_lib \<Rightarrow> string list \<Rightarrow> (string \<Rightarrow> bool) \<Rightarrow> nat \<Rightarrow> disk \<Rightarrow> file_store result \<times> disk" where
  "file_store_new lib entries removable flush_threshold d =
     (if \<not> dk_dir_ok d then (Err (Other (''failed to create dir: '' @ sl_io_text lib PermissionDenied)), d)
      else let d0 = recover_temp_files entries removable d
      in if \<not> dk_open_ok d then (Err (Other (''failed to open file: '' @ sl_io_text lib PermissionDenied)), d0)
      else let (i, d1) = disk_open_append log_name d0
      in case initialize_file i DEFAULT_INDEX_INTERVAL d1 of
           (Ok (tail, index), d2) \<Rightarrow>
             (Ok \<lparr>fs_tail = tail, fs_file = Some i, fs_buffer = [],
                  fs_flush_threshold = flush_threshold, fs_index = index,
                  fs_index_interval = DEFAULT_INDEX_INTERVAL\<rparr>, d2)
         | (Err e, d2) \<Rightarrow> (Err (Other (''failed to initialize log: '' @ sl_io_text lib e)), d2)
         | (Panic, d2) \<Rightarrow> (Panic, d2))"

subsection \<open>Appending and flushing\<close>

definition put_record :: "bytes \<Rightarrow> bytes" where
  "put_record bs = to_le_bytes (of_nat (length bs)) @ bs"

text \<open>The two writes of a record; a full disk may cut either.\<close>

fun write_records :: "store_lib \<Rightarrow> nat \<Rightarrow> change list \<Rightarrow> disk \<Rightarrow> unit result \<times> disk" where
  "write_records lib i [] d = (Ok (), d)"
| "write_records lib i (c # cs) d =
     (case sl_serialize lib c of
        Inl e \<Rightarrow> (Err (Encoding e), d)
      | Inr bs \<Rightarrow>
          (case disk_append i (to_le_bytes (of_nat (length bs))) d of
             (Ok _, d1) \<Rightarrow>
               (case disk_append i bs d1 of
                  (Ok _, d2) \<Rightarrow> write_records lib i cs d2
                | (_, d2) \<Rightarrow> (Err (Other (''flush failed (disk full?): '' @ sl_io_text lib NoSpace)), d2))
           | (_, d1) \<Rightarrow> (Err (Other (''flush failed (disk full?): '' @ sl_io_text lib NoSpace)), d1)))"

text \<open>The index entries a flush adds: one for every \<open>interval\<close>-th change, at position 0.\<close>

definition flushed_entries :: "nat \<Rightarrow> u64 \<Rightarrow> nat \<Rightarrow> index_entry list" where
  "flushed_entries interval tail n =
     (let current_offset = saturating_sub tail (of_nat n)
      in map (\<lambda>j. \<lparr>ix_offset = current_offset + of_nat (j * interval), ix_position = 0, ix_length = 0\<rparr>)
           [0..<(n + interval - 1) div interval])"

definition file_flush :: "store_lib \<Rightarrow> disk \<times> file_store \<Rightarrow> unit result \<times> disk \<times> file_store" where
  "file_flush lib s =
     (case s of (d, st) \<Rightarrow>
        let changes = fs_buffer st; st1 = st\<lparr>fs_buffer := []\<rparr>
        in if changes = [] then (Ok (), d, st1)
           else case fs_file st of
             None \<Rightarrow> (Ok (), d, st1)
           | Some i \<Rightarrow>
               (case write_records lib i changes d of
                  (Ok _, d1) \<Rightarrow>
                    if \<not> dk_sync_ok d1 then
                      (Err (Other (''sync failed (disk full?): '' @ sl_io_text lib SyncFailed
                                   @ '' - data may not be durable'')), d1, st1)
                    else if fs_index_interval st \<le> length changes then
                      (Ok (), d1, st1\<lparr>fs_index := fs_index st1
                         @ flushed_entries (fs_index_interval st) (fs_tail st1) (length changes)\<rparr>)
                    else (Ok (), d1, st1)
                | (r, d1) \<Rightarrow> (r, d1, st1)))"

definition file_append :: "store_lib \<Rightarrow> disk \<times> file_store \<Rightarrow> change \<Rightarrow> u64 result \<times> disk \<times> file_store" where
  "file_append lib s c =
     (case s of (d, st) \<Rightarrow>
        let off = fs_tail st;
            st1 = st\<lparr>fs_tail := off + 1, fs_buffer := fs_buffer st @ [c]\<rparr>
        in if fs_flush_threshold st1 \<le> length (fs_buffer st1) then
             (case file_flush lib (d, st1) of (r, s2) \<Rightarrow> (and_then r (\<lambda>_. Ok off), s2))
           else (Ok off, d, st1))"

definition file_tail_offset :: "disk \<times> file_store \<Rightarrow> u64" where
  "file_tail_offset s = fs_tail (snd s)"

definition file_close :: "store_lib \<Rightarrow> disk \<times> file_store \<Rightarrow> unit result \<times> disk \<times> file_store" where
  "file_close lib s =
     (case file_flush lib s of
        (Ok _, d, st) \<Rightarrow> (Ok (), d, st\<lparr>fs_file := None\<rparr>)
      | (r, s1) \<Rightarrow> (r, s1))"

text \<open>Dropping a handle flushes and ignores the outcome; the file closes with the last handle.\<close>

definition file_drop :: "store_lib \<Rightarrow> disk \<times> file_store \<Rightarrow> disk \<times> file_store" where
  "file_drop lib s = snd (file_flush lib s)"

subsection \<open>Reading\<close>

datatype record_read = EndOfLog | TornRecord | LogRecord bytes bytes

definition next_record :: "bytes \<Rightarrow> record_read" where
  "next_record rx =
     (case read_len rx of
        None \<Rightarrow> EndOfLog
      | Some (len, rest) \<Rightarrow>
          if len = 0 then EndOfLog
          else case read_exact (unat len) rest of
            None \<Rightarrow> TornRecord
          | Some (change_buf, rest') \<Rightarrow> LogRecord change_buf rest')"

lemma next_record_shorter: "next_record rx = LogRecord bs rest \<Longrightarrow> length rest < length rx"
  by (auto simp: next_record_def read_len_def read_exact_Some_iff split: option.splits if_splits)

function read_loop ::
  "store_lib \<Rightarrow> u64 \<Rightarrow> u64 \<Rightarrow> bytes \<Rightarrow> change list \<Rightarrow> change list result" where
  "read_loop lib offset current_offset rx changes =
     (case next_record rx of
        EndOfLog \<Rightarrow> Ok changes
      | TornRecord \<Rightarrow> Err (Other (''read error: '' @ sl_io_text lib UnexpectedEof))
      | LogRecord change_buf rest \<Rightarrow>
          if offset \<le> current_offset then
            (case sl_deserialize lib change_buf of
               Inl e \<Rightarrow> Err (Encoding e)
             | Inr c \<Rightarrow> read_loop lib offset (current_offset + 1) rest (changes @ [c]))
          else read_loop lib offset (current_offset + 1) rest changes)"
  by pat_completeness auto
termination
  by (relation "measure (\<lambda>(lib, off, cur, rx, cs). length rx)") (simp_all add: next_record_shorter)

declare read_loop.simps [simp del]

text \<open>
  The start of the read: \<open>binary_search_by\<close> finds the entry of the offset, or the place
  where it would be inserted in the (ascending) index.
\<close>

definition start_position :: "index_entry list \<Rightarrow> u64 \<Rightarrow> nat" where
  "start_position index offset =
     (if offset = 0 then HEADER_SIZE
      else case find (\<lambda>e. ix_offset e = offset) index of
        Some e \<Rightarrow> ix_position e
      | None \<Rightarrow>
          (let pos = length (takeWhile (\<lambda>e. ix_offset e < offset) index)
           in if pos = 0 then HEADER_SIZE else ix_position (index ! (pos - 1))))"

definition start_offset :: "index_entry list \<Rightarrow> nat \<Rightarrow> u64" where
  "start_offset index start_pos =
     (let offs = map ix_offset (filter (\<lambda>e. ix_position e \<le> start_pos) index)
      in if offs = [] then 0 else fold max offs 0 + 1)"

definition open_log :: "store_lib \<Rightarrow> disk \<Rightarrow> (string, nat) outcome" where
  "open_log lib d =
     (case dk_names d log_name of
        None \<Rightarrow> Err (sl_io_text lib NotFound)
      | Some i \<Rightarrow> if dk_open_ok d then Ok i else Err (sl_io_text lib PermissionDenied))"

definition read_changes_since :: "store_lib \<Rightarrow> disk \<times> file_store \<Rightarrow> u64 \<Rightarrow> change list result" where
  "read_changes_since lib s offset =
     (case s of (d, st) \<Rightarrow>
        and_then (map_err error_from_io (open_log lib d))
          (\<lambda>i. let start_pos = start_position (fs_index st) offset
               in read_loop lib offset (start_offset (fs_index st) start_pos)
                    (drop start_pos (dk_data d i)) []))"

definition file_get_since :: "store_lib \<Rightarrow> disk \<times> file_store \<Rightarrow> u64 \<Rightarrow> change list result" where
  "file_get_since lib s offset = read_changes_since lib s offset"

subsection \<open>Compaction\<close>

text \<open>
  The I/O errors of a compaction, by the call that raises them (\<open>ci_read n\<close>,
  \<open>ci_write n\<close> and \<open>ci_progress n\<close> in the iteration of record
  \<open>n\<close>), and what a failed one leaves in the temporary file.
\<close>

record compact_io =
  ci_create :: "string option"
  ci_create_header :: "string option"
  ci_header :: "string option"
  ci_read :: "u64 \<Rightarrow> string option"
  ci_write :: "u64 \<Rightarrow> string option"
  ci_progress :: "u64 \<Rightarrow> string option"
  ci_flush :: "string option"
  ci_sync :: "string option"
  ci_rename :: "string option"
  ci_replace :: "string option"
  ci_leftover :: bytes

datatype compact_end =
    CompactDone u64 bytes \<comment> \<open>records kept and the bytes written\<close>
  | CompactRollback string
  | CompactFail string

text \<open>The two reads of an iteration, \<open>None\<close> when either meets the end of the file.\<close>

definition compact_read :: "bytes \<Rightarrow> (bytes \<times> bytes \<times> bytes) option" where
  "compact_read rx =
     (case read_exact 4 rx of
        None \<Rightarrow> None
      | Some (len_buf, rest) \<Rightarrow>
          map_option (Pair len_buf) (read_exact (unat (from_le_bytes len_buf)) rest))"

lemma compact_read_shorter:
  "compact_read rx = Some (len_buf, change_buf, rest) \<Longrightarrow> length rest < length rx"
  by (auto simp: compact_read_def read_exact_Some_iff split: option.splits)

definition compact_fault :: "compact_io \<Rightarrow> u64 \<Rightarrow> u64 \<Rightarrow> string option" where
  "compact_fault io keep_from record_number =
     (case (ci_write io record_number, ci_progress io record_number) of
        (w, p) \<Rightarrow>
          if keep_from \<le> record_number \<and> w \<noteq> None then Some (''write error: '' @ the w)
          else if unat (record_number + 1) mod 10000 = 0 \<and> p \<noteq> None then Some (''flush error: '' @ the p)
          else None)"

function compact_loop :: "compact_io \<Rightarrow> u64 \<Rightarrow> u64 \<Rightarrow> u64 \<Rightarrow> bytes \<Rightarrow> bytes \<Rightarrow> compact_end" where
  "compact_loop io keep_from record_number new_offset out rx =
     (case ci_read io record_number of
        Some e \<Rightarrow> CompactRollback (''read error: '' @ e)
      | None \<Rightarrow>
        (case compact_read rx of
           None \<Rightarrow> CompactDone new_offset out
         | Some (len_buf, change_buf, rest) \<Rightarrow>
             (case compact_fault io keep_from record_number of
                Some e \<Rightarrow> CompactFail e
              | None \<Rightarrow>
                  if keep_from \<le> record_number then
                    compact_loop io keep_from (record_number + 1) (new_offset + 1)
                      (out @ len_buf @ change_buf) rest
                  else compact_loop io keep_from (record_number + 1) new_offset out rest)))"
  by pat_completeness auto
termination
  by (relation "measure (\<lambda>(io, keep, n, new, out, rx). length rx)") (auto dest: compact_read_shorter)

declare compact_loop.simps [simp del]

definition temp_name :: string where
  "temp_name = ''changes.compacting.tmp''"

definition compacted_name :: string where
  "compacted_name = ''changes.compacted.log''"

text \<open>
  The temporary file is created twice: the second handle writes the header, the first one,
  still at position 0, writes the records over it.
\<close>

definition overwrite :: "bytes \<Rightarrow> bytes \<Rightarrow> bytes" where
  "overwrite bs old = bs @ drop (length bs) old"

definition disk_put :: "nat \<Rightarrow> bytes \<Rightarrow> disk \<Rightarrow> disk" where
  "disk_put i bs d = d\<lparr>dk_data := (dk_data d)(i := bs)\<rparr>"

text \<open>A call that may fail: its error, wrapped, with the state at that point, or the rest.\<close>

definition try_io :: "(string \<Rightarrow> error) \<Rightarrow> string option \<Rightarrow> 's \<Rightarrow> 'a result \<times> 's \<Rightarrow> 'a result \<times> 's" where
  "try_io wrap r s k = (case r of Some e \<Rightarrow> (Err (wrap e), s) | None \<Rightarrow> k)"

definition compact_finish ::
  "compact_io \<Rightarrow> nat \<Rightarrow> disk \<Rightarrow> file_store \<Rightarrow> u64 \<Rightarrow> bytes \<Rightarrow> u64 result \<times> disk \<times> file_store" where
  "compact_finish io t d1 st new_offset out =
     (let failed = (disk_put t (ci_leftover io) d1, st);
          d2 = disk_put t (overwrite out log_header) d1;
          d3 = disk_rename temp_name compacted_name d2
      in try_io (\<lambda>e. Other (''flush error: '' @ e)) (ci_flush io) failed
        (try_io (\<lambda>e. Other (''sync error: '' @ e)) (ci_sync io) (d2, st)
        (try_io (\<lambda>e. Other (''failed to rename temp: '' @ e)) (ci_rename io) (d2, st)
        (try_io (\<lambda>e. Other (''failed to rename compacted: '' @ e)) (ci_replace io) (d3, st)
           (Ok new_offset, disk_rename compacted_name log_name d3,
            st\<lparr>fs_index := [], fs_tail := new_offset\<rparr>)))))"

definition compact_temp ::
  "compact_io \<Rightarrow> disk \<Rightarrow> file_store \<Rightarrow> u64 \<Rightarrow> nat \<Rightarrow> u64 result \<times> disk \<times> file_store" where
  "compact_temp io d st keep_from source =
     (let (t, d1) = disk_create temp_name d;
          failed = (disk_put t (ci_leftover io) d1, st)
      in try_io (\<lambda>e. Other (''failed to create header file: '' @ e)) (ci_create_header io) failed
        (try_io error_from_io (ci_header io) failed
           (case compact_loop io keep_from 0 0 [] (dk_data d source) of
              CompactRollback e \<Rightarrow> (Err (Other e), disk_remove temp_name d1, st)
            | CompactFail e \<Rightarrow> (Err (Other e), failed)
            | CompactDone new_offset out \<Rightarrow> compact_finish io t d1 st new_offset out)))"

definition compact ::
  "store_lib \<Rightarrow> compact_io \<Rightarrow> disk \<times> file_store \<Rightarrow> u64 \<Rightarrow> u64 result \<times> disk \<times> file_store" where
  "compact lib io s keep_from =
     (case open_log lib (fst s) of
        Ok source \<Rightarrow>
          try_io (\<lambda>e. Other (''failed to create temp file: '' @ e)) (ci_create io) s
            (compact_temp io (fst s) (snd s) keep_from source)
      | Err e \<Rightarrow> (Err (Other (''failed to open source file: '' @ e)), s)
      | Panic \<Rightarrow> (Panic, s))"

definition compact_with_recovery ::
  "store_lib \<Rightarrow> compact_io \<Rightarrow> disk \<times> file_store \<Rightarrow> u64 \<Rightarrow> u64 result \<times> disk \<times> file_store" where
  "compact_with_recovery lib io s keep_from = compact lib io s keep_from"

definition recover_compaction :: "disk \<times> file_store \<Rightarrow> unit result \<times> disk \<times> file_store" where
  "recover_compaction s = (Ok (), s)"

subsection \<open>The memory store\<close>

definition memory_append :: "change list \<Rightarrow> change \<Rightarrow> u64 result \<times> change list" where
  "memory_append s c = (Ok (of_nat (length s)), s @ [c])"

definition memory_get_since :: "change list \<Rightarrow> u64 \<Rightarrow> change list result" where
  "memory_get_since s offset = Ok (drop (unat offset) s)"

definition memory_tail_offset :: "change list \<Rightarrow> u64" where
  "memory_tail_offset s = of_nat (length s)"

definition memory_flush :: "change list \<Rightarrow> unit result \<times> change list" where
  "memory_flush s = (Ok (), s)"

definition memory_close :: "change list \<Rightarrow> unit result \<times> change list" where
  "memory_close s = (Ok (), s)"

subsection \<open>Either store, and the manager\<close>

datatype any_store = FileStore disk file_store | MemoryStore "change list"

fun store_append :: "store_lib \<Rightarrow> any_store \<Rightarrow> change \<Rightarrow> u64 result \<times> any_store" where
  "store_append lib (FileStore d st) c = (case file_append lib (d, st) c of (r, d', st') \<Rightarrow> (r, FileStore d' st'))"
| "store_append lib (MemoryStore cs) c = (case memory_append cs c of (r, cs') \<Rightarrow> (r, MemoryStore cs'))"

fun store_get_since :: "store_lib \<Rightarrow> any_store \<Rightarrow> u64 \<Rightarrow> change list result" where
  "store_get_since lib (FileStore d st) off = file_get_since lib (d, st) off"
| "store_get_since lib (MemoryStore cs) off = memory_get_since cs off"

fun store_tail_offset :: "any_store \<Rightarrow> u64" where
  "store_tail_offset (FileStore d st) = file_tail_offset (d, st)"
| "store_tail_offset (MemoryStore cs) = memory_tail_offset cs"

fun store_flush :: "store_lib \<Rightarrow> any_store \<Rightarrow> unit result \<times> any_store" where
  "store_flush lib (FileStore d st) = (case file_flush lib (d, st) of (r, d', st') \<Rightarrow> (r, FileStore d' st'))"
| "store_flush lib (MemoryStore cs) = (case memory_flush cs of (r, cs') \<Rightarrow> (r, MemoryStore cs'))"

fun store_close :: "store_lib \<Rightarrow> any_store \<Rightarrow> unit result \<times> any_store" where
  "store_close lib (FileStore d st) = (case file_close lib (d, st) of (r, d', st') \<Rightarrow> (r, FileStore d' st'))"
| "store_close lib (MemoryStore cs) = (case memory_close cs of (r, cs') \<Rightarrow> (r, MemoryStore cs'))"

text \<open>The manager: its store, the flush interval, and whether the flush task runs.\<close>

record store_manager =
  mg_store :: any_store
  mg_flush_interval :: duration
  mg_flush_task :: bool

definition store_manager_new :: "any_store \<Rightarrow> store_manager" where
  "store_manager_new store =
     \<lparr>mg_store = store, mg_flush_interval = 5000000000, mg_flush_task = False\<rparr>"

definition store_manager_in_memory :: store_manager where
  "store_manager_in_memory = store_manager_new (MemoryStore [])"

definition store_manager_file_based ::
  "store_lib \<Rightarrow> string list \<Rightarrow> (string \<Rightarrow> bool) \<Rightarrow> disk \<Rightarrow> store_manager result" where
  "store_manager_file_based lib entries removable d =
     (case file_store_new lib entries removable DEFAULT_FLUSH_THRESHOLD d of
        (Ok st, d') \<Rightarrow> Ok (store_manager_new (FileStore d' st))
      | (Err e, d') \<Rightarrow> Err e
      | (Panic, d') \<Rightarrow> Panic)"

definition start_flush_task :: "store_manager \<Rightarrow> store_manager" where
  "start_flush_task g = g\<lparr>mg_flush_task := True\<rparr>"

text \<open>A tick of the flush task; a failed flush is only logged.\<close>

definition flush_tick :: "store_lib \<Rightarrow> store_manager \<Rightarrow> store_manager" where
  "flush_tick lib g =
     (if mg_flush_task g then g\<lparr>mg_store := snd (store_flush lib (mg_store g))\<rparr> else g)"

definition store_manager_shutdown :: "store_lib \<Rightarrow> store_manager \<Rightarrow> unit result \<times> store_manager" where
  "store_manager_shutdown lib g =
     (case store_close lib (mg_store g) of
        (r, s) \<Rightarrow> (r, g\<lparr>mg_flush_task := False, mg_store := s\<rparr>))"

subsection \<open>The contract of a change store\<close>

text \<open>Appending one change after the other: what the calls return, and the store they leave.\<close>

fun append_each :: "('s \<Rightarrow> change \<Rightarrow> u64 result \<times> 's) \<Rightarrow> 's \<Rightarrow> change list \<Rightarrow> u64 result list \<times> 's" where
  "append_each append_fn s [] = ([], s)"
| "append_each append_fn s (c # cs) =
     (case append_fn s c of
        (r, s') \<Rightarrow> (case append_each append_fn s' cs of (rs, s'') \<Rightarrow> (r # rs, s'')))"

lemma append_each_snd: "snd (append_each append_fn s cs) = foldl (\<lambda>s c. snd (append_fn s c)) s cs"
  by (induction cs arbitrary: s) (simp_all add: split_beta)

text \<open>
  What the trait \<open>ChangeStore\<close> promises its users: \<open>append\<close> numbers the
  changes, and once flushed, \<open>get_since\<close> returns them from an offset on. \<open>holds
  s h\<close> says that \<open>h\<close> is all that was appended, flushed or not;
  \<open>ok\<close> are the changes that can be stored.
\<close>

locale change_store =
  fixes append :: "'s \<Rightarrow> change \<Rightarrow> u64 result \<times> 's"
    and get_since :: "'s \<Rightarrow> u64 \<Rightarrow> change list result"
    and tail :: "'s \<Rightarrow> u64"
    and flush :: "'s \<Rightarrow> unit result \<times> 's"
    and holds :: "'s \<Rightarrow> change list \<Rightarrow> bool"
    and ok :: "change \<Rightarrow> bool"
  assumes append_holds: "holds s h \<Longrightarrow> ok c \<Longrightarrow> length h + 1 < 2 ^ 64 \<Longrightarrow>
      fst (append s c) = Ok (of_nat (length h)) \<and> holds (snd (append s c)) (h @ [c])"
    and flush_holds: "holds s h \<Longrightarrow> fst (flush s) = Ok () \<and> holds (snd (flush s)) h"
    and tail_holds: "holds s h \<Longrightarrow> tail s = of_nat (length h)"
    and get_flushed: "holds s h \<Longrightarrow> get_since (snd (flush s)) off = Ok (drop (unat off) h)"
begin

lemma appends_hold:
  "holds s h \<Longrightarrow> list_all ok cs \<Longrightarrow> length h + length cs < 2 ^ 64 \<Longrightarrow>
     holds (foldl (\<lambda>s c. snd (append s c)) s cs) (h @ cs)"
proof (induction cs arbitrary: s h)
  case Nil
  then show ?case by simp
next
  case (Cons c cs)
  then have "holds (snd (append s c)) (h @ [c])"
    by (intro append_holds [THEN conjunct2]) auto
  from Cons.IH [OF this] Cons.prems show ?case by simp
qed

lemma appends_numbered:
  "holds s h \<Longrightarrow> list_all ok cs \<Longrightarrow> length h + length cs < 2 ^ 64 \<Longrightarrow>
     fst (append_each append s cs) = map (\<lambda>i. Ok (of_nat i)) [length h ..< length h + length cs]"
proof (induction cs arbitrary: s h)
  case Nil
  then show ?case by simp
next
  case (Cons c cs)
  then have "fst (append s c) = Ok (of_nat (length h))" "holds (snd (append s c)) (h @ [c])"
    using append_holds [of s h c] by simp_all
  with Cons.IH [of "snd (append s c)" "h @ [c]"] Cons.prems show ?case
    by (simp add: split_beta upt_conv_Cons del: upt_Suc)
qed

lemma read_back:
  assumes "holds s h" "list_all ok cs" "length h + length cs < 2 ^ 64"
  shows "let (rs, s') = append_each append s cs
         in rs = map (\<lambda>i. Ok (of_nat i)) [length h ..< length h + length cs]
            \<and> tail s' = of_nat (length h + length cs) \<and> fst (flush s') = Ok ()
            \<and> get_since (snd (flush s')) off = Ok (drop (unat off) (h @ cs))"
  using appends_numbered [OF assms] tail_holds [OF appends_hold [OF assms]] flush_holds [OF appends_hold [OF assms]]
    get_flushed [OF appends_hold [OF assms]] by (simp add: split_beta append_each_snd)

end

subsection \<open>Records are a framing\<close>

definition record_valid :: "bytes \<Rightarrow> bool" where
  "record_valid bs \<longleftrightarrow> bs \<noteq> [] \<and> length bs < 2 ^ 32"

definition get_record :: "bytes \<Rightarrow> (bytes \<times> bytes) option" where
  "get_record rx = (case next_record rx of LogRecord bs rest \<Rightarrow> Some (bs, rest) | _ \<Rightarrow> None)"

lemma length_prefix [codec_simps]:
  assumes "record_valid bs"
  shows "unat (of_nat (length bs) :: u32) = length bs" "(of_nat (length bs) :: u32) \<noteq> 0"
proof -
  show "unat (of_nat (length bs) :: u32) = length bs"
    by (rule unat_of_nat_u32) (use assms in \<open>simp add: record_valid_def\<close>)
  then show "(of_nat (length bs) :: u32) \<noteq> 0"
    using assms by (metis length_0_conv record_valid_def unat_0)
qed

lemma read_len_put [codec_simps]:
  "read_len (put_record bs @ rest) = Some (of_nat (length bs), bs @ rest)"
  by (simp add: read_len_def put_record_def)

lemma next_record_put [codec_simps]:
  "record_valid bs \<Longrightarrow> next_record (put_record bs @ rest) = LogRecord bs rest"
  by (simp add: next_record_def read_len_put length_prefix)

interpretation records: framing put_record get_record record_valid
  by unfold_locales (simp add: get_record_def next_record_put)

lemma length_put_record [simp]: "length (put_record bs) = 4 + length bs"
  by (simp add: put_record_def)

lemma next_record_Nil [simp]: "next_record [] = EndOfLog"
  by (simp add: next_record_def read_len_def read_exact_def)

lemma read_len_Nil [simp]: "read_len [] = None"
  by (simp add: read_len_def read_exact_def)

text \<open>A change that \<open>bincode\<close> writes and reads back, in a record of legal size.\<close>

definition record_ok :: "store_lib \<Rightarrow> change \<Rightarrow> bool" where
  "record_ok lib c \<longleftrightarrow>
     (case sl_serialize lib c of
        Inl e \<Rightarrow> False
      | Inr bs \<Rightarrow> record_valid bs \<and> sl_deserialize lib bs = Inr c)"

definition payload :: "store_lib \<Rightarrow> change \<Rightarrow> bytes" where
  "payload lib c = (case sl_serialize lib c of Inl e \<Rightarrow> [] | Inr bs \<Rightarrow> bs)"

definition log_bytes :: "store_lib \<Rightarrow> change list \<Rightarrow> bytes" where
  "log_bytes lib cs = concat (map (put_record \<circ> payload lib) cs)"

lemma record_okD:
  assumes "record_ok lib c"
  shows "sl_serialize lib c = Inr (payload lib c)" "record_valid (payload lib c)"
    and "sl_deserialize lib (payload lib c) = Inr c"
  using assms by (auto simp: record_ok_def payload_def split: sum.splits)

lemma log_bytes_simps [simp]:
  "log_bytes lib [] = []"
  "log_bytes lib (c # cs) = put_record (payload lib c) @ log_bytes lib cs"
  "log_bytes lib (cs @ ds) = log_bytes lib cs @ log_bytes lib ds"
  by (simp_all add: log_bytes_def)

lemma length_log_header [simp]: "length log_header = HEADER_SIZE"
  by (simp add: log_header_def LOG_MAGIC_def HEADER_SIZE_def)

text \<open>Reading a run of records, by the loop lemma of the framing.\<close>

definition read_step :: "store_lib \<Rightarrow> u64 \<Rightarrow> u64 \<times> change list \<Rightarrow> bytes \<Rightarrow> u64 \<times> change list" where
  "read_step lib off = (\<lambda>(cur, acc) bs.
     (cur + 1, if off \<le> cur then acc @ [projr (sl_deserialize lib bs)] else acc))"

lemma read_steps:
  assumes "list_all (record_ok lib) cs" "unat cur + length cs < 2 ^ 64"
  shows "foldl (read_step lib off) (cur, acc) (map (payload lib) cs)
       = (cur + of_nat (length cs), acc @ drop (unat off - unat cur) cs)"
  using assms
proof (induction cs arbitrary: cur acc)
  case Nil
  then show ?case by simp
next
  case (Cons c cs)
  have next_cur: "unat (cur + 1) = unat cur + 1"
    using Cons.prems(2) by (simp add: unat_word_ariths)
  have "foldl (read_step lib off) (cur, acc) (map (payload lib) (c # cs))
      = foldl (read_step lib off) (cur + 1, if off \<le> cur then acc @ [c] else acc) (map (payload lib) cs)"
    using Cons.prems(1) by (simp add: read_step_def record_okD)
  also have "\<dots> = (cur + 1 + of_nat (length cs),
      (if off \<le> cur then acc @ [c] else acc) @ drop (unat off - unat (cur + 1)) cs)"
    using Cons.prems next_cur by (intro Cons.IH) simp_all
  also have "(if off \<le> cur then acc @ [c] else acc) @ drop (unat off - unat (cur + 1)) cs
      = acc @ drop (unat off - unat cur) (c # cs)"
    using next_cur by (auto simp: word_le_nat_alt drop_Cons' intro: arg_cong [where f = "\<lambda>n. drop n cs"])
  finally show ?case by (simp add: add.assoc)
qed

lemma read_loop_log:
  assumes "list_all (record_ok lib) cs" "unat cur + length cs < 2 ^ 64"
  shows "read_loop lib off cur (log_bytes lib cs @ rest) acc
       = read_loop lib off (cur + of_nat (length cs)) rest (acc @ drop (unat off - unat cur) cs)"
proof -
  let ?loop = "\<lambda>s rx. read_loop lib off (fst s) rx (snd s)"
  have "?loop (cur, acc) (concat (map put_record (map (payload lib) cs)) @ rest)
      = ?loop (foldl (read_step lib off) (cur, acc) (map (payload lib) cs)) rest"
  proof (rule records.loop_items [where P = "\<lambda>bs. \<not> isl (sl_deserialize lib bs)"])
    fix s bs rx rest' assume "\<not> isl (sl_deserialize lib bs)" "get_record rx = Some (bs, rest')"
    then show "?loop s rx = ?loop (read_step lib off s bs) rest'"
      by (subst read_loop.simps)
         (auto simp: get_record_def read_step_def split_beta sum.case_eq_if split: record_read.splits)
  next
    show "\<forall>bs \<in> set (map (payload lib) cs). record_valid bs \<and> \<not> isl (sl_deserialize lib bs)"
      using assms(1) by (auto simp: list_all_iff record_okD)
  qed
  then show ?thesis
    by (simp add: read_steps [OF assms] log_bytes_def comp_def)
qed

lemma read_loop_end [simp]: "read_loop lib off cur [] acc = Ok acc"
  by (subst read_loop.simps) simp

subsection \<open>Both stores keep the contract\<close>

text \<open>
  A fresh file store: the log holds the flushed changes, the buffer the others, the disk has
  room. The index stays empty as long as a flush takes fewer than \<open>index_interval\<close> changes.
\<close>

definition file_holds :: "store_lib \<Rightarrow> disk \<times> file_store \<Rightarrow> change list \<Rightarrow> bool" where
  "file_holds lib s h =
     (case s of (d, st) \<Rightarrow>
        (case (dk_names d log_name, fs_file st) of
           (Some i, Some j) \<Rightarrow>
             i = j \<and> length h < 2 ^ 64 \<and> list_all (record_ok lib) h
             \<and> fs_tail st = of_nat (length h)
             \<and> fs_buffer st = drop (length h - length (fs_buffer st)) h
             \<and> dk_data d i = log_header @ log_bytes lib (take (length h - length (fs_buffer st)) h)
         | _ \<Rightarrow> False)
        \<and> dk_room d = None \<and> dk_sync_ok d \<and> dk_dir_ok d \<and> dk_open_ok d
        \<and> fs_index st = [] \<and> length (fs_buffer st) < max 1 (fs_flush_threshold st)
        \<and> max 1 (fs_flush_threshold st) < fs_index_interval st)"

lemma disk_append_room:
  "dk_room d = None \<Longrightarrow> disk_append i bs d = (Ok (), disk_put i (dk_data d i @ bs) d)"
  by (simp add: disk_append_def disk_put_def)

lemma disk_put_simps [simp]:
  "dk_names (disk_put i bs d) = dk_names d" "dk_data (disk_put i bs d) i = bs"
  "dk_room (disk_put i bs d) = dk_room d" "dk_sync_ok (disk_put i bs d) = dk_sync_ok d"
  "dk_open_ok (disk_put i bs d) = dk_open_ok d" "dk_dir_ok (disk_put i bs d) = dk_dir_ok d"
  "disk_put i cs (disk_put i bs d) = disk_put i cs d"
  by (simp_all add: disk_put_def)

lemma disk_put_same [simp]: "disk_put i (dk_data d i) d = d"
  by (simp add: disk_put_def)

lemma write_records_room:
  "dk_room d = None \<Longrightarrow> list_all (record_ok lib) cs \<Longrightarrow>
     write_records lib i cs d = (Ok (), disk_put i (dk_data d i @ log_bytes lib cs) d)"
proof (induction cs arbitrary: d)
  case Nil
  then show ?case by simp
next
  case (Cons c cs)
  then show ?case
    by (simp add: record_okD disk_append_room put_record_def)
qed

text \<open>A flush of fewer changes than the index interval onto a disk with room.\<close>

lemma file_flush_room:
  assumes "dk_room d = None" "dk_sync_ok d" "fs_file st = Some i"
    and "list_all (record_ok lib) (fs_buffer st)" "length (fs_buffer st) < fs_index_interval st"
  shows "file_flush lib (d, st)
       = (Ok (), disk_put i (dk_data d i @ log_bytes lib (fs_buffer st)) d, st\<lparr>fs_buffer := []\<rparr>)"
  using assms by (simp add: file_flush_def Let_def write_records_room)

lemma file_flush_holds:
  assumes "file_holds lib s h"
  shows "fst (file_flush lib s) = Ok () \<and> file_holds lib (snd (file_flush lib s)) h
         \<and> fs_buffer (snd (snd (file_flush lib s))) = []"
proof -
  obtain d st where s: "s = (d, st)" by force
  obtain i where i: "dk_names d log_name = Some i" "fs_file st = Some i"
    and h: "list_all (record_ok lib) h" "fs_buffer st = drop (length h - length (fs_buffer st)) h"
      "dk_data d i = log_header @ log_bytes lib (take (length h - length (fs_buffer st)) h)"
    using assms s by (auto simp: file_holds_def split: option.splits)
  have buf: "list_all (record_ok lib) (fs_buffer st)"
    using h(1,2) by (metis in_set_dropD list_all_iff)
  have "log_bytes lib (take (length h - length (fs_buffer st)) h) @ log_bytes lib (fs_buffer st)
      = log_bytes lib h"
    using h(2) by (metis append_take_drop_id log_bytes_simps(3))
  then show ?thesis
    using assms s i h(3) file_flush_room [of d st i lib] buf
    by (auto simp: file_holds_def)
qed

lemma file_get_flushed:
  assumes "file_holds lib s h" "fs_buffer (snd s) = []"
  shows "file_get_since lib s off = Ok (drop (unat off) h)"
proof -
  obtain d st where s: "s = (d, st)" by force
  obtain i where i: "dk_names d log_name = Some i" "dk_data d i = log_header @ log_bytes lib h"
    and h: "list_all (record_ok lib) h" "length h < 2 ^ 64" "fs_index st = []" "dk_open_ok d"
    using assms s by (auto simp: file_holds_def split: option.splits)
  have "read_loop lib off 0 (log_bytes lib h) [] = Ok (drop (unat off) h)"
    using read_loop_log [OF h(1), of 0 off "[]" "[]"] h(2) by simp
  then show ?thesis
    using s i h(3,4)
    by (simp add: file_get_since_def read_changes_since_def open_log_def start_position_def start_offset_def)
qed

lemma file_append_holds:
  assumes "file_holds lib s h" "record_ok lib c" "length h + 1 < 2 ^ 64"
  shows "fst (file_append lib s c) = Ok (of_nat (length h)) \<and> file_holds lib (snd (file_append lib s c)) (h @ [c])"
proof -
  obtain d st where s: "s = (d, st)" by force
  obtain i where i: "dk_names d log_name = Some i" "fs_file st = Some i"
    and h: "list_all (record_ok lib) h" "fs_buffer st = drop (length h - length (fs_buffer st)) h"
      "dk_data d i = log_header @ log_bytes lib (take (length h - length (fs_buffer st)) h)"
      "fs_tail st = of_nat (length h)"
    and rest: "dk_room d = None" "dk_sync_ok d" "dk_dir_ok d" "dk_open_ok d" "fs_index st = []"
      "length (fs_buffer st) < max 1 (fs_flush_threshold st)"
      "max 1 (fs_flush_threshold st) < fs_index_interval st"
    using assms s by (auto simp: file_holds_def split: option.splits)
  have le: "length (fs_buffer st) \<le> length h"
    using h(2) by (metis diff_diff_cancel diff_le_self length_drop linorder_le_cases)
  let ?st = "st\<lparr>fs_tail := fs_tail st + 1, fs_buffer := fs_buffer st @ [c]\<rparr>"
  have buf: "list_all (record_ok lib) (fs_buffer st @ [c])"
    using h(1,2) assms(2) by simp (metis in_set_dropD list_all_iff)
  have drop_snoc: "fs_buffer st @ [c] = drop (length h - length (fs_buffer st)) (h @ [c])"
    using h(2) le by simp
  show ?thesis
  proof (cases "fs_flush_threshold st \<le> length (fs_buffer st) + 1")
    case True
    have "file_flush lib (d, ?st) =
        (Ok (), disk_put i (dk_data d i @ log_bytes lib (fs_buffer ?st)) d, ?st\<lparr>fs_buffer := []\<rparr>)"
      using rest i buf by (intro file_flush_room) auto
    with True have "file_append lib s c = (Ok (of_nat (length h)),
        disk_put i (dk_data d i @ log_bytes lib (fs_buffer st @ [c])) d, ?st\<lparr>fs_buffer := []\<rparr>)"
      using s h(4) by (simp add: file_append_def Let_def)
    moreover have "dk_data d i @ log_bytes lib (fs_buffer st @ [c]) = log_header @ log_bytes lib (h @ [c])"
      using h(2,3) by simp (metis append_assoc append_take_drop_id log_bytes_simps(3))
    ultimately show ?thesis
      using i rest h(1,4) assms(2,3) by (simp add: file_holds_def)
  next
    case False
    then have "file_append lib s c = (Ok (of_nat (length h)), d, ?st)"
      using s h(4) by (simp add: file_append_def Let_def)
    moreover have "file_holds lib (d, ?st) (h @ [c])"
      using False i rest h(1,3,4) assms(2,3) drop_snoc le by (simp add: file_holds_def)
    ultimately show ?thesis by simp
  qed
qed

interpretation file_log: change_store "file_append lib" "file_get_since lib" file_tail_offset
  "file_flush lib" "file_holds lib" "record_ok lib" for lib
proof (unfold_locales, goal_cases)
  case (1 s h c)
  then show ?case by (rule file_append_holds)
next
  case (2 s h)
  then show ?case using file_flush_holds by blast
next
  case (3 s h)
  then show ?case by (auto simp: file_holds_def file_tail_offset_def split: option.splits)
next
  case (4 s h off)
  then show ?case using file_flush_holds file_get_flushed by blast
qed

definition memory_holds :: "change list \<Rightarrow> change list \<Rightarrow> bool" where
  "memory_holds s h \<longleftrightarrow> s = h \<and> length h < 2 ^ 64"

interpretation memory_log: change_store memory_append memory_get_since memory_tail_offset
  memory_flush memory_holds "\<lambda>c. True"
  by unfold_locales
     (simp_all add: memory_holds_def memory_append_def memory_get_since_def memory_tail_offset_def memory_flush_def)

fun store_holds :: "store_lib \<Rightarrow> any_store \<Rightarrow> change list \<Rightarrow> bool" where
  "store_holds lib (FileStore d st) h = file_holds lib (d, st) h"
| "store_holds lib (MemoryStore cs) h = memory_holds cs h"

interpretation any_log: change_store "store_append lib" "store_get_since lib" store_tail_offset
  "store_flush lib" "store_holds lib" "record_ok lib" for lib
proof (unfold_locales, goal_cases)
  case (1 s h c)
  then show ?case
    using file_log.append_holds [of lib _ h c] memory_log.append_holds [of _ h c]
    by (cases s) (simp_all add: split_beta)
next
  case (2 s h)
  then show ?case
    using file_log.flush_holds [of lib _ h] memory_log.flush_holds [of _ h]
    by (cases s) (simp_all add: split_beta)
next
  case (3 s h)
  then show ?case
    using file_log.tail_holds [of lib _ h] memory_log.tail_holds [of _ h] by (cases s) simp_all
next
  case (4 s h off)
  then show ?case
    using file_log.get_flushed [of lib _ h off] memory_log.get_flushed [of _ h off]
    by (cases s) (simp_all add: split_beta)
qed

subsection \<open>Opening a log\<close>

definition remove_temp :: "(string \<Rightarrow> bool) \<Rightarrow> string \<Rightarrow> disk \<Rightarrow> disk" where
  "remove_temp removable name d = (if removable name then disk_remove name d else d)"

lemma remove_temp_eq:
  "remove_temp removable name d =
     d\<lparr>dk_names := (\<lambda>n. if removable n \<and> n = name then None else dk_names d n)\<rparr>"
proof (cases "removable name")
  case True
  then have "(dk_names d)(name := None) = (\<lambda>n. if removable n \<and> n = name then None else dk_names d n)"
    by (auto simp: fun_eq_iff)
  with True show ?thesis by (simp add: remove_temp_def disk_remove_def)
next
  case False
  then have "(\<lambda>n. if removable n \<and> n = name then None else dk_names d n) = dk_names d"
    by (auto simp: fun_eq_iff)
  with False show ?thesis by (simp add: remove_temp_def)
qed

lemma remove_temp_if_present:
  "(if dk_names d name \<noteq> None then remove_temp removable name d else d) = remove_temp removable name d"
proof (cases "dk_names d name = None")
  case True
  then have "(\<lambda>n. if removable n \<and> n = name then None else dk_names d n) = dk_names d"
    by (auto simp: fun_eq_iff)
  with True show ?thesis by (simp add: remove_temp_eq)
qed simp

text \<open>What recovery does to the directory: nothing but removing names.\<close>

lemma recover_temp_files_eq:
  "recover_temp_files entries removable d =
     d\<lparr>dk_names := (\<lambda>name.
        if removable name \<and> (name = temp_name \<or> name \<in> set entries \<and> classify_temp name \<noteq> None)
        then None else dk_names d name)\<rparr>"
proof -
  let ?ts = "[(name, t). name \<leftarrow> entries, t \<leftarrow> (case classify_temp name of None \<Rightarrow> [] | Some t \<Rightarrow> [t])]"
  have "fold (\<lambda>(name, t) d. case t of TempFlush \<Rightarrow> remove_temp removable name d
                 | TempCompacting \<Rightarrow> remove_temp removable name d) ts d
      = d\<lparr>dk_names := (\<lambda>name. if removable name \<and> name \<in> fst ` set ts then None else dk_names d name)\<rparr>" for ts
  proof (induction ts arbitrary: d)
    case (Cons nt ts)
    obtain name t where nt: "nt = (name, t)" by force
    have "(\<lambda>n. if removable n \<and> n \<in> fst ` set ts then None
             else if removable n \<and> n = name then None else dk_names d n)
        = (\<lambda>n. if removable n \<and> n \<in> fst ` set (nt # ts) then None else dk_names d n)"
      by (auto simp: nt fun_eq_iff)
    then show ?case
      by (cases t) (simp_all add: nt Cons.IH remove_temp_eq cong: if_cong)
  qed simp
  moreover have "name \<in> fst ` set ?ts \<longleftrightarrow> name \<in> set entries \<and> classify_temp name \<noteq> None" for name
    by (cases "classify_temp name") (force split: option.splits)+
  ultimately have loop:
    "fold (\<lambda>(name, t) d. case t of TempFlush \<Rightarrow> remove_temp removable name d
        | TempCompacting \<Rightarrow> remove_temp removable name d) ?ts d
      = d\<lparr>dk_names := (\<lambda>name. if removable name \<and> name \<in> set entries \<and> classify_temp name \<noteq> None
                            then None else dk_names d name)\<rparr>"
    by (simp only:)
  have "(\<lambda>n. if removable n \<and> n = temp_name then None
           else if removable n \<and> n \<in> set entries \<and> classify_temp n \<noteq> None then None else dk_names d n)
      = (\<lambda>name. if removable name \<and> (name = temp_name \<or> name \<in> set entries \<and> classify_temp name \<noteq> None)
               then None else dk_names d name)"
    by (auto simp: fun_eq_iff)
  then show ?thesis
    unfolding recover_temp_files_def Let_def
    unfolding remove_temp_def [symmetric] loop temp_name_def [symmetric] remove_temp_if_present
    by (simp add: remove_temp_eq cong: if_cong)
qed

lemma classify_temp_log [simp]: "classify_temp log_name = None" "log_name \<noteq> temp_name"
  "compacted_name \<noteq> temp_name" "log_name \<noteq> compacted_name" "temp_name \<noteq> log_name"
  by (simp_all add: log_name_def temp_name_def compacted_name_def classify_temp_def path_split_def Let_def)

lemma recover_frame [simp]:
  "dk_names (recover_temp_files entries removable d) log_name = dk_names d log_name"
  "dk_data (recover_temp_files entries removable d) = dk_data d"
  "dk_room (recover_temp_files entries removable d) = dk_room d"
  "dk_sync_ok (recover_temp_files entries removable d) = dk_sync_ok d"
  "dk_open_ok (recover_temp_files entries removable d) = dk_open_ok d"
  "dk_dir_ok (recover_temp_files entries removable d) = dk_dir_ok d"
  by (simp_all add: recover_temp_files_eq)

text \<open>A disk that keeps what is written to it.\<close>

definition healthy :: "disk \<Rightarrow> bool" where
  "healthy d \<longleftrightarrow> dk_room d = None \<and> dk_sync_ok d \<and> dk_dir_ok d \<and> dk_open_ok d"

lemma file_store_new_fresh:
  assumes "healthy d" "dk_names d log_name = None" "flush_threshold < DEFAULT_INDEX_INTERVAL"
  shows "\<exists>st d'. file_store_new lib entries removable flush_threshold d = (Ok st, d')
           \<and> file_holds lib (d', st) []"
  using assms
  by (simp add: file_store_new_def healthy_def disk_open_append_def Let_def initialize_file_def
        HEADER_SIZE_def write_header_def disk_append_room file_holds_def DEFAULT_INDEX_INTERVAL_def
        take_Cons' less_max_iff_disj)

text \<open>The index of a log of small records, as the scan builds it.\<close>

definition record_small :: "store_lib \<Rightarrow> change \<Rightarrow> bool" where
  "record_small lib c \<longleftrightarrow> record_ok lib c \<and> length (payload lib c) \<le> 16 * 1024 * 1024"

fun index_of :: "store_lib \<Rightarrow> nat \<Rightarrow> nat \<Rightarrow> u64 \<Rightarrow> change list \<Rightarrow> index_entry list" where
  "index_of lib k pos off [] = []"
| "index_of lib k pos off (c # cs) =
     (if unat off mod k = 0
      then [\<lparr>ix_offset = off, ix_position = pos, ix_length = of_nat (length (payload lib c))\<rparr>] else [])
     @ index_of lib k (pos + 4 + length (payload lib c)) (off + 1) cs"

lemma build_index_loop_log:
  "list_all (record_small lib) cs \<Longrightarrow>
     build_index_loop k (pre @ log_bytes lib cs @ rest) (length pre) off =
       index_of lib k (length pre) off cs
       @ build_index_loop k (pre @ log_bytes lib cs @ rest) (length pre + length (log_bytes lib cs))
           (off + of_nat (length cs))"
proof (induction cs arbitrary: pre off)
  case Nil
  then show ?case by simp
next
  case (Cons c cs)
  let ?p = "put_record (payload lib c)"
  have c: "record_valid (payload lib c)" "length (payload lib c) \<le> 16 * 1024 * 1024"
    using Cons.prems by (auto simp: record_small_def record_okD)
  have "build_index_loop k (pre @ log_bytes lib (c # cs) @ rest) (length pre) off
      = (if unat off mod k = 0
         then [\<lparr>ix_offset = off, ix_position = length pre, ix_length = of_nat (length (payload lib c))\<rparr>] else [])
        @ build_index_loop k ((pre @ ?p) @ log_bytes lib cs @ rest) (length (pre @ ?p)) (off + 1)"
    using c by (subst build_index_loop.simps) (simp add: read_len_put length_prefix add.assoc)
  also have "build_index_loop k ((pre @ ?p) @ log_bytes lib cs @ rest) (length (pre @ ?p)) (off + 1)
      = index_of lib k (length (pre @ ?p)) (off + 1) cs
        @ build_index_loop k ((pre @ ?p) @ log_bytes lib cs @ rest)
            (length (pre @ ?p) + length (log_bytes lib cs)) (off + 1 + of_nat (length cs))"
    using Cons.prems by (intro Cons.IH) simp
  finally show ?case by (simp add: add_ac)
qed

lemma build_index_log:
  assumes "list_all (record_small lib) cs"
  shows "build_index k (log_header @ log_bytes lib cs) = index_of lib k HEADER_SIZE 0 cs"
  using build_index_loop_log [OF assms, of k log_header "[]" 0]
  by (simp add: build_index_def build_index_loop.simps [of _ _ "_ + _"])

lemma index_of_snoc:
  "index_of lib k pos off (cs @ [c]) = index_of lib k pos off cs
     @ (if unat (off + of_nat (length cs)) mod k = 0
        then [\<lparr>ix_offset = off + of_nat (length cs), ix_position = pos + length (log_bytes lib cs),
               ix_length = of_nat (length (payload lib c))\<rparr>] else [])"
  by (induction cs arbitrary: pos off) (simp_all add: add_ac)

lemma index_of_none:
  "0 < unat off \<Longrightarrow> unat off + length cs \<le> k \<Longrightarrow> k < 2 ^ 64 \<Longrightarrow> index_of lib k pos off cs = []"
proof (induction cs arbitrary: pos off)
  case Nil
  then show ?case by simp
next
  case (Cons c cs)
  then have "unat (off + 1) = unat off + 1"
    by (simp add: unat_word_ariths)
  with Cons show ?case by simp
qed

lemma index_of_one_block:
  assumes "cs \<noteq> []" "length cs \<le> k" "k < 2 ^ 64"
  shows "index_of lib k pos 0 cs
       = [\<lparr>ix_offset = 0, ix_position = pos, ix_length = of_nat (length (payload lib (hd cs)))\<rparr>]"
  using assms by (cases cs) (simp_all add: index_of_none)

lemma tail_of_index_of:
  assumes "0 < k" "length cs < 2 ^ 64"
  shows "tail_of_index (index_of lib k pos 0 cs)
       = (if cs = [] then 0 else of_nat ((length cs - 1) div k * k + 1))"
  using assms(2)
proof (induction cs rule: rev_induct)
  case Nil
  then show ?case by (simp add: tail_of_index_def)
next
  case (snoc c cs)
  have len: "unat (of_nat (length cs) :: u64) = length cs"
    by (rule unat_of_nat_u64) (use snoc.prems in simp)
  show ?case
  proof (cases "length cs mod k = 0")
    case True
    then have "length cs div k * k = length cs" by (metis add.right_neutral div_mult_mod_eq)
    with True show ?thesis by (simp add: index_of_snoc tail_of_index_def len)
  next
    case False
    then have ne: "cs \<noteq> []" by auto
    then obtain n where n: "length cs = Suc n" by (cases "length cs") auto
    with False have "(length cs - 1) div k = length cs div k"
      by (simp add: div_Suc)
    moreover have "index_of lib k pos 0 (cs @ [c]) = index_of lib k pos 0 cs"
      using False by (simp add: index_of_snoc len del: of_nat_Suc)
    ultimately show ?thesis using ne snoc by simp
  qed
qed

lemma header_checks:
  "length (log_header @ bs) \<ge> HEADER_SIZE" "take 4 (log_header @ bs) = LOG_MAGIC"
  "from_le_bytes (take 4 (drop 4 (log_header @ bs))) = LOG_VERSION"
proof -
  have "length LOG_MAGIC = 4" by (simp add: LOG_MAGIC_def)
  then show "take 4 (log_header @ bs) = LOG_MAGIC"
    "from_le_bytes (take 4 (drop 4 (log_header @ bs))) = LOG_VERSION"
    by (simp_all add: log_header_def)
qed simp

text \<open>Opening an existing log changes nothing but the temporary files.\<close>

lemma file_store_new_existing:
  assumes "dk_dir_ok d" "dk_open_ok d" "dk_names d log_name = Some i" "dk_data d i = log_header @ bs"
  shows "file_store_new lib entries removable t d
    = (Ok \<lparr>fs_tail = tail_of_index (build_index DEFAULT_INDEX_INTERVAL (log_header @ bs)),
           fs_file = Some i, fs_buffer = [], fs_flush_threshold = t,
           fs_index = build_index DEFAULT_INDEX_INTERVAL (log_header @ bs),
           fs_index_interval = DEFAULT_INDEX_INTERVAL\<rparr>,
       recover_temp_files entries removable d)"
  using assms header_checks [of bs]
  by (simp add: file_store_new_def disk_open_append_def initialize_file_def Let_def)

lemma get_since_read_loop:
  assumes "dk_names d log_name = Some i" "dk_open_ok d" "dk_data d i = log_header @ bs"
    and "start_position (fs_index st) off = HEADER_SIZE"
  shows "file_get_since lib (d, st) off = read_loop lib off (start_offset (fs_index st) HEADER_SIZE) bs []"
  using assms by (simp add: file_get_since_def read_changes_since_def open_log_def)

lemma start_zero [simp]: "start_position index 0 = HEADER_SIZE"
  by (simp add: start_position_def)

text \<open>The index of a log of one block: reading always starts at the first record.\<close>

lemma start_one_block:
  assumes "index = [\<lparr>ix_offset = 0, ix_position = HEADER_SIZE, ix_length = l\<rparr>]"
  shows "start_position index off = HEADER_SIZE" "start_offset index HEADER_SIZE = 1"
  using assms by (simp_all add: start_position_def start_offset_def word_gt_0)

lemma read_loop_whole:
  assumes "list_all (record_ok lib) cs" "unat cur + length cs < 2 ^ 64"
  shows "read_loop lib off cur (log_bytes lib cs) [] = Ok (drop (unat off - unat cur) cs)"
  using read_loop_log [OF assms, of off "[]" "[]"] by simp

lemma small_ok: "list_all (record_small lib) cs \<Longrightarrow> list_all (record_ok lib) cs"
  by (auto simp: list_all_iff record_small_def)

text \<open>A flushed fresh store is a disk with the log.\<close>

lemma file_close_holds:
  assumes "file_holds lib (d, st) h" "file_close lib (d, st) = (r, d', st')"
  shows "r = Ok () \<and> (\<exists>i. dk_names d' log_name = Some i \<and> dk_data d' i = log_header @ log_bytes lib h)
         \<and> dk_dir_ok d' \<and> dk_open_ok d'"
proof -
  obtain r1 d1 st1 where fl: "file_flush lib (d, st) = (r1, d1, st1)" by (metis prod_cases3)
  then have "r1 = Ok ()" "file_holds lib (d1, st1) h" "fs_buffer st1 = []"
    using file_flush_holds [OF assms(1)] by simp_all
  moreover have "r = r1" "d' = d1"
    using assms(2) fl \<open>r1 = Ok ()\<close> by (simp_all add: file_close_def)
  ultimately show ?thesis
    by (auto simp: file_holds_def split: option.splits)
qed

text \<open>Positions in the index ascend, so only the first record lies at the header's end.\<close>

lemma index_of_positions: "e \<in> set (index_of lib k pos off cs) \<Longrightarrow> pos \<le> ix_position e"
  by (induction cs arbitrary: pos off) (force split: if_splits)+

lemma start_offset_index_of:
  "0 < k \<Longrightarrow> start_offset (index_of lib k pos 0 cs) pos = (if cs = [] then 0 else 1)"
proof (cases cs)
  case (Cons c cs')
  have "filter (\<lambda>e. ix_position e \<le> pos) (index_of lib k (pos + 4 + length (payload lib c)) 1 cs') = []"
    by (auto simp: filter_empty_conv dest: index_of_positions)
  with Cons show ?thesis by (simp add: start_offset_def)
qed (simp add: start_offset_def)

text \<open>Opening a directory with a log of small records reads it back.\<close>

lemma log_reopened:
  assumes "dk_dir_ok d" "dk_open_ok d" "dk_names d log_name = Some i" "dk_data d i = log_header @ log_bytes lib cs"
    and "list_all (record_small lib) cs" "length cs + 1 < 2 ^ 64"
  shows "\<exists>st d'. file_store_new lib entries removable threshold d = (Ok st, d') \<and> fs_buffer st = []
     \<and> file_get_since lib (d', st) 0 = Ok cs"
proof -
  let ?index = "build_index DEFAULT_INDEX_INTERVAL (log_header @ log_bytes lib cs)"
  have "start_offset ?index HEADER_SIZE = (if cs = [] then 0 else 1)"
    unfolding build_index_log [OF assms(5)] by (rule start_offset_index_of) (simp add: DEFAULT_INDEX_INTERVAL_def)
  then have "unat (start_offset ?index HEADER_SIZE) + length cs < 2 ^ 64"
    using assms(6) by simp
  from read_loop_whole [OF small_ok [OF assms(5)] this, of 0]
  have "read_loop lib 0 (start_offset ?index HEADER_SIZE) (log_bytes lib cs) [] = Ok cs" by simp
  then show ?thesis
    using assms(1-4) file_store_new_existing [OF assms(1-4), of lib entries removable threshold]
    by (simp add: get_since_read_loop)
qed

subsection \<open>Properties\<close>

text \<open>
  C1. The contract of a change store, for both stores a manager starts with when they are fresh (a
  log file in a directory without one, on a disk with room, and memory), and for fewer than
  \<open>2 ^ 64\<close> changes that bincode reads back and that fit a record: appending
  \<open>cs\<close> returns the offsets 0, 1, 2 and so on, the tail is then their number,
  \<open>flush\<close> succeeds, and \<open>get_since off\<close> returns exactly the changes from
  \<open>off\<close> on, in order, whatever was flushed on the way. (A log that is opened again
  does not number on like this.)
\<close>

theorem store_contract:
  assumes "healthy d" "dk_names d log_name = None"
    and "list_all (record_ok lib) cs" "length cs < 2 ^ 64"
  shows "\<exists>g. store_manager_file_based lib entries removable d = Ok g
    \<and> (\<forall>s \<in> {mg_store g, mg_store store_manager_in_memory}.
         let (rs, s') = append_each (store_append lib) s cs
         in rs = map (\<lambda>i. Ok (of_nat i)) [0 ..< length cs]
            \<and> store_tail_offset s' = of_nat (length cs) \<and> fst (store_flush lib s') = Ok ()
            \<and> store_get_since lib (snd (store_flush lib s')) off = Ok (drop (unat off) cs))"
proof -
  obtain st d' where new: "file_store_new lib entries removable DEFAULT_FLUSH_THRESHOLD d = (Ok st, d')"
    and h: "file_holds lib (d', st) []"
    using file_store_new_fresh [OF assms(1,2), of DEFAULT_FLUSH_THRESHOLD]
    unfolding DEFAULT_FLUSH_THRESHOLD_def DEFAULT_INDEX_INTERVAL_def by fastforce
  have hold: "store_holds lib s []" if "s \<in> {FileStore d' st, MemoryStore []}" for s
    using that h by (auto simp: memory_holds_def)
  have "let (rs, s') = append_each (store_append lib) s cs
        in rs = map (\<lambda>i. Ok (of_nat i)) [0 ..< length cs]
           \<and> store_tail_offset s' = of_nat (length cs) \<and> fst (store_flush lib s') = Ok ()
           \<and> store_get_since lib (snd (store_flush lib s')) off = Ok (drop (unat off) cs)"
    if "s \<in> {FileStore d' st, MemoryStore []}" for s
    using any_log.read_back [OF hold [OF that] assms(3)] assms(4) by simp
  then show ?thesis
    using new by (simp add: store_manager_file_based_def store_manager_new_def store_manager_in_memory_def)
qed

text \<open>A library that stores the one change \<open>change_query 1 0\<close> as one byte, and an empty directory.\<close>

definition one_change :: change where
  "one_change = change_query 1 0 ''ns'' ''db'' None"

definition one_lib :: store_lib where
  "one_lib = \<lparr>sl_serialize = (\<lambda>c. Inr [1]), sl_deserialize = (\<lambda>bs. Inr one_change), sl_io_text = (\<lambda>e. ''io'')\<rparr>"

definition empty_disk :: disk where
  "empty_disk = \<lparr>dk_names = Map.empty, dk_data = (\<lambda>i. []), dk_next = 0, dk_room = None,
     dk_sync_ok = True, dk_dir_ok = True, dk_open_ok = True\<rparr>"

definition log_disk :: "bytes \<Rightarrow> disk" where
  "log_disk bs = empty_disk\<lparr>dk_names := [log_name \<mapsto> 0], dk_data := (\<lambda>i. bs), dk_next := 1\<rparr>"

lemma one_lib_ok [simp]: "record_ok one_lib one_change" "record_small one_lib one_change"
  "payload one_lib one_change = [1]"
  by (simp_all add: record_ok_def record_small_def one_lib_def record_valid_def payload_def)

lemma healthy_examples [simp]: "healthy empty_disk" "healthy (log_disk bs)"
  "dk_names empty_disk log_name = None" "dk_names (log_disk bs) log_name = Some 0"
  "dk_data (log_disk bs) 0 = bs"
  by (simp_all add: healthy_def empty_disk_def log_disk_def)

theorem store_contract_witness:
  "\<exists>g. store_manager_file_based one_lib [] (\<lambda>n. True) empty_disk = Ok g
     \<and> fst (store_append one_lib (mg_store g) one_change) = Ok 0
     \<and> store_get_since one_lib (snd (store_flush one_lib
         (snd (store_append one_lib (mg_store g) one_change)))) 0 = Ok [one_change]"
proof -
  have "list_all (record_ok one_lib) [one_change]" "length [one_change] < 2 ^ 64" by simp_all
  from store_contract [OF healthy_examples(1,3) this, of "[]" "\<lambda>n. True" 0]
  show ?thesis by (auto simp: Let_def split: prod.splits)
qed

text \<open>
  C2. Changes survive a restart, on a disk with room and for changes that bincode writes in at
  most 16 MiB and reads back: after appending \<open>cs\<close> (fewer than \<open>2 ^ 64 -
  1\<close>) to a fresh log file with a flush threshold below the index interval of 1000, and
  closing it, opening the directory again succeeds, whatever temporary files lie around, and
  \<open>get_since 0\<close> returns exactly \<open>cs\<close>.
\<close>

theorem log_survives_restart:
  assumes "healthy d" "dk_names d log_name = None" "threshold < DEFAULT_INDEX_INTERVAL"
    and "list_all (record_small lib) cs" "length cs + 1 < 2 ^ 64"
  shows "\<exists>st d1 d2 st2 d3 st3.
     file_store_new lib entries removable threshold d = (Ok st, d1)
     \<and> file_close lib (foldl (\<lambda>s c. snd (file_append lib s c)) (d1, st) cs) = (Ok (), d2, st2)
     \<and> file_store_new lib entries' removable' threshold' d2 = (Ok st3, d3)
     \<and> file_get_since lib (d3, st3) 0 = Ok cs"
proof -
  obtain st d1 where new: "file_store_new lib entries removable threshold d = (Ok st, d1)"
    and h: "file_holds lib (d1, st) []"
    using file_store_new_fresh [OF assms(1-3)] by blast
  obtain da sa where s: "foldl (\<lambda>s c. snd (file_append lib s c)) (d1, st) cs = (da, sa)" by force
  have holds: "file_holds lib (da, sa) cs"
    using file_log.appends_hold [OF h small_ok [OF assms(4)]] assms(5) s by simp
  obtain r d2 st2 where close: "file_close lib (da, sa) = (r, d2, st2)" by (metis prod_cases3)
  from file_close_holds [OF holds this] obtain i where
    i: "r = Ok ()" "dk_names d2 log_name = Some i" "dk_data d2 i = log_header @ log_bytes lib cs"
      "dk_dir_ok d2" "dk_open_ok d2"
    by blast
  from log_reopened [OF i(4,5,2,3) assms(4,5)] obtain st3 d3 where
    "file_store_new lib entries' removable' threshold' d2 = (Ok st3, d3)" "file_get_since lib (d3, st3) 0 = Ok cs"
    by blast
  with new s close i(1) show ?thesis by auto
qed

theorem log_survives_restart_witness:
  "\<exists>st d1 d2 st2 d3 st3.
     file_store_new one_lib [] (\<lambda>n. True) 10 empty_disk = (Ok st, d1)
     \<and> file_close one_lib (foldl (\<lambda>s c. snd (file_append one_lib s c)) (d1, st) [one_change, one_change])
         = (Ok (), d2, st2)
     \<and> file_store_new one_lib [temp_name] (\<lambda>n. True) 10 d2 = (Ok st3, d3)
     \<and> file_get_since one_lib (d3, st3) 0 = Ok [one_change, one_change]"
  by (rule log_survives_restart) (simp_all add: DEFAULT_INDEX_INTERVAL_def)

text \<open>
  C38. The offsets do not survive a restart: on a disk with room, for changes that bincode writes in at
  most 16 MiB and reads back, on a log of \<open>n\<close> changes the reopened tail is
  \<open>(n - 1) div 1000 * 1000 + 1\<close> (1 for every \<open>n\<close> from 1 to 1000), not
  \<open>n\<close>, and on a log of at most 1000 changes \<open>get_since off\<close> with
  \<open>off > 0\<close> starts one change too early.
\<close>

theorem reopened_offsets_wrong:
  assumes "healthy d" "dk_names d log_name = Some i" "dk_data d i = log_header @ log_bytes lib cs"
    and "list_all (record_small lib) cs" "cs \<noteq> []" "length cs + 1 < 2 ^ 64"
  shows "\<exists>st d'. file_store_new lib entries removable threshold d = (Ok st, d')
    \<and> file_tail_offset (d', st) = of_nat ((length cs - 1) div 1000 * 1000 + 1)
    \<and> (length cs \<le> 1000 \<and> 0 < off \<longrightarrow> file_get_since lib (d', st) off = Ok (drop (unat off - 1) cs))"
proof -
  let ?index = "build_index DEFAULT_INDEX_INTERVAL (log_header @ log_bytes lib cs)"
  have "tail_of_index ?index = of_nat ((length cs - 1) div 1000 * 1000 + 1)"
    unfolding build_index_log [OF assms(4)]
    using tail_of_index_of [of DEFAULT_INDEX_INTERVAL cs lib HEADER_SIZE] assms(5,6)
    by (simp add: DEFAULT_INDEX_INTERVAL_def)
  moreover have "start_position ?index off = HEADER_SIZE \<and> start_offset ?index HEADER_SIZE = 1"
    if "length cs \<le> 1000"
    using start_one_block [OF index_of_one_block [of cs DEFAULT_INDEX_INTERVAL]] assms(5) that
    unfolding build_index_log [OF assms(4)] by (simp add: DEFAULT_INDEX_INTERVAL_def)
  moreover have "read_loop lib off 1 (log_bytes lib cs) [] = Ok (drop (unat off - 1) cs)"
    using read_loop_whole [OF small_ok [OF assms(4)], of 1 off] assms(6) by simp
  ultimately show ?thesis
    using assms(1-3) file_store_new_existing [of d i "log_bytes lib cs" lib entries removable threshold]
    by (simp add: healthy_def get_since_read_loop file_tail_offset_def)
qed

theorem reopened_offsets_wrong_witness:
  "\<exists>st d'. file_store_new one_lib [] (\<lambda>n. True) 10 (log_disk (log_header @ log_bytes one_lib [one_change, one_change]))
       = (Ok st, d')
     \<and> file_tail_offset (d', st) = 1 \<and> file_get_since one_lib (d', st) 2 = Ok [one_change]"
  using reopened_offsets_wrong [of "log_disk (log_header @ log_bytes one_lib [one_change, one_change])" 0
      one_lib "[one_change, one_change]" "[]" "\<lambda>n. True" 10 2]
  by auto

text \<open>
  One torn record makes the whole log unreadable: when the file ends in the middle of a
  record (a write cut short), the store still opens, but \<open>get_since\<close> fails for every offset,
  also for the intact changes before it.
\<close>

theorem torn_record_blocks_log:
  assumes "healthy d" "dk_names d log_name = Some i" "dk_data d i = log_header @ log_bytes lib cs @ torn"
    and "list_all (record_small lib) cs" "cs \<noteq> []" "length cs < 1000" "next_record torn = TornRecord"
  shows "\<exists>st d'. file_store_new lib entries removable threshold d = (Ok st, d')
    \<and> file_get_since lib (d', st) off = Err (Other (''read error: '' @ sl_io_text lib UnexpectedEof))"
proof -
  let ?data = "log_header @ log_bytes lib cs @ torn"
  have ok: "list_all (record_ok lib) cs" by (rule small_ok [OF assms(4)])
  have len: "unat (of_nat (length cs) :: u64) = length cs"
    by (rule unat_of_nat_u64) (use assms(6) in simp)
  have no_more: "build_index_loop 1000 data pos (of_nat (length cs)) = []"
    if "drop pos data = torn" for data pos
  proof -
    obtain l rest where l: "read_len torn = Some (l, rest)" "read_exact (unat l) rest = None"
      using assms(7) by (auto simp: next_record_def split: option.splits if_splits)
    then have short: "length rest < unat l" by (auto simp: read_exact_def split: if_splits)
    have "rest = drop 4 torn" using l(1) by (auto simp: read_len_def read_exact_def split: if_splits)
    then have "drop (pos + 4 + unat l) data = []"
      using short that by (metis add.commute add.left_commute drop_all drop_drop less_or_eq_imp_le)
    then have "build_index_loop 1000 data (pos + 4 + unat l) o' = []" for o'
      by (simp add: build_index_loop.simps)
    then show ?thesis
      using that l(1) len assms(5,6) by (subst build_index_loop.simps) simp
  qed
  have "build_index 1000 ?data = index_of lib 1000 HEADER_SIZE 0 cs"
    using build_index_loop_log [OF assms(4), of 1000 log_header torn 0] no_more
    by (simp add: build_index_def)
  then have index: "build_index DEFAULT_INDEX_INTERVAL ?data = [\<lparr>ix_offset = 0, ix_position = HEADER_SIZE,
      ix_length = of_nat (length (payload lib (hd cs)))\<rparr>]"
    using index_of_one_block [of cs 1000] assms(5,6) by (simp add: DEFAULT_INDEX_INTERVAL_def)
  have "read_loop lib off 1 (log_bytes lib cs @ torn) []
      = Err (Other (''read error: '' @ sl_io_text lib UnexpectedEof))"
    using assms(6,7) by (subst read_loop_log [OF ok]) (simp_all add: read_loop.simps [of _ _ _ torn])
  then show ?thesis
    using assms(1-3) file_store_new_existing [of d i "log_bytes lib cs @ torn" lib entries removable threshold]
      start_one_block [OF index]
    by (simp add: healthy_def get_since_read_loop)
qed

theorem torn_record_blocks_log_witness:
  "\<exists>st d'. file_store_new one_lib [] (\<lambda>n. True) 10
       (log_disk (log_header @ log_bytes one_lib [one_change] @ to_le_bytes 2 @ [7])) = (Ok st, d')
     \<and> file_get_since one_lib (d', st) 0 = Err (Other (''read error: '' @ ''io''))"
proof -
  have "next_record (to_le_bytes 2 @ [7]) = TornRecord"
    by (simp add: next_record_def read_len_def read_exact_short)
  then show ?thesis
    using torn_record_blocks_log [of "log_disk (log_header @ log_bytes one_lib [one_change] @ to_le_bytes 2 @ [7])"
        0 one_lib "[one_change]" "to_le_bytes 2 @ [7]" "[]" "\<lambda>n. True" 10 0]
    by (simp add: one_lib_def [THEN arg_cong, of sl_io_text])
qed

lemma magic_length: "unat (from_le_bytes LOG_MAGIC) = 0x4C434453"
  by (simp add: LOG_MAGIC_def as_bytes_def)

lemma compact_read_header:
  assumes "length (log_header @ bs) \<le> 0x4C434453"
  shows "compact_read (log_header @ bs) = None"
proof -
  have "length LOG_MAGIC = 4" by (simp add: LOG_MAGIC_def)
  then have "read_exact 4 (log_header @ bs) = Some (LOG_MAGIC, to_le_bytes LOG_VERSION @ replicate 8 0 @ bs)"
    by (simp add: log_header_def)
  moreover have "read_exact 0x4C434453 (to_le_bytes LOG_VERSION @ replicate 8 0 @ bs) = None"
    by (rule read_exact_short) (use assms in \<open>simp add: HEADER_SIZE_def\<close>)
  ultimately show ?thesis by (simp add: compact_read_def magic_length)
qed

text \<open>A store whose handle is not the file the log's name leads to.\<close>

definition orphaned :: "nat \<Rightarrow> disk \<times> file_store \<Rightarrow> bool" where
  "orphaned t s \<longleftrightarrow> dk_names (fst s) log_name = Some t \<and> dk_data (fst s) t = log_header
     \<and> dk_open_ok (fst s) \<and> fs_file (snd s) \<noteq> Some t"

text \<open>Writing to another file changes neither the directory nor this file.\<close>

definition same_at :: "nat \<Rightarrow> disk \<Rightarrow> disk \<Rightarrow> bool" where
  "same_at j d d' \<longleftrightarrow> dk_names d' = dk_names d \<and> dk_open_ok d' = dk_open_ok d \<and> dk_data d' j = dk_data d j"

lemma same_at_trans: "same_at j d d1 \<Longrightarrow> same_at j d1 d2 \<Longrightarrow> same_at j d d2"
  by (simp add: same_at_def)

lemma disk_append_same: "disk_append i bs d = (r, d') \<Longrightarrow> i \<noteq> j \<Longrightarrow> same_at j d d'"
  by (auto simp: disk_append_def same_at_def split: option.splits)

lemma write_records_same: "write_records lib i cs d = (r, d') \<Longrightarrow> i \<noteq> j \<Longrightarrow> same_at j d d'"
proof (induction cs arbitrary: d)
  case Nil
  then show ?case by (simp add: same_at_def)
next
  case (Cons c cs)
  show ?case
  proof (cases "sl_serialize lib c")
    case (Inl e)
    with Cons.prems show ?thesis by (simp add: same_at_def)
  next
    case (Inr bs)
    obtain r1 d1 where a1: "disk_append i (to_le_bytes (of_nat (length bs))) d = (r1, d1)" by force
    obtain r2 d2 where a2: "disk_append i bs d1 = (r2, d2)" by force
    have "same_at j d d1" "same_at j d1 d2"
      using a1 a2 disk_append_same Cons.prems(2) by blast+
    moreover from this have "same_at j d d2" by (rule same_at_trans)
    moreover have "same_at j d2 d'" if "write_records lib i cs d2 = (r, d')"
      using that Cons.prems(2) by (rule Cons.IH)
    ultimately show ?thesis
      using Cons.prems(1) Inr a1 a2
      by (auto split: outcome.splits intro: same_at_trans)
  qed
qed

lemma orphaned_flush: "orphaned t s \<Longrightarrow> orphaned t (snd (file_flush lib s))"
proof -
  assume o: "orphaned t s"
  obtain d st where s: "s = (d, st)" by force
  show ?thesis
  proof (cases "fs_file st")
    case None
    with o show ?thesis by (simp add: s file_flush_def Let_def orphaned_def)
  next
    case (Some i)
    obtain r d1 where w: "write_records lib i (fs_buffer st) d = (r, d1)" by force
    then show ?thesis
      using write_records_same [OF w, of t] o Some
      by (cases r) (auto simp: s file_flush_def Let_def orphaned_def same_at_def)
  qed
qed

lemma orphaned_append: "orphaned t s \<Longrightarrow> orphaned t (snd (file_append lib s c))"
proof -
  assume o: "orphaned t s"
  obtain d st where s: "s = (d, st)" by force
  let ?s = "(d, st\<lparr>fs_tail := fs_tail st + 1, fs_buffer := fs_buffer st @ [c]\<rparr>)"
  have "orphaned t ?s" using o by (simp add: s orphaned_def)
  moreover from orphaned_flush [OF this] have "orphaned t (snd (file_flush lib ?s))" .
  ultimately show ?thesis by (simp add: s file_append_def Let_def split_beta)
qed

lemma orphaned_appends: "orphaned t s \<Longrightarrow> orphaned t (foldl (\<lambda>s c. snd (file_append lib s c)) s cs)"
  by (induction cs arbitrary: s) (simp_all add: orphaned_append)

lemma orphaned_get: "orphaned t s \<Longrightarrow> file_get_since lib s 0 = Ok []"
  by (cases s) (simp add: orphaned_def get_since_read_loop [where bs = "[]"])

definition no_faults :: compact_io where
  "no_faults = \<lparr>ci_create = None, ci_create_header = None, ci_header = None, ci_read = (\<lambda>n. None),
     ci_write = (\<lambda>n. None), ci_progress = (\<lambda>n. None), ci_flush = None, ci_sync = None,
     ci_rename = None, ci_replace = None, ci_leftover = []\<rparr>"

text \<open>
  C37. Compaction loses the log: it reads records from the start of the file, takes the magic
  bytes for the length of a record of more than a gigabyte, and stops. For every log shorter
  than that, in an open store on which no input or output fails (and whose temporary name is not
  another name of the log), \<open>compact\<close> succeeds with 0, replaces the file by a bare header and resets the
  tail, whatever offset it was to keep; and since the store keeps appending to the replaced
  file, nothing appended and flushed later can be read either.
\<close>


theorem compact_loses_log:
  assumes "dk_open_ok d" "dk_names d log_name = Some i" "fs_file st = Some i"
    and "dk_names d temp_name \<noteq> Some i" "i \<noteq> dk_next d"
    and "dk_data d i = log_header @ bs" "length (log_header @ bs) \<le> 0x4C434453"
  shows "let (r, s') = compact lib no_faults (d, st) keep_from;
             s'' = snd (file_flush lib (foldl (\<lambda>s c. snd (file_append lib s c)) s' ds))
         in r = Ok 0 \<and> file_tail_offset s' = 0
            \<and> file_get_since lib s' 0 = Ok [] \<and> file_get_since lib s'' 0 = Ok []"
proof -
  obtain t d1 where t: "disk_create temp_name d = (t, d1)" by force
  have ti: "t \<noteq> i" and d1: "dk_open_ok d1" "dk_names d1 temp_name = Some t"
    using t assms(1,4,5)
    by (auto simp: disk_create_def disk_open_append_def Let_def split: option.splits)
  have "compact_loop no_faults keep_from 0 0 [] (log_header @ bs) = CompactDone 0 []"
    using compact_read_header [OF assms(7)] by (simp add: compact_loop.simps no_faults_def)
  then have c: "compact lib no_faults (d, st) keep_from
      = (Ok 0, disk_rename compacted_name log_name (disk_rename temp_name compacted_name (disk_put t log_header d1)),
         st\<lparr>fs_index := [], fs_tail := 0\<rparr>)"
    using t assms(1,2,6)
    by (simp add: compact_def open_log_def try_io_def no_faults_def compact_temp_def compact_finish_def
          overwrite_def Let_def)
  have "orphaned t (snd (compact lib no_faults (d, st) keep_from))"
    using ti d1 assms(3) by (simp add: c orphaned_def disk_rename_def disk_put_def)
  then show ?thesis
    using c orphaned_get [of t _ lib] orphaned_appends [of t _ lib ds] orphaned_flush [of t _ lib]
    by (simp add: file_tail_offset_def)
qed

theorem compact_loses_log_witness:
  "let d = log_disk (log_header @ log_bytes one_lib [one_change]);
       st = \<lparr>fs_tail = 1, fs_file = Some 0, fs_buffer = [], fs_flush_threshold = 10, fs_index = [],
             fs_index_interval = 1000\<rparr>
   in file_get_since one_lib (d, st) 0 = Ok [one_change]
      \<and> fst (compact one_lib no_faults (d, st) 0) = Ok 0
      \<and> file_get_since one_lib (snd (compact one_lib no_faults (d, st) 0)) 0 = Ok []"
proof -
  let ?d = "log_disk (log_header @ log_bytes one_lib [one_change])"
  let ?st = "\<lparr>fs_tail = 1, fs_file = Some 0, fs_buffer = [], fs_flush_threshold = 10, fs_index = [],
             fs_index_interval = 1000\<rparr>"
  have "read_loop one_lib 0 0 (log_bytes one_lib [one_change]) [] = Ok [one_change]"
    by (subst read_loop_whole) simp_all
  then have "file_get_since one_lib (?d, ?st) 0 = Ok [one_change]"
    by (subst get_since_read_loop [where i = 0 and bs = "log_bytes one_lib [one_change]"])
       (simp_all add: log_disk_def empty_disk_def start_offset_def)
  moreover have "let (r, s') = compact one_lib no_faults (?d, ?st) 0;
         s'' = snd (file_flush one_lib (foldl (\<lambda>s c. snd (file_append one_lib s c)) s' []))
     in r = Ok 0 \<and> file_tail_offset s' = 0
        \<and> file_get_since one_lib s' 0 = Ok [] \<and> file_get_since one_lib s'' 0 = Ok []"
    by (rule compact_loses_log [where i = 0 and bs = "log_bytes one_lib [one_change]"])
       (simp_all add: log_disk_def empty_disk_def HEADER_SIZE_def log_name_def temp_name_def)
  ultimately show ?thesis by (simp add: split_beta Let_def)
qed

text \<open>
  A flush gives up the buffer before it writes: afterwards the buffer is empty whether or not the
  changes reached the disk, and on a closed store \<open>flush\<close> answers \<open>Ok\<close>
  and writes nothing, so the buffered changes, whose \<open>append\<close> was answered
  \<open>Ok\<close>, are gone.
\<close>

theorem flush_discards_buffer:
  "fs_buffer (snd (snd (file_flush lib (d, st)))) = []
   \<and> fs_tail (snd (snd (file_flush lib (d, st)))) = fs_tail st
   \<and> file_flush lib (d, st\<lparr>fs_file := None\<rparr>) = (Ok (), d, st\<lparr>fs_file := None, fs_buffer := []\<rparr>)
   \<and> (let s = snd (file_append lib (d, st\<lparr>fs_file := None\<rparr>) c)
      in fst (file_append lib (d, st\<lparr>fs_file := None\<rparr>) c) = Ok (fs_tail st)
         \<and> fst (snd (file_close lib s)) = d)"
  by (cases "fs_file st"; cases "write_records lib (the (fs_file st)) (fs_buffer st) d";
      cases "fst (write_records lib (the (fs_file st)) (fs_buffer st) d)")
     (auto simp: file_flush_def file_append_def file_close_def Let_def)

lemma next_record_header:
  assumes "length (log_header @ bs) \<le> 0x4C434453"
  shows "next_record (log_header @ bs) = TornRecord"
proof -
  have "length LOG_MAGIC = 4" by (simp add: LOG_MAGIC_def)
  then have "read_len (log_header @ bs) = Some (from_le_bytes LOG_MAGIC, to_le_bytes LOG_VERSION @ replicate 8 0 @ bs)"
    by (simp add: read_len_def log_header_def)
  moreover have "read_exact 0x4C434453 (to_le_bytes LOG_VERSION @ replicate 8 0 @ bs) = None"
    by (rule read_exact_short) (use assms in \<open>simp add: HEADER_SIZE_def\<close>)
  moreover have "from_le_bytes LOG_MAGIC \<noteq> 0"
    using magic_length by (metis unat_0 zero_neq_numeral)
  ultimately show ?thesis by (simp add: next_record_def magic_length)
qed

lemma start_position_zero:
  assumes "\<forall>e \<in> set index. ix_position e = 0" "index \<noteq> []" "ix_offset (hd index) = 0" "0 < off"
  shows "start_position index off = 0"
proof (cases "find (\<lambda>e. ix_offset e = off) index")
  case None
  let ?w = "takeWhile (\<lambda>e. ix_offset e < off) index"
  have ne: "?w \<noteq> []" using assms by (cases index) auto
  have "length ?w - 1 < length index"
    using ne length_takeWhile_le [of "\<lambda>e. ix_offset e < off" index] assms(2)
    by (meson diff_less le_less_trans length_greater_0_conv less_imp_diff_less less_one order_less_le_trans)
  then have "ix_position (index ! (length ?w - 1)) = 0" using assms(1) by simp
  moreover have "off \<noteq> 0" using assms(4) by auto
  ultimately show ?thesis using None ne by (simp add: start_position_def Let_def)
next
  case (Some e)
  then have "e \<in> set index" by (auto simp: find_Some_iff)
  moreover have "off \<noteq> 0" using assms(4) by auto
  ultimately show ?thesis using Some assms(1) by (simp add: start_position_def)
qed

text \<open>
  A flush of 1000 changes or more breaks the index: it adds entries with position 0, and every
  later \<open>get_since off\<close> with \<open>off > 0\<close> then reads the header as a record
  and fails (for a log below the length the magic bytes stand for), although the flush succeeded
  and the file is a well-formed log of exactly those changes.
\<close>

theorem large_flush_breaks_reads:
  assumes "healthy d" "dk_names d log_name = Some i" "fs_file st = Some i" "dk_data d i = log_header"
    and "list_all (record_ok lib) (fs_buffer st)" "fs_tail st = of_nat (length (fs_buffer st))"
    and "fs_index st = []" "fs_index_interval st = 1000" "1000 \<le> length (fs_buffer st)"
    and "length (log_header @ log_bytes lib (fs_buffer st)) \<le> 0x4C434453" "0 < off"
  shows "let (r, s) = file_flush lib (d, st)
         in r = Ok () \<and> dk_data (fst s) i = log_header @ log_bytes lib (fs_buffer st)
            \<and> file_get_since lib s off = Err (Other (''read error: '' @ sl_io_text lib UnexpectedEof))"
proof -
  let ?n = "length (fs_buffer st)" and ?data = "log_header @ log_bytes lib (fs_buffer st)"
  let ?index = "flushed_entries 1000 (of_nat ?n) ?n"
  let ?d = "disk_put i ?data d" and ?st = "st\<lparr>fs_buffer := [], fs_index := ?index\<rparr>"
  have "fs_buffer st \<noteq> []" using assms(9) by auto
  then have fl: "file_flush lib (d, st) = (Ok (), ?d, ?st)"
    using assms(1,3-9) by (simp add: file_flush_def Let_def write_records_room healthy_def)
  have "0 < (?n + 1000 - 1) div 1000" using assms(9) by (simp add: div_greater_zero_iff)
  then have "?index \<noteq> []" "ix_offset (hd ?index) = 0" "\<forall>e \<in> set ?index. ix_position e = 0"
    by (auto simp: flushed_entries_def Let_def saturating_sub_def hd_map upt_conv_Cons)
  then have "start_position ?index off = 0"
    using assms(11) by (intro start_position_zero)
  then have "file_get_since lib (?d, ?st) off = Err (Other (''read error: '' @ sl_io_text lib UnexpectedEof))"
    using assms(1,2) next_record_header [OF assms(10)]
    by (simp add: file_get_since_def read_changes_since_def open_log_def healthy_def read_loop.simps [of _ _ _ ?data])
  then show ?thesis using fl by simp
qed

theorem large_flush_breaks_reads_witness:
  "let st = \<lparr>fs_tail = of_nat 1000, fs_file = Some 0, fs_buffer = replicate 1000 one_change,
             fs_flush_threshold = 5000, fs_index = [], fs_index_interval = 1000\<rparr>;
       (r, s) = file_flush one_lib (log_disk log_header, st)
   in r = Ok () \<and> file_get_since one_lib s 1 = Err (Other (''read error: '' @ ''io''))"
proof -
  let ?st = "\<lparr>fs_tail = of_nat 1000, fs_file = Some 0, fs_buffer = replicate 1000 one_change,
             fs_flush_threshold = 5000, fs_index = [], fs_index_interval = 1000\<rparr>"
  have "length (log_bytes one_lib (replicate n one_change)) = 5 * n" for n
    by (induction n) simp_all
  then have "let (r, s) = file_flush one_lib (log_disk log_header, ?st)
     in r = Ok () \<and> dk_data (fst s) 0 = log_header @ log_bytes one_lib (fs_buffer ?st)
        \<and> file_get_since one_lib s 1 = Err (Other (''read error: '' @ sl_io_text one_lib UnexpectedEof))"
    by (intro large_flush_breaks_reads) (simp_all add: HEADER_SIZE_def list_all_length)
  then show ?thesis by (simp add: split_beta Let_def one_lib_def [THEN arg_cong, of sl_io_text])
qed

text \<open>
  Recovery removes only temporary files: opening a directory deletes at most names with
  the extension \<open>tmp\<close>, never the log, and leaves the contents of every file as they were.
\<close>

theorem recovery_exact:
  "dk_names (recover_temp_files entries removable d) name =
     (if removable name \<and> (name = temp_name \<or> name \<in> set entries \<and> snd (path_split name) = Some ''tmp'')
      then None else dk_names d name)
   \<and> dk_names (recover_temp_files entries removable d) log_name = dk_names d log_name
   \<and> dk_data (recover_temp_files entries removable d) = dk_data d"
proof -
  have "classify_temp name \<noteq> None \<longleftrightarrow> snd (path_split name) = Some ''tmp''"
    by (auto simp: classify_temp_def split: prod.split option.split)
  then show ?thesis
    by (auto simp: recover_temp_files_eq)
qed

end
