(* ===== verification/Sync_Manager.thy ===== *)
theory Sync_Manager
  imports Change Error_Types
begin

section \<open>The sync manager (\<open>src/sync.rs\<close>)\<close>

text \<open>
  The in-memory change log with its offset counter, the table of peer states and their snapshot.
  An iroh \<open>EndpointId\<close> is a type parameter; its conversions from and to 32 bytes are
  arguments. The offset is the code's \<open>AtomicU64\<close> (additions wrap),
  \<open>usize\<close> counts are natural numbers. \<open>represents\<close> is the abstract view
  of the log: the manager keeps the last \<open>max_changes\<close> entries of the history of all
  recorded changes.
\<close>

datatype sync_state =
  Disconnected | Connecting | Syncing | Synchronized | SyncError string

record 'id peer_sync_state =
  ps_peer_id :: 'id
  ps_state :: sync_state
  ps_last_offset :: u64
  ps_last_sync :: "nat option"

definition peer_sync_state_new :: "'id \<Rightarrow> 'id peer_sync_state" where
  "peer_sync_state_new pid =
     \<lparr>ps_peer_id = pid, ps_state = Disconnected, ps_last_offset = 0, ps_last_sync = None\<rparr>"

record sync_snapshot =
  sn_offset :: u64
  sn_changes :: "change list"
  sn_peers :: "(string \<times> u64) list"

text \<open>The receiving end of the (never used) notification channel is known by a handle.\<close>

record 'id sync_manager =
  sm_offset :: u64
  sm_changes :: "change list"
  sm_max_changes :: nat
  sm_peer_states :: "string \<rightharpoonup> 'id peer_sync_state"
  sm_change_rx :: "nat option"

definition sync_manager_new :: "nat \<Rightarrow> 'id sync_manager" where
  "sync_manager_new max_changes =
     \<lparr>sm_offset = 0, sm_changes = [], sm_max_changes = max_changes,
      sm_peer_states = Map.empty, sm_change_rx = Some 0\<rparr>"

definition sync_manager_default :: "'id sync_manager" where
  "sync_manager_default = sync_manager_new 10000"

definition change_receiver :: "'id sync_manager \<Rightarrow> nat option \<times> 'id sync_manager" where
  "change_receiver m = (sm_change_rx m, m\<lparr>sm_change_rx := None\<rparr>)"

definition record_change :: "'id sync_manager \<Rightarrow> change \<Rightarrow> u64 \<times> 'id sync_manager" where
  "record_change m c =
     (let off = sm_offset m;
          changes = sm_changes m @ [c];
          changes = (if length changes > sm_max_changes m then drop 1 changes else changes)
      in (off, m\<lparr>sm_offset := off + 1, sm_changes := changes\<rparr>))"

definition get_changes_since :: "'id sync_manager \<Rightarrow> u64 \<Rightarrow> change list" where
  "get_changes_since m off =
     (if sm_offset m \<le> off then []
      else let count = unat (sm_offset m - off);
               skip_count = length (sm_changes m) - count
           in drop skip_count (sm_changes m))"

fun apply_loop :: "u64 \<Rightarrow> u64 \<Rightarrow> change list \<Rightarrow> u64 \<times> u64" where
  "apply_loop current off [] = (current, off)"
| "apply_loop current off (c # cs) = apply_loop (current + 1) (max off (ucast (ch_id c))) cs"

definition apply_changes :: "'id sync_manager \<Rightarrow> change list \<Rightarrow> u64 result \<times> 'id sync_manager" where
  "apply_changes m cs =
     (let (current, off) = apply_loop (sm_offset m) (sm_offset m) cs
      in (Ok current, m\<lparr>sm_offset := off\<rparr>))"

text \<open>The key of a peer in the table.\<close>

definition peer_key :: "('id \<Rightarrow> bytes) \<Rightarrow> 'id \<Rightarrow> string" where
  "peer_key id_bytes pid = base64_url_encode (id_bytes pid)"

definition update_peer_state ::
  "('id \<Rightarrow> bytes) \<Rightarrow> 'id sync_manager \<Rightarrow> 'id \<Rightarrow> sync_state \<Rightarrow> 'id sync_manager" where
  "update_peer_state id_bytes m pid st =
     (let key = peer_key id_bytes pid;
          entry = (case sm_peer_states m key of None \<Rightarrow> peer_sync_state_new pid | Some p \<Rightarrow> p)
      in m\<lparr>sm_peer_states := (sm_peer_states m)(key \<mapsto> entry\<lparr>ps_state := st\<rparr>)\<rparr>)"

text \<open>\<open>kvs\<close> is the order in which the table is iterated.\<close>

definition get_peer_states :: "(string \<times> 'id peer_sync_state) list \<Rightarrow> 'id peer_sync_state list" where
  "get_peer_states kvs = map snd kvs"

definition snapshot ::
  "(string \<times> 'id peer_sync_state) list \<Rightarrow> 'id sync_manager \<Rightarrow> sync_snapshot" where
  "snapshot kvs m =
     \<lparr>sn_offset = sm_offset m, sn_changes = sm_changes m,
      sn_peers = map (\<lambda>(k, p). (k, ps_last_offset p)) kvs\<rparr>"

text \<open>
  \<open>bytes[..32]\<close> panics when fewer than 32 bytes were decoded; the conversion of the 32-byte
  slice to an array that follows cannot fail.
\<close>

definition decode_peer_id :: "(bytes \<Rightarrow> string + 'id) \<Rightarrow> string \<Rightarrow> 'id result" where
  "decode_peer_id id_from_bytes encoded =
     and_then (map_err (\<lambda>e. Encoding (''base64 decode failed: '' @ e)) (base64_url_decode encoded))
       (\<lambda>bs. if length bs < 32 then Panic
             else map_err (\<lambda>e. Encoding (''failed to create endpoint ID: '' @ e))
                    (of_result (id_from_bytes (take 32 bs))))"

text \<open>The loop over the peers: the table, the number of skipped peers, and whether it panicked.\<close>

fun restore_peers ::
  "(bytes \<Rightarrow> string + 'id) \<Rightarrow> (string \<rightharpoonup> 'id peer_sync_state) \<Rightarrow> nat
     \<Rightarrow> (string \<times> u64) list \<Rightarrow> (string \<rightharpoonup> 'id peer_sync_state) \<times> nat \<times> bool" where
  "restore_peers id_from_bytes states failed [] = (states, failed, False)"
| "restore_peers id_from_bytes states failed ((key, off) # ps) =
     (case decode_peer_id id_from_bytes key of
        Ok pid \<Rightarrow>
          restore_peers id_from_bytes
            (states(key \<mapsto> \<lparr>ps_peer_id = pid, ps_state = Disconnected,
                          ps_last_offset = off, ps_last_sync = None\<rparr>)) failed ps
      | Err e \<Rightarrow> restore_peers id_from_bytes states (failed + 1) ps
      | Panic \<Rightarrow> (states, failed, True))"

definition restore ::
  "(bytes \<Rightarrow> string + 'id) \<Rightarrow> 'id sync_manager \<Rightarrow> sync_snapshot
     \<Rightarrow> unit result \<times> 'id sync_manager" where
  "restore id_from_bytes m sn =
     (let (states, failed, panicked) =
            restore_peers id_from_bytes (sm_peer_states m) 0 (sn_peers sn)
      in (if panicked then Panic else Ok (),
          m\<lparr>sm_changes := sn_changes sn, sm_offset := sn_offset sn, sm_peer_states := states\<rparr>))"

text \<open>What the crate relies on of \<open>EndpointId\<close>: 32 bytes that convert back.\<close>

definition id_codec :: "('id \<Rightarrow> bytes) \<Rightarrow> (bytes \<Rightarrow> string + 'id) \<Rightarrow> bool" where
  "id_codec id_bytes id_from_bytes \<longleftrightarrow>
     (\<forall>pid. length (id_bytes pid) = 32 \<and> id_from_bytes (id_bytes pid) = Inr pid)"

subsection \<open>The abstract log\<close>

definition represents :: "'id sync_manager \<Rightarrow> change list \<Rightarrow> bool" where
  "represents m history \<longleftrightarrow>
     length history < 2 ^ 64 \<and> sm_offset m = of_nat (length history)
     \<and> sm_changes m = last_n (sm_max_changes m) history"

text \<open>
  The interface of a bounded change log, as the sync protocol uses it: appending, the tail
  offset, and the entries since an offset, against the history of all appended entries.
\<close>

locale bounded_log =
  fixes append :: "'s \<Rightarrow> 'c \<Rightarrow> 's"
    and since :: "'s \<Rightarrow> u64 \<Rightarrow> 'c list"
    and tail :: "'s \<Rightarrow> u64"
    and cap :: "'s \<Rightarrow> nat"
    and repr :: "'s \<Rightarrow> 'c list \<Rightarrow> bool"
  assumes repr_append: "repr s h \<Longrightarrow> length h + 1 < 2 ^ 64 \<Longrightarrow> repr (append s c) (h @ [c])"
    and cap_append: "cap (append s c) = cap s"
    and repr_tail: "repr s h \<Longrightarrow> tail s = of_nat (length h)"
    and repr_length: "repr s h \<Longrightarrow> length h < 2 ^ 64"
    and repr_since: "repr s h \<Longrightarrow> since s off = last_n (cap s) (drop (unat off) h)"
begin

lemma repr_appends:
  "repr s h \<Longrightarrow> length h + length cs < 2 ^ 64 \<Longrightarrow> repr (foldl append s cs) (h @ cs)"
proof (induction cs arbitrary: s h)
  case Nil
  then show ?case by simp
next
  case (Cons c cs)
  then have "repr (append s c) (h @ [c])" by (intro repr_append) auto
  from Cons.IH [OF this] Cons.prems show ?case by simp
qed

lemma cap_appends: "cap (foldl append s cs) = cap s"
  by (induction cs arbitrary: s) (simp_all add: cap_append)

lemma unat_tail: "repr s h \<Longrightarrow> unat (tail s) = length h"
  unfolding repr_tail by (rule unat_of_nat_u64) (rule repr_length)

lemma since_complete:
  "repr s h \<Longrightarrow> length h - unat off \<le> cap s \<Longrightarrow> since s off = drop (unat off) h"
  by (simp add: repr_since last_n_all)

lemma since_appended:
  assumes "repr s h" "length h + length cs < 2 ^ 64" "length cs \<le> cap s"
  shows "since (foldl append s cs) (tail s) = cs"
proof -
  have "since (foldl append s cs) (tail s) = drop (unat (tail s)) (h @ cs)"
    using assms by (intro since_complete) (simp_all add: repr_appends cap_appends unat_tail)
  then show ?thesis using assms by (simp add: unat_tail)
qed

lemma since_tail: "repr s h \<Longrightarrow> since s (tail s) = []"
  by (simp add: repr_since unat_tail)

end

lemma represents_new: "represents (sync_manager_new n) []"
  by (simp add: represents_def sync_manager_new_def)

lemma record_change_simps [simp]:
  "sm_max_changes (snd (record_change m c)) = sm_max_changes m"
  "sm_peer_states (snd (record_change m c)) = sm_peer_states m"
  "sm_offset (snd (record_change m c)) = sm_offset m + 1"
  "fst (record_change m c) = sm_offset m"
  by (simp_all add: record_change_def Let_def)

lemma record_change_changes:
  assumes "sm_changes m = last_n (sm_max_changes m) history"
  shows "sm_changes (snd (record_change m c)) = last_n (sm_max_changes m) (history @ [c])"
proof (cases "sm_max_changes m \<le> length history")
  case True
  then show ?thesis
    using assms last_n_snoc_full [OF True, of c]
    by (simp add: record_change_def Let_def min_def)
next
  case False
  then show ?thesis
    using assms by (simp add: record_change_def Let_def last_n_snoc_room)
qed

lemma represents_record:
  "represents m h \<Longrightarrow> length h + 1 < 2 ^ 64 \<Longrightarrow> represents (snd (record_change m c)) (h @ [c])"
  using record_change_changes [of m h c] by (simp add: represents_def)

lemma represents_tail: "represents m h \<Longrightarrow> unat (sm_offset m) = length h"
  unfolding represents_def by (metis unat_of_nat_u64)

lemma since_represents:
  assumes r: "represents m h"
  shows "get_changes_since m off = last_n (sm_max_changes m) (drop (unat off) h)"
proof (cases "sm_offset m \<le> off")
  case True
  then have "length h \<le> unat off"
    using represents_tail [OF r] by (simp add: word_le_nat_alt)
  with True show ?thesis by (simp add: get_changes_since_def)
next
  case False
  then have "unat (sm_offset m - off) = length h - unat off"
    using represents_tail [OF r] by (simp add: unat_sub)
  with False have "get_changes_since m off = last_n (length h - unat off) (sm_changes m)"
    by (simp add: get_changes_since_def Let_def last_n_def)
  also have "sm_changes m = last_n (sm_max_changes m) h"
    using r by (simp add: represents_def)
  finally show ?thesis by (simp add: last_n_drop min.commute)
qed

interpretation sync_log: bounded_log
  "\<lambda>m c. snd (record_change m c)" get_changes_since sm_offset sm_max_changes represents
proof (unfold_locales, goal_cases)
  case (1 m h c)
  then show ?case by (rule represents_record)
next
  case (2 m c)
  show ?case by simp
next
  case (3 m h)
  then show ?case by (simp add: represents_def)
next
  case (4 m h)
  then show ?case by (simp add: represents_def)
next
  case (5 m h off)
  then show ?case by (rule since_represents)
qed

subsection \<open>Lemmas on the operations\<close>

abbreviation record_all :: "'id sync_manager \<Rightarrow> change list \<Rightarrow> 'id sync_manager" where
  "record_all m cs \<equiv> foldl (\<lambda>m c. snd (record_change m c)) m cs"

lemma apply_loop_eq:
  "apply_loop current off cs =
     (current + of_nat (length cs), fold max (map (\<lambda>c. ucast (ch_id c)) cs) off)"
  by (induction cs arbitrary: current off) (simp_all add: max.commute)

lemma apply_changes_eq:
  "apply_changes m cs =
     (Ok (sm_offset m + of_nat (length cs)),
      m\<lparr>sm_offset := fold max (map (\<lambda>c. ucast (ch_id c)) cs) (sm_offset m)\<rparr>)"
  by (simp add: apply_changes_def apply_loop_eq)

lemma since_sublist: "set (get_changes_since m off) \<subseteq> set (sm_changes m)"
  by (auto simp: get_changes_since_def Let_def dest: in_set_dropD)

text \<open>
  The operations of a running manager as steps, and the invariant they keep: the log never
  holds more than \<open>max_changes\<close> entries.
\<close>

datatype 'id sync_op =
  Record change | Apply "change list" | UpdatePeer 'id sync_state | TakeReceiver

fun sync_step :: "('id \<Rightarrow> bytes) \<Rightarrow> 'id sync_manager \<Rightarrow> 'id sync_op \<Rightarrow> 'id sync_manager" where
  "sync_step id_bytes m (Record c) = snd (record_change m c)"
| "sync_step id_bytes m (Apply cs) = snd (apply_changes m cs)"
| "sync_step id_bytes m (UpdatePeer pid st) = update_peer_state id_bytes m pid st"
| "sync_step id_bytes m TakeReceiver = snd (change_receiver m)"

lemmas sync_frame = record_change_def apply_changes_eq update_peer_state_def change_receiver_def

definition log_bounded :: "'id sync_manager \<Rightarrow> bool" where
  "log_bounded m \<longleftrightarrow> length (sm_changes m) \<le> sm_max_changes m"

lemma log_bounded_new [wf_intros]: "log_bounded (sync_manager_new n)"
  by (simp add: log_bounded_def sync_manager_new_def)

lemma sync_step_max [simp]: "sm_max_changes (sync_step id_bytes m op) = sm_max_changes m"
  by (cases op) (simp_all add: sync_frame Let_def)

lemma log_bounded_step [wf_intros]: "log_bounded m \<Longrightarrow> log_bounded (sync_step id_bytes m op)"
  by (cases op) (auto simp: log_bounded_def sync_frame Let_def)

text \<open>The keys of the peer table are those of the peers in it.\<close>

definition well_keyed :: "('id \<Rightarrow> bytes) \<Rightarrow> (string \<rightharpoonup> 'id peer_sync_state) \<Rightarrow> bool" where
  "well_keyed id_bytes states \<longleftrightarrow>
     (\<forall>k p. states k = Some p \<longrightarrow> k = peer_key id_bytes (ps_peer_id p))"

lemma well_keyed_step [wf_intros]:
  "well_keyed id_bytes (sm_peer_states m) \<Longrightarrow>
     well_keyed id_bytes (sm_peer_states (sync_step id_bytes m op))"
  by (cases op)
     (auto simp: well_keyed_def sync_frame Let_def peer_sync_state_new_def split: option.split)

text \<open>All operations together keep the log bounded and the table keyed.\<close>

definition sync_inv :: "('id \<Rightarrow> bytes) \<Rightarrow> nat \<Rightarrow> 'id sync_manager \<Rightarrow> bool" where
  "sync_inv id_bytes n m \<longleftrightarrow>
     sm_max_changes m = n \<and> log_bounded m \<and> well_keyed id_bytes (sm_peer_states m)"

interpretation sync_machine: machine "sync_step id_bytes" "sync_inv id_bytes n" "\<lambda>op. True"
  by unfold_locales (simp add: sync_inv_def wf_intros)

lemma well_keyed_empty [wf_intros, simp]: "well_keyed id_bytes Map.empty"
  by (simp add: well_keyed_def)

lemma decode_peer_key:
  "id_codec id_bytes id_from_bytes \<Longrightarrow> decode_peer_id id_from_bytes (peer_key id_bytes pid) = Ok pid"
  by (simp add: decode_peer_id_def peer_key_def base64_decode_encode id_codec_def)

text \<open>What \<open>restore\<close> keeps of a peer.\<close>

definition restored_peer :: "'id peer_sync_state \<Rightarrow> 'id peer_sync_state" where
  "restored_peer p = p\<lparr>ps_state := Disconnected, ps_last_sync := None\<rparr>"

lemma restore_peers_keyed:
  assumes "id_codec id_bytes id_from_bytes"
    and "\<forall>(k, p) \<in> set kvs. k = peer_key id_bytes (ps_peer_id p)" "distinct (map fst kvs)"
  shows "restore_peers id_from_bytes states failed (map (\<lambda>(k, p). (k, ps_last_offset p)) kvs)
           = (states ++ (map_option restored_peer \<circ> map_of kvs), failed, False)"
  using assms(2,3)
proof (induction kvs arbitrary: states)
  case Nil
  then show ?case by (simp add: comp_def)
next
  case (Cons kp kvs)
  obtain k p where kp: "kp = (k, p)" by force
  have "k = peer_key id_bytes (ps_peer_id p)" using Cons.prems kp by simp
  then have "decode_peer_id id_from_bytes k = Ok (ps_peer_id p)"
    using decode_peer_key [OF assms(1)] by simp
  moreover have "\<lparr>ps_peer_id = ps_peer_id p, ps_state = Disconnected,
                  ps_last_offset = ps_last_offset p, ps_last_sync = None\<rparr> = restored_peer p"
    by (simp add: restored_peer_def)
  ultimately have "restore_peers id_from_bytes states failed
        (map (\<lambda>(k, p). (k, ps_last_offset p)) (kp # kvs))
      = restore_peers id_from_bytes (states(k \<mapsto> restored_peer p)) failed
          (map (\<lambda>(k, p). (k, ps_last_offset p)) kvs)"
    by (simp only: kp list.map prod.case restore_peers.simps outcome.case)
  also have "\<dots> = (states(k \<mapsto> restored_peer p) ++ (map_option restored_peer \<circ> map_of kvs), failed, False)"
    using Cons.prems by (intro Cons.IH) auto
  also have "map_of kvs k = None"
    using Cons.prems kp by (simp add: map_of_eq_None_iff)
  then have "states(k \<mapsto> restored_peer p) ++ (map_option restored_peer \<circ> map_of kvs)
      = states ++ (map_option restored_peer \<circ> map_of (kp # kvs))"
    by (intro ext) (auto simp: map_add_def kp split: option.split)
  finally show ?case .
qed

subsection \<open>Properties\<close>

text \<open>
  C3. The log is the bounded log of its specification: after recording the changes
  \<open>cs\<close> in a new manager of capacity \<open>n\<close> (fewer than
  \<open>2^64\<close>), the offset is their number, the next record returns it, and
  \<open>get_changes_since off\<close> returns the changes from \<open>off\<close> on, truncated
  to the last \<open>n\<close>; nothing is missing when at most \<open>n\<close> are outstanding.
\<close>

theorem sync_log_refines:
  assumes "length cs < 2 ^ 64"
  shows "let m = record_all (sync_manager_new n :: 'id sync_manager) cs in
     sm_offset m = of_nat (length cs)
     \<and> fst (record_change m c) = of_nat (length cs)
     \<and> get_changes_since m off = last_n n (drop (unat off) cs)
     \<and> (length cs - unat off \<le> n \<longrightarrow> get_changes_since m off = drop (unat off) cs)"
proof -
  let ?m = "record_all (sync_manager_new n :: 'id sync_manager) cs"
  have r: "represents ?m cs"
    using sync_log.repr_appends [OF represents_new, of cs n] assms by simp
  moreover have "sm_max_changes ?m = n"
    by (simp only: sync_log.cap_appends) (simp add: sync_manager_new_def)
  ultimately show ?thesis
    using sync_log.repr_since [OF r, of off] sync_log.since_complete [OF r, of off]
      sync_log.repr_tail [OF r] by simp
qed

theorem sync_log_refines_witness:
  "get_changes_since (record_all (sync_manager_new 1 :: nat sync_manager)
     [change_query 1 0 ''ns'' ''db'' None, change_query 2 0 ''ns'' ''db'' None]) 0
   = [change_query 2 0 ''ns'' ''db'' None]"
proof -
  let ?cs = "[change_query 1 0 ''ns'' ''db'' None, change_query 2 0 ''ns'' ''db'' None]"
  have "length ?cs < 2 ^ 64" by simp
  from sync_log_refines [OF this, where 'id = nat and n = 1 and off = 0]
  show ?thesis by (simp add: Let_def last_n_def)
qed

text \<open>
  Incremental reads: a reader that remembers the offset it saw and asks again after at
  most \<open>max_changes\<close> further records gets exactly those records, in order.
\<close>

theorem sync_incremental_read:
  assumes "length cs + length ds < 2 ^ 64" "length ds \<le> n"
  shows "let m = record_all (sync_manager_new n :: 'id sync_manager) cs
         in get_changes_since (record_all m ds) (sm_offset m) = ds"
proof -
  let ?m = "record_all (sync_manager_new n :: 'id sync_manager) cs"
  have r: "represents ?m cs"
    using sync_log.repr_appends [OF represents_new, of cs n] assms by simp
  moreover have "sm_max_changes ?m = n"
    by (simp only: sync_log.cap_appends) (simp add: sync_manager_new_def)
  ultimately show ?thesis
    using sync_log.since_appended [OF r, of ds] assms by simp
qed

theorem sync_incremental_read_witness:
  "let m = record_all (sync_manager_new 1 :: nat sync_manager) [change_query 1 0 ''ns'' ''db'' None]
   in get_changes_since (record_all m [change_query 2 0 ''ns'' ''db'' None]) (sm_offset m)
        = [change_query 2 0 ''ns'' ''db'' None]"
  by (rule sync_incremental_read) simp_all

text \<open>
  Memory bound: whatever sequence of recordings, applications, peer updates and
  receiver requests a new manager goes through, it holds at most \<open>max_changes\<close> changes, and
  its peer table stays keyed by the base64 text of the peers in it.
\<close>

theorem sync_memory_bounded:
  "length (sm_changes (foldl (sync_step id_bytes) (sync_manager_new n :: 'id sync_manager) ops)) \<le> n
   \<and> well_keyed id_bytes (sm_peer_states (foldl (sync_step id_bytes) (sync_manager_new n :: 'id sync_manager) ops))"
proof -
  have "sync_inv id_bytes n (sync_manager_new n :: 'id sync_manager)"
    by (simp add: sync_inv_def log_bounded_new) (simp add: sync_manager_new_def)
  then have "sync_inv id_bytes n (foldl (sync_step id_bytes) (sync_manager_new n :: 'id sync_manager) ops)"
    by (rule sync_machine.inv_run) (simp add: list_all_iff)
  then show ?thesis by (simp add: sync_inv_def log_bounded_def)
qed

text \<open>
  The bound does not survive \<open>restore\<close>: a snapshot with more changes than
  \<open>max_changes\<close> is taken over whole, and recording afterwards never shrinks the log again,
  since each \<open>record_change\<close> drops only one entry.
\<close>

theorem sync_restore_exceeds_bound:
  assumes "sm_max_changes m < length (sn_changes sn)"
  shows "length (sm_changes (record_all (snd (restore id_from_bytes m sn)) cs))
           = length (sn_changes sn)"
proof -
  have "length (sm_changes (record_all m' cs)) = length (sm_changes m')"
    if "sm_max_changes m' < length (sm_changes m')" for m' :: "'a sync_manager"
    using that
  proof (induction cs arbitrary: m')
    case (Cons c cs)
    then have "length (sm_changes (snd (record_change m' c))) = length (sm_changes m')"
      by (simp add: record_change_def Let_def)
    with Cons.IH [of "snd (record_change m' c)"] Cons.prems show ?case by simp
  qed simp
  from this [of "snd (restore id_from_bytes m sn)"] assms show ?thesis
    by (simp add: restore_def split_beta)
qed

theorem sync_restore_exceeds_bound_witness:
  "length (sm_changes (record_all (snd (restore (\<lambda>bs. Inr (hd bs)) (sync_manager_new 0 :: u8 sync_manager)
      \<lparr>sn_offset = 1, sn_changes = [change_query 1 0 ''ns'' ''db'' None], sn_peers = []\<rparr>))
      [change_query 2 0 ''ns'' ''db'' None])) = 1"
  using sync_restore_exceeds_bound
    [of "sync_manager_new 0 :: u8 sync_manager"
        "\<lparr>sn_offset = 1, sn_changes = [change_query 1 0 ''ns'' ''db'' None], sn_peers = []\<rparr>"
        "\<lambda>bs. Inr (hd bs)" "[change_query 2 0 ''ns'' ''db'' None]"]
  by (simp add: sync_manager_new_def)

text \<open>
  C32. Snapshot and restore, for identifiers that convert to their 32 bytes and back and a table
  keyed by them: restoring the snapshot of a manager into one without peers gives
  back its offset, its changes and, for every peer, its identifier and last offset, with the
  connection state reset to \<open>Disconnected\<close>; no peer is skipped, in whatever order the table
  was written.
\<close>

theorem sync_snapshot_restore:
  assumes "id_codec id_bytes id_from_bytes"
    and "well_keyed id_bytes (sm_peer_states m)" "iterates kvs (sm_peer_states m)"
    and "sm_peer_states m0 = Map.empty"
  shows "let (r, m') = restore id_from_bytes m0 (snapshot kvs m) in
     r = Ok () \<and> sm_offset m' = sm_offset m \<and> sm_changes m' = sm_changes m
     \<and> sm_max_changes m' = sm_max_changes m0
     \<and> sm_peer_states m' = map_option restored_peer \<circ> sm_peer_states m"
proof -
  have "\<forall>(k, p) \<in> set kvs. k = peer_key id_bytes (ps_peer_id p)"
    using assms(2,3) by (auto simp: well_keyed_def iterates_in_iff)
  moreover have "distinct (map fst kvs)" "map_of kvs = sm_peer_states m"
    using assms(3) by (simp_all add: iterates_def)
  ultimately show ?thesis
    using restore_peers_keyed [OF assms(1), of kvs Map.empty 0] assms(4)
    by (simp add: restore_def snapshot_def)
qed

lemma u8_id_codec: "id_codec (\<lambda>b. replicate 32 (b :: u8)) (\<lambda>bs. Inr (hd bs))"
  by (simp add: id_codec_def)

theorem sync_snapshot_restore_witness:
  "let m = update_peer_state (\<lambda>b. replicate 32 b) (sync_manager_new 5) (7 :: u8) Syncing;
       kvs = [(peer_key (\<lambda>b. replicate 32 b) 7, (peer_sync_state_new 7)\<lparr>ps_state := Syncing\<rparr>)];
       (r, m') = restore (\<lambda>bs. Inr (hd bs)) (sync_manager_new 5) (snapshot kvs m)
   in r = Ok () \<and> sm_offset m' = sm_offset m \<and> sm_changes m' = sm_changes m
      \<and> sm_max_changes m' = sm_max_changes (sync_manager_new 5 :: u8 sync_manager)
      \<and> sm_peer_states m' = map_option restored_peer \<circ> sm_peer_states m"
  unfolding Let_def
  by (rule sync_snapshot_restore [OF u8_id_codec, unfolded Let_def])
     (auto simp: well_keyed_def iterates_def update_peer_state_def Let_def sync_manager_new_def
        peer_sync_state_new_def split: if_splits)

text \<open>
  A peer key of a snapshot that is valid base64 but decodes to fewer than 32 bytes makes
  \<open>restore\<close> panic instead of skipping the peer; a longer one is silently cut to its first
  32 bytes; a key that is not base64 is skipped.
\<close>

theorem sync_restore_bad_key:
  "fst (restore id_from_bytes m \<lparr>sn_offset = off, sn_changes = cs, sn_peers = [(base64_url_encode bs, p)]\<rparr>)
     = (if length bs < 32 then Panic else Ok ())
   \<and> (if length bs < 32 then decode_peer_id id_from_bytes (base64_url_encode bs) = Panic
      else decode_peer_id id_from_bytes (base64_url_encode bs)
             = decode_peer_id id_from_bytes (base64_url_encode (take 32 bs)))
   \<and> restore id_from_bytes m \<lparr>sn_offset = off, sn_changes = cs, sn_peers = [(''!'', p)]\<rparr>
      = (Ok (), m\<lparr>sm_changes := cs, sm_offset := off\<rparr>)"
proof -
  have key: "decode_peer_id id_from_bytes (base64_url_encode xs) =
      (if length xs < 32 then Panic
       else map_err (\<lambda>e. Encoding (''failed to create endpoint ID: '' @ e)) (of_result (id_from_bytes (take 32 xs))))"
    for xs
    by (simp add: decode_peer_id_def base64_decode_encode)
  have "\<not> in_alphabet 33"
    by (simp add: in_alphabet_def alphabet_def as_bytes_def)
  then have "base64_url_decode ''!'' = Err ''invalid base64 character''"
    by (simp add: base64_url_decode_def as_bytes_def decode_loop_errors)
  then have bang: "decode_peer_id id_from_bytes ''!'' =
      Err (Encoding ''base64 decode failed: invalid base64 character'')"
    by (simp add: decode_peer_id_def)
  show ?thesis
    by (auto simp: restore_def key bang split: outcome.split)
qed

text \<open>
  \<open>apply_changes\<close> stores nothing: it answers the old offset plus the number of changes,
  raises the offset to the largest low half of a change identifier, leaves the log as it
  was, and no change it was given is served later unless it was recorded before.
\<close>

theorem sync_apply_changes:
  "let (r, m') = apply_changes m cs in
     r = Ok (sm_offset m + of_nat (length cs))
     \<and> sm_offset m' = fold max (map (\<lambda>c. ucast (ch_id c)) cs) (sm_offset m)
     \<and> sm_changes m' = sm_changes m
     \<and> set (get_changes_since m' off) \<subseteq> set (sm_changes m)"
  using since_sublist [of "snd (apply_changes m cs)" off] by (simp add: apply_changes_eq)

lemma fold_max_ge: "y \<in> set (x # xs) \<Longrightarrow> y \<le> fold max xs (x :: u64)"
  unfolding Max.set_eq_fold [symmetric] by (rule Max_ge) simp_all

text \<open>
  After applying a remote change whose identifier is at least \<open>off\<close> plus the length of
  the log, every request from \<open>off\<close> is answered with the whole local log, whatever part of
  it the requester already has.
\<close>

theorem sync_apply_resends_all:
  assumes "unat off + length (sm_changes m) \<le> unat (ucast (ch_id c) :: u64)" "c \<in> set cs"
  shows "get_changes_since (snd (apply_changes m cs)) off = sm_changes m"
proof -
  let ?off' = "fold max (map (\<lambda>c. ucast (ch_id c)) cs) (sm_offset m) :: u64"
  have "(ucast (ch_id c) :: u64) \<le> ?off'"
    using assms(2) by (intro fold_max_ge) auto
  then have le: "unat off + length (sm_changes m) \<le> unat ?off'"
    using assms(1) by (simp add: word_le_nat_alt)
  show ?thesis
  proof (cases "?off' \<le> off")
    case True
    then have "unat ?off' \<le> unat off" by (simp add: word_le_nat_alt)
    with le have "length (sm_changes m) = 0" by linarith
    then show ?thesis by (simp add: get_changes_since_def apply_changes_eq)
  next
    case False
    then have "unat (?off' - off) = unat ?off' - unat off" by (simp add: unat_sub)
    with le False show ?thesis by (simp add: get_changes_since_def apply_changes_eq Let_def)
  qed
qed

theorem sync_apply_resends_all_witness:
  "get_changes_since (snd (apply_changes
      (record_all (sync_manager_new 10 :: nat sync_manager) [change_query 1 0 ''ns'' ''db'' None])
      [change_query 5 0 ''ns'' ''db'' None])) 1
   = [change_query 1 0 ''ns'' ''db'' None]"
proof -
  let ?m = "record_all (sync_manager_new 10 :: nat sync_manager) [change_query 1 0 ''ns'' ''db'' None]"
  have m: "sm_changes ?m = [change_query 1 0 ''ns'' ''db'' None]"
    by (simp add: record_change_def sync_manager_new_def Let_def)
  have "unat (1 :: u64) + length (sm_changes ?m)
          \<le> unat (ucast (ch_id (change_query 5 0 ''ns'' ''db'' None)) :: u64)"
    unfolding m by (simp add: change_query_def)
  from sync_apply_resends_all [OF this, of "[change_query 5 0 ''ns'' ''db'' None]"] m
  show ?thesis by simp
qed

end
