(* ===== verification/Batch.thy ===== *)
theory Batch
  imports Sync_Manager Config
begin

section \<open>Change batching (\<open>src/batch.rs\<close>)\<close>

text \<open>
  The batcher collects changes and hands them to a channel in batches, by size and by age; the
  batching sync manager records every change and also adds it to a batcher. The channel is
  tokio's: its state is a type parameter and \<open>try_send\<close> an argument, which answers
  whether it took the batch. Instants are nanoseconds, an argument of the operations that read the
  clock. An operation is one step; the two locked sections of \<open>add\<close> are definitions
  of their own, so that what the flush task may do between them can be stated.
\<close>

record batch_config =
  bc_max_batch_size :: nat
  bc_max_batch_age :: duration
  bc_enabled :: bool

definition batch_config_default :: batch_config where
  "batch_config_default = \<lparr>bc_max_batch_size = 100, bc_max_batch_age = millis 100, bc_enabled = True\<rparr>"

definition with_max_batch_size :: "nat \<Rightarrow> batch_config \<Rightarrow> batch_config" where
  "with_max_batch_size n c = c\<lparr>bc_max_batch_size := n\<rparr>"

definition with_max_batch_age :: "duration \<Rightarrow> batch_config \<Rightarrow> batch_config" where
  "with_max_batch_age a c = c\<lparr>bc_max_batch_age := a\<rparr>"

definition with_enabled :: "bool \<Rightarrow> batch_config \<Rightarrow> batch_config" where
  "with_enabled e c = c\<lparr>bc_enabled := e\<rparr>"

record tx_batch =
  tb_changes :: "change list"
  tb_created_at :: nat
  tb_sequence :: u64

definition tx_batch_new :: "nat \<Rightarrow> change list \<Rightarrow> u64 \<Rightarrow> tx_batch" where
  "tx_batch_new now cs seq = \<lparr>tb_changes = cs, tb_created_at = now, tb_sequence = seq\<rparr>"

definition tx_batch_len :: "tx_batch \<Rightarrow> nat" where
  "tx_batch_len b = length (tb_changes b)"

definition tx_batch_is_empty :: "tx_batch \<Rightarrow> bool" where
  "tx_batch_is_empty b \<longleftrightarrow> tb_changes b = []"

record 'ch batcher =
  bt_config :: batch_config
  bt_pending :: "change list"
  bt_batches :: "tx_batch list"
  bt_channel :: 'ch
  bt_start :: "nat option"
  bt_sequence :: u64
  bt_shutdown_tx :: bool
  bt_task :: bool
  bt_crashed :: bool

type_synonym 'ch try_send = "'ch \<Rightarrow> tx_batch \<Rightarrow> bool \<times> 'ch"

definition batcher_new :: "batch_config \<Rightarrow> 'ch \<Rightarrow> 'ch batcher" where
  "batcher_new config ch =
     \<lparr>bt_config = config, bt_pending = [], bt_batches = [], bt_channel = ch, bt_start = None,
      bt_sequence = 0, bt_shutdown_tx = False, bt_task = False, bt_crashed = False\<rparr>"

definition has_task_crashed :: "'ch batcher \<Rightarrow> bool" where
  "has_task_crashed b = bt_crashed b"

definition is_task_running :: "'ch batcher \<Rightarrow> bool" where
  "is_task_running b = bt_task b"

definition pending_count :: "'ch batcher \<Rightarrow> nat" where
  "pending_count b = length (bt_pending b)"

definition ready_batch_count :: "'ch batcher \<Rightarrow> nat" where
  "ready_batch_count b = length (bt_batches b)"

subsection \<open>Adding and flushing\<close>

definition send_batch :: "'ch try_send \<Rightarrow> nat \<Rightarrow> change list \<Rightarrow> 'ch batcher \<Rightarrow> bool \<times> 'ch batcher" where
  "send_batch try_send now cs b =
     (let seq = bt_sequence b + 1;
          (sent, ch) = try_send (bt_channel b) (tx_batch_new now cs seq)
      in (sent, b\<lparr>bt_sequence := seq, bt_channel := ch\<rparr>))"

definition batcher_flush :: "'ch try_send \<Rightarrow> nat \<Rightarrow> 'ch batcher \<Rightarrow> bool \<times> 'ch batcher" where
  "batcher_flush try_send now b =
     (if bt_pending b = [] then (False, b)
      else send_batch try_send now (bt_pending b) (b\<lparr>bt_pending := [], bt_start := None\<rparr>))"

definition check_flush :: "'ch try_send \<Rightarrow> nat \<Rightarrow> 'ch batcher \<Rightarrow> bool \<times> 'ch batcher" where
  "check_flush try_send now b =
     (if bc_max_batch_size (bt_config b) \<le> length (bt_pending b) then batcher_flush try_send now b
      else (False, b))"

definition try_restart_task :: "'ch batcher \<Rightarrow> 'ch batcher" where
  "try_restart_task b = (if bt_crashed b \<and> \<not> bt_task b then b\<lparr>bt_crashed := False\<rparr> else b)"

definition add_mark :: "nat \<Rightarrow> 'ch batcher \<Rightarrow> 'ch batcher" where
  "add_mark now b = (if bt_start b = None then b\<lparr>bt_start := Some now\<rparr> else b)"

definition add_push :: "change \<Rightarrow> 'ch batcher \<Rightarrow> 'ch batcher" where
  "add_push c b = b\<lparr>bt_pending := bt_pending b @ [c]\<rparr>"

definition batcher_add :: "'ch try_send \<Rightarrow> nat \<Rightarrow> change \<Rightarrow> 'ch batcher \<Rightarrow> bool \<times> 'ch batcher" where
  "batcher_add try_send now c b0 =
     (let b = (if has_task_crashed b0 then try_restart_task b0 else b0)
      in if \<not> bc_enabled (bt_config b) then (True, snd (send_batch try_send now [c] b))
         else check_flush try_send now (add_push c (add_mark now b)))"

definition force_flush :: "'ch try_send \<Rightarrow> nat \<Rightarrow> 'ch batcher \<Rightarrow> 'ch batcher" where
  "force_flush try_send now b = snd (batcher_flush try_send now b)"

subsection \<open>The background task\<close>

definition start_background_flush_task :: "'ch batcher \<Rightarrow> 'ch batcher" where
  "start_background_flush_task b =
     (if bt_task b then b else b\<lparr>bt_shutdown_tx := True, bt_task := True\<rparr>)"

text \<open>One wake-up of the task at its flush time, and its end.\<close>

definition age_tick :: "'ch try_send \<Rightarrow> nat \<Rightarrow> 'ch batcher \<Rightarrow> 'ch batcher" where
  "age_tick try_send now b =
     (let should_flush =
        (case bt_start b of
           Some start \<Rightarrow> bc_max_batch_age (bt_config b) \<le> now - start \<and> 0 < pending_count b
         | None \<Rightarrow> False)
      in if should_flush then snd (batcher_flush try_send now b) else b)"

definition task_exit :: "'ch batcher \<Rightarrow> 'ch batcher" where
  "task_exit b = b\<lparr>bt_task := False\<rparr>"

text \<open>\<open>panicked\<close> is the outcome of the join, when the handle is still there.\<close>

definition batcher_shutdown :: "bool \<Rightarrow> 'ch batcher \<Rightarrow> 'ch batcher" where
  "batcher_shutdown panicked b =
     (if bt_task b then b\<lparr>bt_task := False, bt_crashed := (bt_crashed b \<or> panicked)\<rparr> else b)"

definition batcher_drop :: "'ch batcher \<Rightarrow> 'ch batcher" where
  "batcher_drop b = b\<lparr>bt_shutdown_tx := False\<rparr>"

subsection \<open>The batching sync manager\<close>

record ('id, 'ch) batching_manager =
  bm_sync :: "'id sync_manager"
  bm_batcher :: "'ch batcher"

text \<open>The channel of capacity 100 is handed over without its receiver.\<close>

definition batching_manager_new ::
  "(nat \<Rightarrow> 'ch) \<Rightarrow> 'id sync_manager \<Rightarrow> batch_config \<Rightarrow> ('id, 'ch) batching_manager" where
  "batching_manager_new closed_channel sm config =
     \<lparr>bm_sync = sm,
      bm_batcher = start_background_flush_task (batcher_new config (closed_channel 100))\<rparr>"

definition batching_record_change ::
  "'ch try_send \<Rightarrow> nat \<Rightarrow> ('id, 'ch) batching_manager \<Rightarrow> change \<Rightarrow> ('id, 'ch) batching_manager" where
  "batching_record_change try_send now g c =
     g\<lparr>bm_sync := snd (record_change (bm_sync g) c),
       bm_batcher := snd (batcher_add try_send now c (bm_batcher g))\<rparr>"

definition batching_flush :: "'ch try_send \<Rightarrow> nat \<Rightarrow> ('id, 'ch) batching_manager \<Rightarrow> ('id, 'ch) batching_manager" where
  "batching_flush try_send now g = g\<lparr>bm_batcher := force_flush try_send now (bm_batcher g)\<rparr>"

definition batching_pending_count :: "('id, 'ch) batching_manager \<Rightarrow> nat" where
  "batching_pending_count g = pending_count (bm_batcher g)"

subsection \<open>What is relied on of the channel\<close>

text \<open>
  \<open>contents\<close> are the batches the channel took, in order; a refused batch leaves it as
  it was. An accepting channel never refuses; a channel without receiver always does.
\<close>

definition fifo_channel :: "'ch try_send \<Rightarrow> ('ch \<Rightarrow> tx_batch list) \<Rightarrow> bool" where
  "fifo_channel try_send contents \<longleftrightarrow>
     (\<forall>ch x. contents (snd (try_send ch x)) = (if fst (try_send ch x) then contents ch @ [x] else contents ch))"

definition accepting :: "'ch try_send \<Rightarrow> bool" where
  "accepting try_send \<longleftrightarrow> (\<forall>ch x. fst (try_send ch x))"

definition receiverless :: "'ch try_send \<Rightarrow> 'ch \<Rightarrow> bool" where
  "receiverless try_send ch \<longleftrightarrow> (\<forall>x. try_send ch x = (False, ch))"

subsection \<open>The operations as steps\<close>

datatype batch_op = Add nat change | ForceFlush nat | AgeTick nat | StartTask | TaskExit | StopTask bool

fun batch_step :: "'ch try_send \<Rightarrow> 'ch batcher \<Rightarrow> batch_op \<Rightarrow> 'ch batcher" where
  "batch_step try_send b (Add now c) = snd (batcher_add try_send now c b)"
| "batch_step try_send b (ForceFlush now) = force_flush try_send now b"
| "batch_step try_send b (AgeTick now) = age_tick try_send now b"
| "batch_step try_send b StartTask = start_background_flush_task b"
| "batch_step try_send b TaskExit = task_exit b"
| "batch_step try_send b (StopTask panicked) = batcher_shutdown panicked b"

fun added :: "batch_op list \<Rightarrow> change list" where
  "added [] = []"
| "added (Add now c # ops) = c # added ops"
| "added (op # ops) = added ops"

text \<open>
  The invariant: what was handed over and what is pending, in order, is what was added; the
  batches are numbered from 1, none is empty or larger than configured; a change is pending
  exactly while the age of the batch is being measured.
\<close>

definition batch_size :: "'ch batcher \<Rightarrow> nat" where
  "batch_size b = max 1 (bc_max_batch_size (bt_config b))"

definition batch_inv :: "('ch \<Rightarrow> tx_batch list) \<Rightarrow> 'ch batcher \<Rightarrow> change list \<Rightarrow> bool" where
  "batch_inv contents b cs \<longleftrightarrow>
     concat (map tb_changes (contents (bt_channel b))) @ bt_pending b = cs
     \<and> map tb_sequence (contents (bt_channel b)) = map of_nat [1..<Suc (length (contents (bt_channel b)))]
     \<and> bt_sequence b = of_nat (length (contents (bt_channel b)))
     \<and> (\<forall>x \<in> set (contents (bt_channel b)). tb_changes x \<noteq> [] \<and> length (tb_changes x) \<le> batch_size b)
     \<and> length (bt_pending b) < batch_size b
     \<and> (bt_pending b = [] \<longleftrightarrow> bt_start b = None)
     \<and> (bt_pending b = [] \<or> bc_enabled (bt_config b))"

lemma batch_inv_new [wf_intros]: "contents ch = [] \<Longrightarrow> batch_inv contents (batcher_new config ch) []"
  by (simp add: batch_inv_def batcher_new_def batch_size_def)

text \<open>Handing over a batch of legal size.\<close>

lemma batch_inv_send:
  assumes ch: "fifo_channel try_send contents" "accepting try_send"
    and inv: "concat (map tb_changes (contents (bt_channel b))) = done"
      "map tb_sequence (contents (bt_channel b)) = map of_nat [1..<Suc (length (contents (bt_channel b)))]"
      "bt_sequence b = of_nat (length (contents (bt_channel b)))"
      "\<forall>x \<in> set (contents (bt_channel b)). tb_changes x \<noteq> [] \<and> length (tb_changes x) \<le> batch_size b"
      "bt_pending b = []" "bt_start b = None"
    and size: "cs \<noteq> []" "length cs \<le> batch_size b"
  shows "batch_inv contents (snd (send_batch try_send now cs b)) (done @ cs)"
proof -
  obtain sent ch' where s: "try_send (bt_channel b) (tx_batch_new now cs (bt_sequence b + 1)) = (sent, ch')"
    by force
  then have "contents ch' = contents (bt_channel b) @ [tx_batch_new now cs (bt_sequence b + 1)]"
    using ch unfolding fifo_channel_def accepting_def by (metis fst_conv snd_conv)
  with inv size s show ?thesis
    by (auto simp: batch_inv_def send_batch_def Let_def batch_size_def tx_batch_new_def)
qed

lemma batch_inv_flush:
  assumes "fifo_channel try_send contents" "accepting try_send"
    and "concat (map tb_changes (contents (bt_channel b))) @ bt_pending b = cs"
      "map tb_sequence (contents (bt_channel b)) = map of_nat [1..<Suc (length (contents (bt_channel b)))]"
      "bt_sequence b = of_nat (length (contents (bt_channel b)))"
      "\<forall>x \<in> set (contents (bt_channel b)). tb_changes x \<noteq> [] \<and> length (tb_changes x) \<le> batch_size b"
    and "bt_pending b \<noteq> []" "length (bt_pending b) \<le> batch_size b"
  shows "batch_inv contents (snd (batcher_flush try_send now b)) cs"
proof -
  let ?b = "b\<lparr>bt_pending := [], bt_start := None\<rparr>"
  have "batch_inv contents (snd (send_batch try_send now (bt_pending b) ?b))
          (concat (map tb_changes (contents (bt_channel b))) @ bt_pending b)"
    using assms by (intro batch_inv_send) (simp_all add: batch_size_def)
  then show ?thesis using assms(3,7) by (simp add: batcher_flush_def)
qed

lemma bt_config_send [simp]: "bt_config (snd (send_batch try_send now cs b)) = bt_config b"
  by (simp add: send_batch_def Let_def split_beta)

lemma bt_config_flush [simp]: "bt_config (snd (batcher_flush try_send now b)) = bt_config b"
  by (simp add: batcher_flush_def)

lemma bt_config_step [simp]: "bt_config (batch_step try_send b op) = bt_config b"
  by (cases op)
     (simp_all add: batcher_add_def check_flush_def force_flush_def age_tick_def Let_def try_restart_task_def
        add_push_def add_mark_def start_background_flush_task_def task_exit_def batcher_shutdown_def
        split: option.split)

text \<open>The flags of the task do not matter to the invariant.\<close>

lemma batch_inv_flags:
  "batch_inv contents (b\<lparr>bt_crashed := x\<rparr>) cs \<longleftrightarrow> batch_inv contents b cs"
  "batch_inv contents (b\<lparr>bt_task := t\<rparr>) cs \<longleftrightarrow> batch_inv contents b cs"
  "batch_inv contents (b\<lparr>bt_shutdown_tx := d\<rparr>) cs \<longleftrightarrow> batch_inv contents b cs"
  by (simp_all add: batch_inv_def batch_size_def)

lemma batch_inv_flush_any:
  assumes "fifo_channel try_send contents" "accepting try_send" "batch_inv contents b cs"
  shows "batch_inv contents (snd (batcher_flush try_send now b)) cs"
proof (cases "bt_pending b = []")
  case True
  with assms(3) show ?thesis by (simp add: batcher_flush_def)
next
  case False
  with assms show ?thesis
    by (intro batch_inv_flush) (simp_all add: batch_inv_def)
qed

lemma batch_inv_add:
  assumes "fifo_channel try_send contents" "accepting try_send" "batch_inv contents b cs"
  shows "batch_inv contents (snd (batcher_add try_send now c b)) (cs @ [c])"
proof -
  define b' where "b' = (if has_task_crashed b then try_restart_task b else b)"
  have inv: "batch_inv contents b' cs"
    using assms(3) by (simp add: b'_def try_restart_task_def batch_inv_flags)
  show ?thesis
  proof (cases "bc_enabled (bt_config b')")
    case False
    then have "bt_pending b' = []" using inv by (simp add: batch_inv_def)
    then have "batch_inv contents (snd (send_batch try_send now [c] b')) (cs @ [c])"
      using inv assms(1,2) by (intro batch_inv_send) (simp_all add: batch_inv_def batch_size_def)
    with False show ?thesis by (simp add: batcher_add_def Let_def b'_def [symmetric])
  next
    case True
    let ?b = "add_push c (add_mark now b')"
    have "batch_inv contents (snd (check_flush try_send now ?b)) (cs @ [c])"
    proof (cases "bc_max_batch_size (bt_config ?b) \<le> length (bt_pending ?b)")
      case full: True
      have "batch_inv contents (snd (batcher_flush try_send now ?b)) (cs @ [c])"
        using assms(1,2) inv
        by (intro batch_inv_flush) (auto simp: batch_inv_def add_push_def add_mark_def batch_size_def)
      with full show ?thesis by (simp add: check_flush_def)
    next
      case False
      with inv True show ?thesis
        by (auto simp: check_flush_def batch_inv_def add_push_def add_mark_def batch_size_def)
    qed
    with True show ?thesis by (simp add: batcher_add_def Let_def b'_def [symmetric])
  qed
qed

lemma added_append: "foldl (\<lambda>cs op. cs @ added [op]) cs ops = cs @ added ops"
proof (induction ops arbitrary: cs)
  case (Cons op ops)
  have "added (op # ops) = added [op] @ added ops" by (cases op) simp_all
  then show ?case using Cons by simp
qed simp

lemma batch_inv_step:
  assumes "fifo_channel try_send contents" "accepting try_send" "batch_inv contents b cs"
  shows "batch_inv contents (batch_step try_send b op) (cs @ added [op])"
  using assms batch_inv_add [OF assms] batch_inv_flush_any [OF assms]
  by (cases op)
     (simp_all add: force_flush_def age_tick_def Let_def start_background_flush_task_def task_exit_def
        batcher_shutdown_def batch_inv_flags split: option.split)

text \<open>Over a channel that takes every batch, the batcher is simulated by the list of additions.\<close>

interpretation batching: simulation "batch_step try_send" "\<lambda>cs op. cs @ added [op]"
    "\<lambda>b cs. fifo_channel try_send contents \<and> accepting try_send \<and> batch_inv contents b cs" "\<lambda>op. True"
  by unfold_locales (simp add: batch_inv_step)

lemma batch_inv_steps:
  assumes "fifo_channel try_send contents" "accepting try_send" "contents ch = []"
  shows "batch_inv contents (foldl (batch_step try_send) (batcher_new config ch) ops) (added ops)"
  using batching.sim_run [of try_send contents "batcher_new config ch" "[]" ops]
    batch_inv_new [where contents = contents and ch = ch and config = config] assms
  by (simp add: added_append list_all_iff)

subsection \<open>Properties\<close>

text \<open>
  Batching conserves the changes: over a channel that takes every batch, whatever
  sequence of additions, forced flushes, age flushes and task starts and stops a new batcher
  goes through, the batches handed over followed by the pending changes are exactly the added
  changes in order; the batches are numbered 1, 2, 3, and so on, none is empty or larger than
  \<open>max_batch_size\<close>, and fewer than that many changes are pending.
\<close>

theorem batching_conserves:
  assumes "fifo_channel try_send contents" "accepting try_send" "contents ch = []"
  shows "let b = foldl (batch_step try_send) (batcher_new config ch) ops;
             out = contents (bt_channel b)
         in concat (map tb_changes out) @ bt_pending b = added ops
            \<and> map tb_sequence out = map of_nat [1..<Suc (length out)]
            \<and> list_all (\<lambda>x. tb_changes x \<noteq> [] \<and> length (tb_changes x) \<le> max 1 (bc_max_batch_size config)) out
            \<and> length (bt_pending b) < max 1 (bc_max_batch_size config)"
proof -
  have "bt_config (foldl (batch_step try_send) (batcher_new config ch) ops) = config"
    by (induction ops rule: rev_induct) (simp_all, simp add: batcher_new_def)
  then show ?thesis
    using batch_inv_steps [OF assms, of config ops]
    by (auto simp: batch_inv_def batch_size_def list_all_iff Let_def)
qed

text \<open>The unbounded queue as a channel.\<close>

definition queue_send :: "tx_batch list try_send" where
  "queue_send ch x = (True, ch @ [x])"

lemma queue_laws: "fifo_channel queue_send (\<lambda>ch. ch)" "accepting queue_send"
  by (simp_all add: fifo_channel_def accepting_def queue_send_def)

theorem batching_conserves_witness:
  "let b = foldl (batch_step queue_send) (batcher_new (with_max_batch_size 2 batch_config_default) [])
             [Add 0 (change_query 1 0 [] [] None), Add 1 (change_query 2 1 [] [] None),
              Add 2 (change_query 3 2 [] [] None)]
   in concat (map tb_changes (bt_channel b)) @ bt_pending b
        = [change_query 1 0 [] [] None, change_query 2 1 [] [] None, change_query 3 2 [] [] None]"
  using batching_conserves [OF queue_laws, of "[]" "with_max_batch_size 2 batch_config_default"
      "[Add 0 (change_query 1 0 [] [] None), Add 1 (change_query 2 1 [] [] None),
        Add 2 (change_query 3 2 [] [] None)]"]
  by (simp only: Let_def added.simps simp_thms)

text \<open>
  Deterministic latency: after each wake-up of the flush task nothing is pending whose
  batch has reached \<open>max_batch_age\<close>, whatever happened before (no operation interrupted).
\<close>

theorem age_flush_bounds_latency:
  assumes "fifo_channel try_send contents" "accepting try_send" "contents ch = []"
  shows "let b = age_tick try_send now (foldl (batch_step try_send) (batcher_new config ch) ops)
         in bt_pending b = [] \<or> (\<exists>start. bt_start b = Some start \<and> now - start < bc_max_batch_age config)"
proof -
  let ?b = "foldl (batch_step try_send) (batcher_new config ch) ops"
  have inv: "batch_inv contents ?b (added ops)" by (rule batch_inv_steps [OF assms])
  have cfg: "bt_config ?b = config"
    by (induction ops rule: rev_induct) (simp_all, simp add: batcher_new_def)
  have "bt_pending (snd (batcher_flush try_send now ?b)) = []"
    by (auto simp: batcher_flush_def send_batch_def Let_def split_beta)
  then show ?thesis
    using inv cfg by (cases "bt_start ?b") (auto simp: age_tick_def Let_def batch_inv_def pending_count_def)
qed

theorem age_flush_bounds_latency_witness:
  "bt_pending (age_tick queue_send (millis 100)
     (batch_step queue_send (batcher_new batch_config_default []) (Add 0 (change_query 1 0 [] [] None)))) = []"
  using age_flush_bounds_latency [OF queue_laws, of "[]" "millis 100" batch_config_default
      "[Add 0 (change_query 1 0 [] [] None)]"]
  by (auto simp: Let_def age_tick_def batcher_flush_def send_batch_def queue_send_def batcher_add_def
        check_flush_def add_push_def add_mark_def batcher_new_def batch_config_default_def pending_count_def
        has_task_crashed_def)

text \<open>
  A race defeats the age flush: when the flush task runs between the two locked sections
  of \<open>add\<close> (after the start time is marked, before the change is pushed), the change is
  pending with no start time, and no later wake-up of the task flushes it.
\<close>

theorem flush_during_add_stalls:
  assumes "bt_pending b \<noteq> []"
  shows "let b' = add_push c (snd (batcher_flush try_send now (add_mark now b)))
         in bt_pending b' = [c] \<and> bt_start b' = None \<and> foldl (\<lambda>b t. age_tick try_send t b) b' ticks = b'"
proof -
  let ?b' = "add_push c (snd (batcher_flush try_send now (add_mark now b)))"
  have b': "bt_pending ?b' = [c] \<and> bt_start ?b' = None"
    using assms by (simp add: add_mark_def add_push_def batcher_flush_def send_batch_def Let_def split_beta)
  then have "age_tick try_send t ?b' = ?b'" for t
    by (simp add: age_tick_def)
  then have "foldl (\<lambda>b t. age_tick try_send t b) ?b' ticks = ?b'"
    by (induction ticks) simp_all
  with b' show ?thesis by (simp add: Let_def)
qed

theorem flush_during_add_stalls_witness:
  "let b = (batcher_new batch_config_default [])\<lparr>bt_pending := [change_query 1 0 [] [] None], bt_start := Some 0\<rparr>;
       b' = add_push (change_query 2 0 [] [] None) (snd (batcher_flush queue_send 200 (add_mark 200 b)))
   in bt_pending b' = [change_query 2 0 [] [] None] \<and> age_tick queue_send (secs 3600) b' = b'"
  using flush_during_add_stalls
    [of "(batcher_new batch_config_default [])\<lparr>bt_pending := [change_query 1 0 [] [] None], bt_start := Some 0\<rparr>"
        "change_query 2 0 [] [] None" queue_send 200 "[secs 3600]"]
  by (simp add: Let_def)

lemma receiverless_add:
  assumes "receiverless try_send (bt_channel b)" "bc_enabled (bt_config b)" "\<not> bt_crashed b"
  shows "let b' = snd (batcher_add try_send now c b)
         in bt_channel b' = bt_channel b \<and> bt_config b' = bt_config b \<and> \<not> bt_crashed b'
            \<and> bt_pending b' = (if bc_max_batch_size (bt_config b) \<le> length (bt_pending b) + 1 then []
                               else bt_pending b @ [c])"
  using assms
  by (auto simp: batcher_add_def has_task_crashed_def Let_def check_flush_def batcher_flush_def
        send_batch_def receiverless_def add_push_def add_mark_def)

lemma receiverless_adds:
  assumes "receiverless try_send ch" "bc_enabled config"
  shows "let n = max 1 (bc_max_batch_size config);
             b = foldl (\<lambda>b (now, c). snd (batcher_add try_send now c b))
                   (start_background_flush_task (batcher_new config ch)) tcs
         in bt_channel b = ch \<and> bt_config b = config \<and> \<not> bt_crashed b
            \<and> bt_pending b = drop (length tcs - length tcs mod n) (map snd tcs)"
proof (induction tcs rule: rev_induct)
  case Nil
  show ?case by (simp add: start_background_flush_task_def batcher_new_def)
next
  case (snoc tc tcs)
  obtain now c where tc: "tc = (now, c)" by force
  define n where "n = max 1 (bc_max_batch_size config)"
  let ?b = "foldl (\<lambda>b (now, c). snd (batcher_add try_send now c b))
              (start_background_flush_task (batcher_new config ch)) tcs"
  have IH: "bt_channel ?b = ch" "bt_config ?b = config" "\<not> bt_crashed ?b"
    "bt_pending ?b = drop (length tcs - length tcs mod n) (map snd tcs)"
    using snoc by (simp_all add: Let_def n_def)
  have len: "length (bt_pending ?b) = length tcs mod n"
    using IH(4) by (simp add: diff_diff_cancel mod_less_eq_dividend)
  have lt: "length tcs mod n < n" by (rule mod_less_divisor) (simp add: n_def)
  then have step: "Suc (length tcs) mod n = (if n \<le> length tcs mod n + 1 then 0 else length tcs mod n + 1)"
    by (simp add: mod_Suc)
  have full: "bc_max_batch_size config \<le> length (bt_pending ?b) + 1 \<longleftrightarrow> n \<le> length tcs mod n + 1"
    using len by (auto simp: n_def)
  have room: "drop (Suc (length tcs) - Suc (length tcs) mod n) (map snd (tcs @ [tc])) = bt_pending ?b @ [c]"
    if "\<not> n \<le> length tcs mod n + 1"
    using that by (simp only: step if_False IH(4)) (simp add: tc mod_less_eq_dividend)
  have add: "let b' = snd (batcher_add try_send now c ?b)
      in bt_channel b' = ch \<and> bt_config b' = config \<and> \<not> bt_crashed b'
         \<and> bt_pending b' = (if n \<le> length tcs mod n + 1 then [] else bt_pending ?b @ [c])"
    using receiverless_add [of try_send ?b now c] assms IH(1-3) full by simp
  show ?case
    unfolding Let_def n_def [symmetric]
    using add room step
    by (cases "n \<le> length tcs mod n + 1") (simp_all add: tc Let_def)
qed

text \<open>
  The batching sync manager records every change in the sync manager but delivers no
  batch: its channel has lost its receiver at construction, so every full batch is refused
  and dropped, the channel stays as it was created, and only the incomplete last batch is
  still pending.
\<close>


theorem batching_manager_loses_batches:
  fixes closed_channel :: "nat \<Rightarrow> 'ch"
  assumes "receiverless try_send (closed_channel 100)" "bc_enabled config"
  shows "let g = foldl (\<lambda>g (now, c). batching_record_change try_send now g c)
                   (batching_manager_new closed_channel (sm :: 'id sync_manager) config) tcs
         in bm_sync g = record_all sm (map snd tcs)
            \<and> bt_channel (bm_batcher g) = closed_channel 100
            \<and> bt_pending (bm_batcher g)
                = drop (length tcs - length tcs mod max 1 (bc_max_batch_size config)) (map snd tcs)"
proof -
  have "bm_sync (foldl (\<lambda>g (now, c). batching_record_change try_send now g c) g tcs) = record_all (bm_sync g) (map snd tcs)
     \<and> bm_batcher (foldl (\<lambda>g (now, c). batching_record_change try_send now g c) g tcs)
        = foldl (\<lambda>b (now, c). snd (batcher_add try_send now c b)) (bm_batcher g) tcs" for g :: "('id, 'ch) batching_manager"
    by (induction tcs arbitrary: g) (simp_all add: batching_record_change_def split_beta)
  then show ?thesis
    using receiverless_adds [OF assms, of tcs] by (simp add: batching_manager_new_def Let_def)
qed

theorem batching_manager_loses_batches_witness:
  "let g = foldl (\<lambda>g (now, c). batching_record_change (\<lambda>ch x. (False, ch)) now g c)
             (batching_manager_new (\<lambda>n. ()) (sync_manager_new 10 :: nat sync_manager)
                (with_max_batch_size 2 batch_config_default))
             [(0, change_query 1 0 [] [] None), (1, change_query 2 1 [] [] None)]
   in bt_pending (bm_batcher g) = [] \<and> bt_channel (bm_batcher g) = ()"
  using batching_manager_loses_batches
    [of "\<lambda>ch x. (False, ch)" "\<lambda>n. ()" "with_max_batch_size 2 batch_config_default"
        "sync_manager_new 10 :: nat sync_manager"
        "[(0, change_query 1 0 [] [] None), (1, change_query 2 1 [] [] None)]"]
  by (simp add: receiverless_def with_max_batch_size_def batch_config_default_def Let_def)

text \<open>With batching disabled \<open>add\<close> reports a flush also when the channel refused the batch.\<close>

lemma disabled_add_reports_flush:
  "\<not> bc_enabled (bt_config b) \<Longrightarrow> fst (batcher_add try_send now c b) = True"
  by (simp add: batcher_add_def Let_def try_restart_task_def)

text \<open>No operation ever puts a batch into the ready list.\<close>

lemma ready_batch_count_const: "ready_batch_count (batch_step try_send b op) = ready_batch_count b"
  by (cases op)
     (simp_all add: ready_batch_count_def batcher_add_def check_flush_def force_flush_def age_tick_def
        batcher_flush_def send_batch_def Let_def split_beta try_restart_task_def add_push_def add_mark_def
        start_background_flush_task_def task_exit_def batcher_shutdown_def split: option.split)

end
