(* ===== verification/Notify.thy ===== *)
theory Notify
  imports Change Error_Types
begin

section \<open>Change notification (\<open>src/notify.rs\<close>)\<close>

text \<open>
  The event bus: subscribers with their filters, numbered by \<open>subscribe\<close>, and the
  observer that publishes local and synced changes. A subscriber's channel is tokio's broadcast
  channel: \<open>channel\<close> creates one (\<open>None\<close> where it panics),
  \<open>send\<close> puts an event into it and answers whether a receiver is left. Clocks are
  arguments.
\<close>

datatype change_event_type = EventSet | EventDelete | EventBatch

definition event_type_display :: "change_event_type \<Rightarrow> string" where
  "event_type_display t =
     (case t of EventSet \<Rightarrow> ''set'' | EventDelete \<Rightarrow> ''delete'' | EventBatch \<Rightarrow> ''batch'')"

record 'id change_event =
  ev_type :: change_event_type
  ev_change :: change
  ev_source_peer :: "'id option"
  ev_sequence :: u64
  ev_timestamp_secs :: u64

definition change_event_new :: "int \<Rightarrow> change_event_type \<Rightarrow> change \<Rightarrow> u64 \<Rightarrow> 'id change_event" where
  "change_event_new now t c seq =
     \<lparr>ev_type = t, ev_change = c, ev_source_peer = None, ev_sequence = seq,
      ev_timestamp_secs = current_timestamp_secs now\<rparr>"

definition event_type_of :: "change_operation \<Rightarrow> change_event_type" where
  "event_type_of op = (case op of OpSet \<Rightarrow> EventSet | OpDelete \<Rightarrow> EventDelete | _ \<Rightarrow> EventSet)"

definition change_event_from_sync :: "int \<Rightarrow> change \<Rightarrow> u64 \<Rightarrow> 'id \<Rightarrow> 'id change_event" where
  "change_event_from_sync now c seq peer =
     \<lparr>ev_type = event_type_of (ch_operation c), ev_change = c, ev_source_peer = Some peer,
      ev_sequence = seq, ev_timestamp_secs = current_timestamp_secs now\<rparr>"

record subscription_filter =
  sf_namespaces :: "string list option"
  sf_databases :: "string list option"

definition filter_everything :: subscription_filter where
  "filter_everything = \<lparr>sf_namespaces = None, sf_databases = None\<rparr>"

definition push_opt :: "'a \<Rightarrow> 'a list option \<Rightarrow> 'a list option" where
  "push_opt x v = Some (case v of Some xs \<Rightarrow> xs @ [x] | None \<Rightarrow> [x])"

definition with_namespace :: "string \<Rightarrow> subscription_filter \<Rightarrow> subscription_filter" where
  "with_namespace ns f = f\<lparr>sf_namespaces := push_opt ns (sf_namespaces f)\<rparr>"

definition with_database :: "string \<Rightarrow> subscription_filter \<Rightarrow> subscription_filter" where
  "with_database db f = f\<lparr>sf_databases := push_opt db (sf_databases f)\<rparr>"

definition filter_matches :: "subscription_filter \<Rightarrow> 'id change_event \<Rightarrow> bool" where
  "filter_matches f e =
     (case sf_namespaces f of
        Some nss \<Rightarrow>
          if \<not> List.member nss (ch_namespace (ev_change e)) then False
          else (case sf_databases f of
                  Some dbs \<Rightarrow> List.member dbs (ch_database (ev_change e))
                | None \<Rightarrow> True)
      | None \<Rightarrow>
          (case sf_databases f of
             Some dbs \<Rightarrow> List.member dbs (ch_database (ev_change e))
           | None \<Rightarrow> True))"

record 'tx subscriber =
  sb_filter :: subscription_filter
  sb_sender :: 'tx

record 'rx subscription =
  sp_id :: u64
  sp_filter :: subscription_filter
  sp_rx :: 'rx

text \<open>Receiving; any error of the channel, also a lag, becomes \<open>None\<close>.\<close>

definition subscription_recv :: "('rx \<Rightarrow> (string + 'e) \<times> 'rx) \<Rightarrow> 'rx subscription \<Rightarrow> 'e option \<times> 'rx subscription" where
  "subscription_recv rx_recv s =
     (let (r, rx) = rx_recv (sp_rx s)
      in (case r of Inl _ \<Rightarrow> None | Inr e \<Rightarrow> Some e, s\<lparr>sp_rx := rx\<rparr>))"

record 'tx notifier =
  nf_subscribers :: "(u64, 'tx subscriber) fmap"
  nf_sequence :: u64
  nf_buffer_size :: nat

definition notifier_new :: "nat \<Rightarrow> 'tx notifier" where
  "notifier_new buffer_size = \<lparr>nf_subscribers = fmempty, nf_sequence = 0, nf_buffer_size = buffer_size\<rparr>"

definition notifier_default :: "'tx notifier" where
  "notifier_default = notifier_new 100"

definition subscriber_count :: "'tx notifier \<Rightarrow> nat" where
  "subscriber_count n = fmsize (nf_subscribers n)"

definition subscribe ::
  "(nat \<Rightarrow> ('tx \<times> 'rx) option) \<Rightarrow> subscription_filter \<Rightarrow> 'tx notifier
     \<Rightarrow> (error, 'rx subscription) outcome \<times> 'tx notifier" where
  "subscribe channel f n =
     (case channel (nf_buffer_size n) of
        None \<Rightarrow> (Panic, n)
      | Some (tx, rx) \<Rightarrow>
          let sid = of_nat (subscriber_count n) + 1
          in (Ok \<lparr>sp_id = sid, sp_filter = f, sp_rx = rx\<rparr>,
              n\<lparr>nf_subscribers := fmupd sid \<lparr>sb_filter = f, sb_sender = tx\<rparr> (nf_subscribers n)\<rparr>))"

definition unsubscribe :: "u64 \<Rightarrow> 'tx notifier \<Rightarrow> 'tx notifier" where
  "unsubscribe sid n = n\<lparr>nf_subscribers := fmdrop sid (nf_subscribers n)\<rparr>"

text \<open>The loop over the subscribers sends to each sender once, in any order.\<close>

definition notify :: "('tx \<Rightarrow> 'id change_event \<Rightarrow> bool \<times> 'tx) \<Rightarrow> 'id change_event \<Rightarrow> 'tx notifier \<Rightarrow> 'tx notifier" where
  "notify send event n =
     n\<lparr>nf_subscribers := fmmap (\<lambda>e. e\<lparr>sb_sender := snd (send (sb_sender e) event)\<rparr>) (nf_subscribers n)\<rparr>"

definition notify_sync ::
  "('tx \<Rightarrow> 'id change_event \<Rightarrow> bool \<times> 'tx) \<Rightarrow> int \<Rightarrow> change \<Rightarrow> 'id \<Rightarrow> 'tx notifier \<Rightarrow> 'tx notifier" where
  "notify_sync send now c peer n = notify send (change_event_from_sync now c 0 peer) n"

definition inc_sequence :: "'tx notifier \<Rightarrow> u64 \<times> 'tx notifier" where
  "inc_sequence n = (nf_sequence n + 1, n\<lparr>nf_sequence := nf_sequence n + 1\<rparr>)"

text \<open>The observer owns a notifier with a buffer of 100 events.\<close>

definition observer_new :: "'tx notifier" where
  "observer_new = notifier_new 100"

definition notify_local ::
  "('tx \<Rightarrow> 'id change_event \<Rightarrow> bool \<times> 'tx) \<Rightarrow> int \<Rightarrow> change \<Rightarrow> 'tx notifier \<Rightarrow> 'tx notifier" where
  "notify_local send now c n =
     (let (seq, n1) = inc_sequence n
      in notify send
           \<lparr>ev_type = event_type_of (ch_operation c), ev_change = c, ev_source_peer = None,
            ev_sequence = seq, ev_timestamp_secs = current_timestamp_secs now\<rparr> n1)"

subsection \<open>Lemmas\<close>

lemma filter_matches_iff:
  "filter_matches f e \<longleftrightarrow>
     (case sf_namespaces f of Some nss \<Rightarrow> ch_namespace (ev_change e) \<in> set nss | None \<Rightarrow> True)
     \<and> (case sf_databases f of Some dbs \<Rightarrow> ch_database (ev_change e) \<in> set dbs | None \<Rightarrow> True)"
  by (auto simp: filter_matches_def split: option.split)

lemma subscriber_count_notify [simp]: "subscriber_count (notify send e n) = subscriber_count n"
  by (simp add: subscriber_count_def notify_def)

text \<open>Live identifiers \<open>1..n\<close>: what subscribing alone leads to.\<close>

definition ids_upto :: "nat \<Rightarrow> u64 fset" where
  "ids_upto n = fset_of_list (map of_nat [1..<Suc n])"

lemma fset_ids_upto: "fset (ids_upto n) = of_nat ` {1..n}"
  by (auto simp: ids_upto_def fset_of_list.rep_eq)

lemma fcard_ids_upto: "n < 2 ^ 64 \<Longrightarrow> fcard (ids_upto n) = n"
proof -
  assume n: "n < 2 ^ 64"
  have "inj_on (of_nat :: nat \<Rightarrow> u64) {1..n}"
    by (rule inj_on_subset [OF of_nat_u64_inj]) (use n in auto)
  then show ?thesis by (simp add: fcard.rep_eq fset_ids_upto card_image)
qed

lemma ids_upto_Suc: "ids_upto (Suc n) = finsert (of_nat (Suc n)) (ids_upto n)"
  by (auto simp: ids_upto_def fset_of_list.rep_eq simp del: upt_Suc simp: upt_Suc_append)

subsection \<open>Properties\<close>

text \<open>
  Subscribing alone numbers the subscribers: over channels that can be created, \<open>k\<close>
  subscriptions to a new notifier get the identifiers 1 to \<open>k\<close>, all live.
\<close>

theorem subscribe_numbers:
  assumes "\<And>b. channel b \<noteq> None" "length fs < 2 ^ 64"
  shows "let n = foldl (\<lambda>n f. snd (subscribe channel f n)) (notifier_new buf) fs
         in fmdom (nf_subscribers n) = ids_upto (length fs) \<and> subscriber_count n = length fs
            \<and> (\<exists>rx. fst (subscribe channel f n)
                     = Ok \<lparr>sp_id = of_nat (length fs) + 1, sp_filter = f, sp_rx = rx\<rparr>)"
  using assms(2)
proof (induction fs arbitrary: f rule: rev_induct)
  case Nil
  obtain tx rx where "channel buf = Some (tx, rx)" using assms(1) [of buf] by auto
  then show ?case
    by (simp add: notifier_new_def ids_upto_def subscriber_count_def subscribe_def Let_def)
next
  case (snoc g fs)
  let ?n = "foldl (\<lambda>n f. snd (subscribe channel f n)) (notifier_new buf) fs"
  obtain tx rx where ch: "channel (nf_buffer_size ?n) = Some (tx, rx)"
    using assms(1) [of "nf_buffer_size ?n"] by auto
  have IH: "fmdom (nf_subscribers ?n) = ids_upto (length fs)" "subscriber_count ?n = length fs"
    using snoc by (simp_all add: Let_def)
  let ?n' = "snd (subscribe channel g ?n)"
  have dom: "fmdom (nf_subscribers ?n') = ids_upto (Suc (length fs))"
    using ch IH by (simp add: subscribe_def Let_def ids_upto_Suc add.commute)
  then have "subscriber_count ?n' = Suc (length fs)"
    using fcard_ids_upto [of "Suc (length fs)"] snoc.prems by (simp add: subscriber_count_def fmsize_def)
  moreover obtain tx' rx' where "channel (nf_buffer_size ?n') = Some (tx', rx')"
    using assms(1) [of "nf_buffer_size ?n'"] by auto
  ultimately show ?case
    using dom by (simp add: subscribe_def [of _ f] Let_def)
qed

theorem subscribe_numbers_witness:
  "subscriber_count (snd (subscribe (\<lambda>b. Some ((), ())) filter_everything (notifier_new 5))) = 1"
  using subscribe_numbers [of "\<lambda>b. Some ((), ())" "[filter_everything]" 5 filter_everything]
  by (simp add: Let_def)

text \<open>
  Identifiers are reused while live: with the subscribers 1 to \<open>k\<close> live, after
  unsubscribing any \<open>j < k\<close> the next \<open>subscribe\<close> hands out
  \<open>k\<close> again, which replaces the sender of the live subscriber \<open>k\<close> (that
  one receives nothing any more), and the number of subscribers stays \<open>k - 1\<close>.
\<close>

theorem subscribe_overwrites_live:
  assumes "fmdom (nf_subscribers n) = ids_upto k" "k < 2 ^ 64" "0 < j" "j < k"
    and "channel (nf_buffer_size n) = Some (tx, rx)"
  shows "let n1 = unsubscribe (of_nat j) n; (r, n2) = subscribe channel f n1
         in r = Ok \<lparr>sp_id = of_nat k, sp_filter = f, sp_rx = rx\<rparr>
            \<and> fmlookup (nf_subscribers n1) (of_nat k) = fmlookup (nf_subscribers n) (of_nat k)
            \<and> fmlookup (nf_subscribers n) (of_nat k) \<noteq> None
            \<and> fmlookup (nf_subscribers n2) (of_nat k) = Some \<lparr>sb_filter = f, sb_sender = tx\<rparr>
            \<and> subscriber_count n2 = k - 1"
proof -
  let ?n1 = "unsubscribe (of_nat j) n"
  have j: "(of_nat j :: u64) |\<in>| ids_upto k" and k: "(of_nat k :: u64) |\<in>| ids_upto k"
    using assms(3,4) by (auto simp: fset_ids_upto)
  have jk: "(of_nat j :: u64) \<noteq> of_nat k"
    using inj_onD [OF of_nat_u64_inj, of j k] assms(2,4) by auto
  have dom1: "fmdom (nf_subscribers ?n1) = ids_upto k |-| {|of_nat j|}"
    using assms(1) by (simp add: unsubscribe_def)
  then have c1: "subscriber_count ?n1 = k - 1"
    using j fcard_ids_upto [OF assms(2)] by (simp add: subscriber_count_def fmsize_def fcard_fminus_fsingleton)
  then have id: "(of_nat (subscriber_count ?n1) + 1 :: u64) = of_nat k"
    using assms(3,4) by (simp add: of_nat_diff)
  have "of_nat k |\<in>| fmdom (nf_subscribers ?n1)"
    using k jk dom1 by simp
  then have "finsert (of_nat k) (fmdom (nf_subscribers ?n1)) = fmdom (nf_subscribers ?n1)"
    by (rule finsert_absorb)
  then have "subscriber_count (snd (subscribe channel f ?n1)) = k - 1"
    using assms(5) id c1 by (simp add: subscribe_def Let_def subscriber_count_def unsubscribe_def fmsize_def)
  moreover have "fmlookup (nf_subscribers n) (of_nat k) \<noteq> None"
    using k assms(1) by (metis fmdom_notI)
  ultimately show ?thesis
    using assms(5) id jk by (simp add: subscribe_def Let_def unsubscribe_def)
qed

theorem subscribe_overwrites_live_witness:
  "let n = snd (subscribe (\<lambda>b. Some ((), ())) filter_everything
             (snd (subscribe (\<lambda>b. Some ((), ())) filter_everything (notifier_new 5))));
       (r, n2) = subscribe (\<lambda>b. Some ((), ())) filter_everything (unsubscribe (of_nat 1) n)
   in r = Ok \<lparr>sp_id = of_nat 2, sp_filter = filter_everything, sp_rx = ()\<rparr> \<and> subscriber_count n2 = 1"
proof -
  let ?n = "snd (subscribe (\<lambda>b. Some ((), ())) filter_everything
             (snd (subscribe (\<lambda>b. Some ((), ())) filter_everything (notifier_new 5))))"
  have "fmdom (nf_subscribers ?n) = ids_upto 2"
    by (simp add: subscribe_def notifier_new_def Let_def subscriber_count_def ids_upto_def eval_nat_numeral
          finsert_commute)
  from subscribe_overwrites_live [OF this, of 1 "\<lambda>b. Some ((), ())" "()" "()" filter_everything]
  show ?thesis by (simp add: split_beta Let_def)
qed

definition broadcast_fifo :: "('tx \<Rightarrow> 'e \<Rightarrow> bool \<times> 'tx) \<Rightarrow> ('tx \<Rightarrow> 'e list) \<Rightarrow> bool" where
  "broadcast_fifo send contents \<longleftrightarrow> (\<forall>tx e. contents (snd (send tx e)) = contents tx @ [e])"

definition local_event :: "nat \<Rightarrow> int \<times> change \<Rightarrow> 'id change_event" where
  "local_event k tc =
     \<lparr>ev_type = event_type_of (ch_operation (snd tc)), ev_change = snd tc, ev_source_peer = None,
      ev_sequence = of_nat k, ev_timestamp_secs = current_timestamp_secs (fst tc)\<rparr>"

definition local_events :: "(int \<times> change) list \<Rightarrow> 'id change_event list" where
  "local_events tcs = map2 local_event [1..<Suc (length tcs)] tcs"

lemma local_events_snoc: "local_events (tcs @ [tc]) = local_events tcs @ [local_event (Suc (length tcs)) tc]"
proof -
  have "[1..<Suc (length (tcs @ [tc]))] = [1..<Suc (length tcs)] @ [Suc (length tcs)]" by simp
  then show ?thesis by (simp only: local_events_def) (simp del: upt_Suc)
qed

lemma notify_local_eq:
  "nf_sequence n = of_nat k \<Longrightarrow>
     notify_local send (fst tc) (snd tc) n
       = notify send (local_event (Suc k) tc) (n\<lparr>nf_sequence := of_nat (Suc k)\<rparr>)"
  by (simp add: notify_local_def inc_sequence_def local_event_def Let_def add.commute)

text \<open>
  Over channels that keep all they are sent, every local change reaches every subscriber, in order
  and numbered 1, 2, 3, but the filters are not applied: the channel of each subscriber holds all
  the events, also those its filter does not match; a change from a sync is published with
  sequence number 0.
\<close>


theorem notify_ignores_filters:
  assumes "broadcast_fifo send contents" "fmlookup (nf_subscribers n) sid = Some e" "nf_sequence n = 0"
  shows "let n' = foldl (\<lambda>n tc. notify_local send (fst tc) (snd tc) n) n tcs
         in \<exists>e'. fmlookup (nf_subscribers n') sid = Some e' \<and> sb_filter e' = sb_filter e
              \<and> contents (sb_sender e') = contents (sb_sender e)
                  @ local_events tcs
              \<and> nf_sequence n' = of_nat (length tcs)
              \<and> (\<exists>e''. fmlookup (nf_subscribers (notify_sync send now c peer n')) sid = Some e''
                      \<and> contents (sb_sender e'') = contents (sb_sender e')
                          @ [change_event_from_sync now c 0 peer])"
proof -
  have "\<exists>e'. fmlookup (nf_subscribers (foldl (\<lambda>n tc. notify_local send (fst tc) (snd tc) n) n tcs)) sid = Some e'
       \<and> sb_filter e' = sb_filter e
       \<and> contents (sb_sender e') = contents (sb_sender e) @ local_events tcs
       \<and> nf_sequence (foldl (\<lambda>n tc. notify_local send (fst tc) (snd tc) n) n tcs) = of_nat (length tcs)"
  proof (induction tcs rule: rev_induct)
    case Nil
    show ?case using assms(2,3) by (simp add: local_events_def)
  next
    case (snoc tc tcs)
    let ?n = "foldl (\<lambda>n tc. notify_local send (fst tc) (snd tc) n) n tcs"
    obtain e' where e': "fmlookup (nf_subscribers ?n) sid = Some e'" "sb_filter e' = sb_filter e"
      "contents (sb_sender e') = contents (sb_sender e) @ local_events tcs"
      "nf_sequence ?n = of_nat (length tcs)"
      using snoc by blast
    then show ?case
      using assms(1) by (simp add: notify_local_eq notify_def broadcast_fifo_def local_events_snoc)
  qed
  then show ?thesis
    using assms(1) by (auto simp: Let_def notify_sync_def notify_def broadcast_fifo_def)
qed

theorem notify_ignores_filters_witness:
  "let f = with_namespace ''other'' filter_everything;
       n = snd (subscribe (\<lambda>b. Some ([], ())) f (notifier_new 5));
       n' = notify_local (\<lambda>tx e. (True, tx @ [e])) 0 (change_query 1 0 ''ns'' ''db'' None) n
   in \<exists>e. fmlookup (nf_subscribers n') 1 = Some e
        \<and> sb_sender e = [local_event 1 (0, change_query 1 0 ''ns'' ''db'' None) :: nat change_event]
        \<and> \<not> filter_matches (sb_filter e) (local_event 1 (0, change_query 1 0 ''ns'' ''db'' None) :: nat change_event)"
proof -
  let ?f = "with_namespace ''other'' filter_everything"
  let ?n = "snd (subscribe (\<lambda>b. Some ([] :: nat change_event list, ())) ?f (notifier_new 5))"
  have "broadcast_fifo (\<lambda>tx e. (True, tx @ [e])) (\<lambda>tx :: nat change_event list. tx)"
    by (simp add: broadcast_fifo_def)
  moreover have "fmlookup (nf_subscribers ?n) 1 = Some \<lparr>sb_filter = ?f, sb_sender = []\<rparr>" "nf_sequence ?n = 0"
    by (simp_all add: subscribe_def Let_def notifier_new_def subscriber_count_def)
  ultimately have "\<exists>e. fmlookup (nf_subscribers (notify_local (\<lambda>tx e. (True, tx @ [e])) 0
        (change_query 1 0 ''ns'' ''db'' None) ?n)) 1 = Some e \<and> sb_filter e = ?f
      \<and> sb_sender e = local_events [(0, change_query 1 0 ''ns'' ''db'' None)]"
    using notify_ignores_filters [of "\<lambda>tx e. (True, tx @ [e])" "\<lambda>tx :: nat change_event list. tx" ?n 1
        "\<lparr>sb_filter = ?f, sb_sender = []\<rparr>" "[(0, change_query 1 0 ''ns'' ''db'' None)]"]
    unfolding Let_def by fastforce
  moreover have "\<not> filter_matches ?f (local_event 1 (0, change_query 1 0 ''ns'' ''db'' None))"
    by (simp add: filter_matches_iff with_namespace_def filter_everything_def push_opt_def local_event_def
          change_query_def)
  ultimately show ?thesis
    unfolding Let_def by (auto simp: local_events_def)
qed

end
