(* ===== verification/Pool.thy ===== *)
theory Pool
  imports Config Error_Types
begin

section \<open>The connection pool (\<open>src/pool.rs\<close>)\<close>

text \<open>
  Connections to peers kept for reuse. A connection is a type parameter with the peer it leads to;
  instants are nanoseconds, given to the operations that read the clock; \<open>connect\<close> is
  the outcome of the attempt to connect. \<open>get_connection\<close> is written in its two
  locked sections with the attempt in between. Where the code iterates the table,
  \<open>kvs\<close> is the order.
\<close>

record 'c pooled_connection =
  pc_connection :: 'c
  pc_created_at :: nat
  pc_last_used :: nat
  pc_use_count :: u64
  pc_in_use :: bool
  pc_marked_closed :: bool

definition pooled_new :: "nat \<Rightarrow> 'c \<Rightarrow> 'c pooled_connection" where
  "pooled_new now c =
     \<lparr>pc_connection = c, pc_created_at = now, pc_last_used = now, pc_use_count = 0,
      pc_in_use = False, pc_marked_closed = False\<rparr>"

definition mark_used :: "nat \<Rightarrow> 'c pooled_connection \<Rightarrow> 'c pooled_connection" where
  "mark_used now p = p\<lparr>pc_last_used := now, pc_use_count := pc_use_count p + 1, pc_in_use := True\<rparr>"

definition mark_released :: "'c pooled_connection \<Rightarrow> 'c pooled_connection" where
  "mark_released p = p\<lparr>pc_in_use := False\<rparr>"

definition mark_closed :: "'c pooled_connection \<Rightarrow> 'c pooled_connection" where
  "mark_closed p = p\<lparr>pc_marked_closed := True\<rparr>"

definition pooled_age :: "nat \<Rightarrow> 'c pooled_connection \<Rightarrow> duration" where
  "pooled_age now p = now - pc_created_at p"

record pool_config =
  po_max_connections :: nat
  po_max_age :: duration
  po_max_idle :: duration
  po_max_uses :: u64
  po_health_check_interval :: duration

definition pool_config_default :: pool_config where
  "pool_config_default =
     \<lparr>po_max_connections = 10, po_max_age = secs 3600, po_max_idle = secs 300, po_max_uses = 100,
      po_health_check_interval = secs 60\<rparr>"

definition with_max_connections :: "nat \<Rightarrow> pool_config \<Rightarrow> pool_config" where
  "with_max_connections n c = c\<lparr>po_max_connections := n\<rparr>"

definition with_max_age :: "duration \<Rightarrow> pool_config \<Rightarrow> pool_config" where
  "with_max_age a c = c\<lparr>po_max_age := a\<rparr>"

definition with_max_idle :: "duration \<Rightarrow> pool_config \<Rightarrow> pool_config" where
  "with_max_idle i c = c\<lparr>po_max_idle := i\<rparr>"

definition with_max_uses :: "u64 \<Rightarrow> pool_config \<Rightarrow> pool_config" where
  "with_max_uses u c = c\<lparr>po_max_uses := u\<rparr>"

record 'c pool =
  pl_config :: pool_config
  pl_connections :: "(string, 'c pooled_connection) fmap"

definition pool_new :: "pool_config \<Rightarrow> 'c pool" where
  "pool_new config = \<lparr>pl_config = config, pl_connections = fmempty\<rparr>"

definition pool_len :: "'c pool \<Rightarrow> nat" where
  "pool_len p = fmsize (pl_connections p)"

definition pool_is_empty :: "'c pool \<Rightarrow> bool" where
  "pool_is_empty p \<longleftrightarrow> pool_len p = 0"

subsection \<open>Getting a connection\<close>

definition is_connection_healthy :: "nat \<Rightarrow> pool_config \<Rightarrow> 'c pooled_connection \<Rightarrow> bool" where
  "is_connection_healthy now cfg p =
     (if pc_marked_closed p then False
      else if pooled_age now p > po_max_age cfg then False
      else if now - pc_last_used p > po_max_idle cfg then False
      else if 0 < po_max_uses cfg \<and> po_max_uses cfg \<le> pc_use_count p then False
      else True)"

definition pool_reuse :: "nat \<Rightarrow> string \<Rightarrow> 'c pool \<Rightarrow> ('c \<times> 'c pool) option" where
  "pool_reuse now key p =
     (case fmlookup (pl_connections p) key of
        Some c \<Rightarrow>
          if \<not> pc_marked_closed c \<and> \<not> pc_in_use c \<and> is_connection_healthy now (pl_config p) c then
            Some (pc_connection c, p\<lparr>pl_connections := fmupd key (mark_used now c) (pl_connections p)\<rparr>)
          else None
      | None \<Rightarrow> None)"

text \<open>\<open>min_by_key\<close> yields the first of the oldest unused connections.\<close>

fun oldest_of :: "(string \<times> 'c pooled_connection) list \<Rightarrow> (string \<times> 'c pooled_connection) option" where
  "oldest_of [] = None"
| "oldest_of (kp # kvs) =
     (case oldest_of kvs of
        None \<Rightarrow> Some kp
      | Some kq \<Rightarrow> Some (if pc_created_at (snd kp) \<le> pc_created_at (snd kq) then kp else kq))"

definition find_oldest_unused_connection :: "(string \<times> 'c pooled_connection) list \<Rightarrow> string option" where
  "find_oldest_unused_connection kvs = map_option fst (oldest_of (filter (\<lambda>(k, p). \<not> pc_in_use p) kvs))"

definition pool_insert :: "(string \<times> 'c pooled_connection) list \<Rightarrow> nat \<Rightarrow> string \<Rightarrow> 'c \<Rightarrow> 'c pool \<Rightarrow> 'c pool" where
  "pool_insert kvs now key conn p =
     (let conns =
        (if po_max_connections (pl_config p) \<le> fmsize (pl_connections p) then
           (case find_oldest_unused_connection kvs of
              Some oldest \<Rightarrow> fmdrop oldest (pl_connections p)
            | None \<Rightarrow> pl_connections p)
         else pl_connections p)
      in p\<lparr>pl_connections := fmupd key (mark_used now (pooled_new now conn)) conns\<rparr>)"

definition get_connection ::
  "('id \<Rightarrow> string) \<Rightarrow> ('c \<Rightarrow> 'id) \<Rightarrow> string + 'c \<Rightarrow> (string \<times> 'c pooled_connection) list
     \<Rightarrow> nat \<Rightarrow> 'id \<Rightarrow> 'c pool \<Rightarrow> (string, 'c \<times> 'id) outcome \<times> 'c pool" where
  "get_connection id_text remote_id connect kvs now pid p =
     (case pool_reuse now (id_text pid) p of
        Some (conn, p') \<Rightarrow> (Ok (conn, remote_id conn), p')
      | None \<Rightarrow>
          (case connect of
             Inl e \<Rightarrow> (Err e, p)
           | Inr conn \<Rightarrow> (Ok (conn, remote_id conn), pool_insert kvs now (id_text pid) conn p)))"

subsection \<open>The other operations\<close>

definition pool_release :: "('id \<Rightarrow> string) \<Rightarrow> nat \<Rightarrow> 'id \<Rightarrow> 'c pool \<Rightarrow> 'c pool" where
  "pool_release id_text now pid p =
     (case fmlookup (pl_connections p) (id_text pid) of
        Some c \<Rightarrow>
          p\<lparr>pl_connections := fmupd (id_text pid) ((mark_released c)\<lparr>pc_last_used := now\<rparr>) (pl_connections p)\<rparr>
      | None \<Rightarrow> p)"

definition pool_remove :: "('id \<Rightarrow> string) \<Rightarrow> 'id \<Rightarrow> 'c pool \<Rightarrow> 'c pool" where
  "pool_remove id_text pid p = p\<lparr>pl_connections := fmdrop (id_text pid) (pl_connections p)\<rparr>"

text \<open>\<open>retain\<close>: what is dropped is marked closed first, which nobody can see any more.\<close>

definition pool_keep :: "nat \<Rightarrow> pool_config \<Rightarrow> 'c pooled_connection \<Rightarrow> bool \<times> 'c pooled_connection" where
  "pool_keep now cfg c =
     (if is_connection_healthy now cfg c \<and> \<not> pc_in_use c then (True, c) else (False, mark_closed c))"

definition pool_cleanup :: "nat \<Rightarrow> 'c pool \<Rightarrow> 'c pool" where
  "pool_cleanup now p =
     p\<lparr>pl_connections :=
        fmfilter (\<lambda>k. case fmlookup (pl_connections p) k of
                        Some c \<Rightarrow> fst (pool_keep now (pl_config p) c)
                      | None \<Rightarrow> False) (pl_connections p)\<rparr>"

record pool_stats =
  pt_active_connections :: nat
  pt_in_use_connections :: nat
  pt_max_connections :: nat
  pt_total_uses :: u64
  pt_oldest_connection_age :: duration

definition pool_statistics :: "(string \<times> 'c pooled_connection) list \<Rightarrow> nat \<Rightarrow> 'c pool \<Rightarrow> pool_stats" where
  "pool_statistics kvs now p =
     \<lparr>pt_active_connections = pool_len p,
      pt_in_use_connections = length (filter (\<lambda>(k, c). pc_in_use c) kvs),
      pt_max_connections = po_max_connections (pl_config p),
      pt_total_uses = sum_list (map (\<lambda>(k, c). pc_use_count c) kvs),
      pt_oldest_connection_age = fold max (map (\<lambda>(k, c). pooled_age now c) kvs) 0\<rparr>"

subsection \<open>Lemmas\<close>

lemma oldest_of_None [simp]: "oldest_of kvs = None \<longleftrightarrow> kvs = []"
  by (cases kvs) (auto split: option.splits)

lemma oldest_of_Some:
  "oldest_of kvs = Some kp \<Longrightarrow> kp \<in> set kvs \<and> (\<forall>kq \<in> set kvs. pc_created_at (snd kp) \<le> pc_created_at (snd kq))"
  by (induction kvs arbitrary: kp) (auto split: option.splits if_splits dest: leD intro: order_trans)

lemma find_oldest_Some:
  assumes "lists_entries kvs m" "find_oldest_unused_connection kvs = Some k"
  shows "\<exists>c. fmlookup m k = Some c \<and> \<not> pc_in_use c
     \<and> (\<forall>k' c'. fmlookup m k' = Some c' \<and> \<not> pc_in_use c' \<longrightarrow> pc_created_at c \<le> pc_created_at c')"
proof -
  obtain kp where kp: "oldest_of (filter (\<lambda>(k, p). \<not> pc_in_use p) kvs) = Some kp" "k = fst kp"
    using assms(2) by (auto simp: find_oldest_unused_connection_def)
  from oldest_of_Some [OF kp(1)] show ?thesis
    using kp(2) lists_entries_iff [OF assms(1)] by (cases kp) force
qed

lemma find_oldest_None:
  assumes "lists_entries kvs m"
  shows "find_oldest_unused_connection kvs = None \<longleftrightarrow> (\<forall>k c. fmlookup m k = Some c \<longrightarrow> pc_in_use c)"
proof -
  have "find_oldest_unused_connection kvs = None \<longleftrightarrow> (\<forall>(k, c) \<in> set kvs. pc_in_use c)"
    by (auto simp: find_oldest_unused_connection_def filter_empty_conv)
  also have "\<dots> \<longleftrightarrow> (\<forall>k c. (k, c) \<in> set kvs \<longrightarrow> pc_in_use c)" by auto
  finally show ?thesis by (simp add: lists_entries_iff [OF assms])
qed

lemma mark_used_simps [simp]:
  "pc_in_use (mark_used now c)" "pc_connection (mark_used now c) = pc_connection c"
  "pc_use_count (mark_used now c) = pc_use_count c + 1" "pc_last_used (mark_used now c) = now"
  "pc_created_at (mark_used now c) = pc_created_at c" "pc_marked_closed (mark_used now c) = pc_marked_closed c"
  by (simp_all add: mark_used_def)

lemma pooled_new_simps [simp]:
  "pc_connection (pooled_new now c) = c" "pc_use_count (pooled_new now c) = 0"
  "pc_created_at (pooled_new now c) = now" "\<not> pc_marked_closed (pooled_new now c)"
  by (simp_all add: pooled_new_def)

lemma pool_reuse_Some:
  "pool_reuse now key p = Some (conn, p') \<longleftrightarrow>
     (\<exists>c. fmlookup (pl_connections p) key = Some c \<and> \<not> pc_marked_closed c \<and> \<not> pc_in_use c
        \<and> is_connection_healthy now (pl_config p) c \<and> conn = pc_connection c
        \<and> p' = p\<lparr>pl_connections := fmupd key (mark_used now c) (pl_connections p)\<rparr>)"
  by (auto simp: pool_reuse_def split: option.splits if_splits)

lemma is_connection_healthy_iff:
  "is_connection_healthy now cfg c \<longleftrightarrow>
     \<not> pc_marked_closed c \<and> now - pc_created_at c \<le> po_max_age cfg \<and> now - pc_last_used c \<le> po_max_idle cfg
     \<and> (po_max_uses cfg = 0 \<or> pc_use_count c < po_max_uses cfg)"
  by (auto simp: is_connection_healthy_def pooled_age_def not_le word_gt_0)

subsection \<open>The pool shared by its users\<close>

text \<open>
  The atomic steps of the pool are its locked sections: the two of \<open>get_connection\<close>, which
  other users' steps may separate, and one for each other operation. \<open>iter\<close> is the order in
  which the table is iterated.
\<close>

datatype ('id, 'c) pool_op =
    TryReuse nat 'id
  | Connected nat 'id 'c
  | ReleaseConn nat 'id
  | RemoveConn 'id
  | Cleanup nat

fun pool_step ::
  "('id \<Rightarrow> string) \<Rightarrow> ((string, 'c pooled_connection) fmap \<Rightarrow> (string \<times> 'c pooled_connection) list)
     \<Rightarrow> 'c pool \<Rightarrow> ('id, 'c) pool_op \<Rightarrow> 'c pool" where
  "pool_step id_text iter p (TryReuse now pid) =
     (case pool_reuse now (id_text pid) p of Some (conn, p') \<Rightarrow> p' | None \<Rightarrow> p)"
| "pool_step id_text iter p (Connected now pid conn) =
     pool_insert (iter (pl_connections p)) now (id_text pid) conn p"
| "pool_step id_text iter p (ReleaseConn now pid) = pool_release id_text now pid p"
| "pool_step id_text iter p (RemoveConn pid) = pool_remove id_text pid p"
| "pool_step id_text iter p (Cleanup now) = pool_cleanup now p"

text \<open>Connecting to a peer yields a connection to that peer.\<close>

fun leads_to_peer :: "('c \<Rightarrow> 'id) \<Rightarrow> ('id, 'c) pool_op \<Rightarrow> bool" where
  "leads_to_peer remote_id (Connected now pid conn) \<longleftrightarrow> remote_id conn = pid"
| "leads_to_peer remote_id op \<longleftrightarrow> True"

definition entry_typed ::
  "('id \<Rightarrow> string) \<Rightarrow> ('c \<Rightarrow> 'id) \<Rightarrow> pool_config \<Rightarrow> string \<Rightarrow> 'c pooled_connection \<Rightarrow> bool" where
  "entry_typed id_text remote_id cfg k c \<longleftrightarrow>
     id_text (remote_id (pc_connection c)) = k \<and> \<not> pc_marked_closed c
     \<and> (po_max_uses cfg \<noteq> 0 \<longrightarrow> pc_use_count c \<le> po_max_uses cfg)"

definition pool_typed :: "('id \<Rightarrow> string) \<Rightarrow> ('c \<Rightarrow> 'id) \<Rightarrow> 'c pool \<Rightarrow> bool" where
  "pool_typed id_text remote_id p \<longleftrightarrow>
     (\<forall>k c. fmlookup (pl_connections p) k = Some c \<longrightarrow> entry_typed id_text remote_id (pl_config p) k c)"

lemma pool_typed_new [simp]:
  "pool_typed id_text remote_id (pool_new config)" "pl_config (pool_new config) = config"
  by (simp_all add: pool_typed_def pool_new_def)

lemma pool_typedD:
  "pool_typed id_text remote_id p \<Longrightarrow> fmlookup (pl_connections p) k = Some c \<Longrightarrow>
     entry_typed id_text remote_id (pl_config p) k c"
  by (simp add: pool_typed_def)

lemma pool_typed_upd:
  assumes "pool_typed id_text remote_id p" "entry_typed id_text remote_id (pl_config p) k c"
  shows "pool_typed id_text remote_id (p\<lparr>pl_connections := fmupd k c (pl_connections p)\<rparr>)"
  using assms by (simp add: pool_typed_def)

lemma pool_typed_drop:
  "pool_typed id_text remote_id p \<Longrightarrow> pool_typed id_text remote_id (p\<lparr>pl_connections := fmdrop k (pl_connections p)\<rparr>)"
  by (simp add: pool_typed_def)

lemma use_below_limit: "m \<noteq> 0 \<Longrightarrow> (m = 0 \<or> u < m) \<Longrightarrow> u + 1 \<le> (m :: u64)"
  by (simp add: inc_le)

lemma pool_typed_reuse:
  assumes typed: "pool_typed id_text remote_id p" and "pool_reuse now key p = Some (conn, p')"
  shows "pool_typed id_text remote_id p' \<and> id_text (remote_id conn) = key \<and> pl_config p' = pl_config p"
proof -
  from assms(2) obtain c where c: "fmlookup (pl_connections p) key = Some c"
    "is_connection_healthy now (pl_config p) c" "conn = pc_connection c"
    "p' = p\<lparr>pl_connections := fmupd key (mark_used now c) (pl_connections p)\<rparr>"
    unfolding pool_reuse_Some by blast
  have "entry_typed id_text remote_id (pl_config p) key c" by (rule pool_typedD [OF typed c(1)])
  moreover from this have "entry_typed id_text remote_id (pl_config p) key (mark_used now c)"
    using c(2) use_below_limit by (auto simp: entry_typed_def is_connection_healthy_iff)
  ultimately show ?thesis
    using c(3,4) pool_typed_upd [OF typed, of key "mark_used now c"] by (simp add: entry_typed_def)
qed

lemma pool_typed_insert:
  assumes "pool_typed id_text remote_id p" "id_text (remote_id conn) = key"
  shows "pool_typed id_text remote_id (pool_insert kvs now key conn p)
     \<and> pl_config (pool_insert kvs now key conn p) = pl_config p"
proof -
  have "entry_typed id_text remote_id (pl_config p) key (mark_used now (pooled_new now conn))"
    using assms(2) by (simp add: entry_typed_def word_le_nat_alt unat_eq_zero Suc_le_eq)
      (metis gr0I unat_eq_zero)
  then show ?thesis
    using assms(1) by (auto simp: pool_typed_def pool_insert_def Let_def split: option.splits)
qed

interpretation shared: machine "pool_step id_text iter"
    "\<lambda>p. pool_typed id_text remote_id p \<and> pl_config p = config" "leads_to_peer remote_id"
proof unfold_locales
  fix p and op :: "('a, 'b) pool_op"
  assume p: "pool_typed id_text remote_id p \<and> pl_config p = config" and op: "leads_to_peer remote_id op"
  show "pool_typed id_text remote_id (pool_step id_text iter p op) \<and> pl_config (pool_step id_text iter p op) = config"
  proof (cases op)
    case (TryReuse now pid)
    then show ?thesis using p pool_typed_reuse [of id_text remote_id p] by (auto split: option.split)
  next
    case (Connected now pid conn)
    then show ?thesis using p op pool_typed_insert [of id_text remote_id p conn] by simp
  next
    case (ReleaseConn now pid)
    show ?thesis
    proof (cases "fmlookup (pl_connections p) (id_text pid)")
      case (Some c)
      with p have "entry_typed id_text remote_id (pl_config p) (id_text pid) ((mark_released c)\<lparr>pc_last_used := now\<rparr>)"
        using pool_typedD [of id_text remote_id p] by (simp add: entry_typed_def mark_released_def)
      with Some ReleaseConn p show ?thesis by (simp add: pool_release_def pool_typed_upd)
    qed (use ReleaseConn p in \<open>simp add: pool_release_def\<close>)
  next
    case (RemoveConn pid)
    then show ?thesis using p by (simp add: pool_remove_def pool_typed_drop)
  next
    case (Cleanup now)
    then show ?thesis using p by (auto simp: pool_cleanup_def pool_typed_def)
  qed
qed

subsection \<open>Properties\<close>

text \<open>
  A pooled connection is reused only when it is not marked closed and not in use in the table,
  young enough, not idle for too long and below its use limit (the QUIC connection itself is not
  asked whether it is still open); it is then in use, counted once more, and not handed
  out again before it is released.
\<close>

theorem pool_reuse_sound:
  assumes "pool_reuse now (id_text pid) p = Some (conn, p')"
  shows "get_connection id_text remote_id connect kvs now pid p = (Ok (conn, remote_id conn), p')
    \<and> (\<exists>c. fmlookup (pl_connections p) (id_text pid) = Some c \<and> pc_connection c = conn
         \<and> \<not> pc_marked_closed c \<and> \<not> pc_in_use c
         \<and> now - pc_created_at c \<le> po_max_age (pl_config p) \<and> now - pc_last_used c \<le> po_max_idle (pl_config p)
         \<and> (po_max_uses (pl_config p) = 0 \<or> pc_use_count c < po_max_uses (pl_config p))
         \<and> fmlookup (pl_connections p') (id_text pid) = Some (mark_used now c))
    \<and> pool_len p' = pool_len p \<and> pool_reuse later (id_text pid) p' = None"
proof -
  from assms obtain c where c: "fmlookup (pl_connections p) (id_text pid) = Some c"
    "\<not> pc_in_use c" "is_connection_healthy now (pl_config p) c" "conn = pc_connection c"
    "p' = p\<lparr>pl_connections := fmupd (id_text pid) (mark_used now c) (pl_connections p)\<rparr>"
    unfolding pool_reuse_Some by blast
  have "pool_reuse later (id_text pid) p' = None"
    using c(5) by (simp add: pool_reuse_def)
  then show ?thesis
    using c assms by (simp add: get_connection_def pool_len_def is_connection_healthy_iff)
qed

theorem pool_reuse_sound_witness:
  "let p = (pool_new pool_config_default)\<lparr>pl_connections := fmupd ''a'' (pooled_new 0 (7 :: nat)) fmempty\<rparr>
   in fst (get_connection (\<lambda>i. ''a'') (\<lambda>c. ()) (Inl ''no'') [] 5 () p) = Ok (7, ())"
proof -
  let ?p = "(pool_new pool_config_default)\<lparr>pl_connections := fmupd ''a'' (pooled_new 0 (7 :: nat)) fmempty\<rparr>"
  have "pool_reuse 5 ((\<lambda>i. ''a'') ()) ?p
      = Some (7, ?p\<lparr>pl_connections := fmupd ''a'' (mark_used 5 (pooled_new 0 7)) (pl_connections ?p)\<rparr>)"
    by (simp add: pool_reuse_def is_connection_healthy_iff pool_new_def pool_config_default_def secs_def pooled_new_def)
  from pool_reuse_sound [where id_text = "\<lambda>i. ''a''" and pid = "()", OF this, of "\<lambda>c. ()" "Inl ''no''" "[]"] show ?thesis by (simp add: Let_def)
qed

text \<open>
  Eviction and the capacity: a new connection to a peer not in the pool evicts the oldest
  unused connection when the pool is full, and nothing else; it exceeds \<open>max_connections\<close>
  exactly when all pooled connections are in use.
\<close>

theorem pool_insert_capacity:
  assumes "lists_entries kvs (pl_connections p)" "fmlookup (pl_connections p) key = None"
    and "pool_len p \<le> po_max_connections (pl_config p)"
  shows "let p' = pool_insert kvs now key conn p;
             full = (pool_len p = po_max_connections (pl_config p));
             all_used = (\<forall>k c. fmlookup (pl_connections p) k = Some c \<longrightarrow> pc_in_use c)
         in pool_len p' = (if full \<and> \<not> all_used then pool_len p else pool_len p + 1)
            \<and> (po_max_connections (pl_config p) < pool_len p' \<longleftrightarrow> full \<and> all_used)
            \<and> (\<forall>k c. fmlookup (pl_connections p) k = Some c \<and> fmlookup (pl_connections p') k \<noteq> Some c \<longrightarrow>
                  full \<and> find_oldest_unused_connection kvs = Some k \<and> \<not> pc_in_use c)"
proof (cases "po_max_connections (pl_config p) \<le> pool_len p")
  case False
  then show ?thesis
    using assms(2,3) by (auto simp: pool_insert_def pool_len_def Let_def)
next
  case full: True
  show ?thesis
  proof (cases "find_oldest_unused_connection kvs")
    case None
    then have "\<forall>k c. fmlookup (pl_connections p) k = Some c \<longrightarrow> pc_in_use c"
      using find_oldest_None [OF assms(1)] by simp
    with None full assms(2,3) show ?thesis
      by (simp add: pool_insert_def pool_len_def Let_def)
  next
    case (Some k)
    from find_oldest_Some [OF assms(1) Some] obtain c where c: "fmlookup (pl_connections p) k = Some c" "\<not> pc_in_use c"
      by blast
    then have "k \<noteq> key" "fset (fmdom (pl_connections p)) \<noteq> {}"
      using assms(2) fmdomI [OF c(1)] by auto
    then have "k \<noteq> key" "0 < pool_len p"
      by (simp_all add: pool_len_def fmsize_def fcard.rep_eq card_gt_0_iff)
    with Some c full assms(2,3) show ?thesis
      by (auto simp: pool_insert_def pool_len_def Let_def)
  qed
qed

theorem pool_insert_capacity_witness:
  "let p = (pool_new (with_max_connections 1 pool_config_default))
             \<lparr>pl_connections := fmupd ''a'' (mark_used 0 (pooled_new 0 (7 :: nat))) fmempty\<rparr>
   in pool_len (pool_insert [(''a'', mark_used 0 (pooled_new 0 7))] 5 ''b'' 8 p) = 2"
proof -
  let ?p = "(pool_new (with_max_connections 1 pool_config_default))
             \<lparr>pl_connections := fmupd ''a'' (mark_used 0 (pooled_new 0 (7 :: nat))) fmempty\<rparr>"
  have "lists_entries [(''a'', mark_used 0 (pooled_new 0 7))] (pl_connections ?p)"
    "fmlookup (pl_connections ?p) ''b'' = None" "pool_len ?p \<le> po_max_connections (pl_config ?p)"
    by (simp_all add: lists_entries_def pool_len_def pool_new_def with_max_connections_def)
  from pool_insert_capacity [OF this, of 5 8] show ?thesis
    by (auto simp: Let_def pool_len_def pool_new_def with_max_connections_def split: if_splits)
qed

text \<open>
  Two users can hold the same connection: a second \<open>get_connection\<close> for a peer whose
  pooled connection is in use replaces the entry by a new connection; when the first user
  releases, by peer identifier, it is the new connection that becomes free, and the next
  \<open>get_connection\<close> hands it out although the second user still holds it. The connection the
  first user held is in the pool no more.
\<close>

theorem pool_shares_connection:
  assumes "fmlookup (pl_connections p) (id_text pid) = Some c" "pc_in_use c" "pc_connection c \<noteq> conn"
    and "t1 \<le> t2" "t2 \<le> t3" "t3 - t1 \<le> po_max_age (pl_config p)" "t3 - t2 \<le> po_max_idle (pl_config p)"
    and "po_max_uses (pl_config p) \<noteq> 1"
  shows "let (second, p1) = get_connection id_text remote_id (Inr conn) kvs t1 pid p;
             p2 = pool_release id_text t2 pid p1;
             (third, p3) = get_connection id_text remote_id connect kvs' t3 pid p2
         in second = Ok (conn, remote_id conn) \<and> third = Ok (conn, remote_id conn)
            \<and> (\<exists>c'. fmlookup (pl_connections p3) (id_text pid) = Some c' \<and> pc_connection c' = conn)"
proof -
  let ?c1 = "mark_used t1 (pooled_new t1 conn)" and ?k = "id_text pid"
  let ?p1 = "pool_insert kvs t1 ?k conn p"
  have no: "pool_reuse t1 ?k p = None" using assms(1,2) by (simp add: pool_reuse_def)
  have p1: "fmlookup (pl_connections ?p1) ?k = Some ?c1" "pl_config ?p1 = pl_config p"
    by (simp_all add: pool_insert_def Let_def)
  let ?c2 = "(mark_released ?c1)\<lparr>pc_last_used := t2\<rparr>" and ?p2 = "pool_release id_text t2 pid ?p1"
  have p2: "fmlookup (pl_connections ?p2) ?k = Some ?c2" "pl_config ?p2 = pl_config p"
    using p1 by (simp_all add: pool_release_def)
  have "po_max_uses (pl_config p) = 0 \<or> 1 < po_max_uses (pl_config p)"
    using assms(8) by (metis linorder_neqE_nat less_one unat_1 unat_eq_zero word_less_nat_alt word_unat_eq_iff)
  then have "pool_reuse t3 ?k ?p2 = Some (conn, ?p2\<lparr>pl_connections := fmupd ?k (mark_used t3 ?c2) (pl_connections ?p2)\<rparr>)"
    using p2 assms(6,7) by (simp add: pool_reuse_def is_connection_healthy_iff mark_released_def)
  then show ?thesis
    using no by (simp add: get_connection_def Let_def) (simp add: mark_released_def)
qed

theorem pool_shares_connection_witness:
  "let p = (pool_new pool_config_default)\<lparr>pl_connections := fmupd ''a'' (mark_used 0 (pooled_new 0 (7 :: nat))) fmempty\<rparr>;
       (second, p1) = get_connection (\<lambda>i. ''a'') (\<lambda>c. ()) (Inr 8) [] 1 () p;
       (third, p3) = get_connection (\<lambda>i. ''a'') (\<lambda>c. ()) (Inl ''no'') [] 3 () (pool_release (\<lambda>i. ''a'') 2 () p1)
   in second = Ok (8, ()) \<and> third = Ok (8, ())"
  using pool_shares_connection
    [of "(pool_new pool_config_default)\<lparr>pl_connections := fmupd ''a'' (mark_used 0 (pooled_new 0 (7 :: nat))) fmempty\<rparr>"
        "\<lambda>i. ''a''" "()" "mark_used 0 (pooled_new 0 7)" 8 1 2 3 "\<lambda>c. ()" "[]" "Inl ''no''"]
  by (simp add: pool_new_def pool_config_default_def secs_def Let_def split_beta)

text \<open>
  \<open>cleanup\<close> also drops the healthy connections that are in use: what remains is exactly
  what is healthy and not in use, so a release after it finds no connection and changes
  nothing.
\<close>

theorem pool_cleanup_drops_used:
  assumes "fmlookup (pl_connections p) (id_text pid) = Some c" "pc_in_use c"
    and "is_connection_healthy now (pl_config p) c"
  shows "fmlookup (pl_connections (pool_cleanup now p)) (id_text pid) = None
     \<and> pool_release id_text later pid (pool_cleanup now p) = pool_cleanup now p
     \<and> fmlookup (pl_connections (pool_cleanup now p)) k =
         (case fmlookup (pl_connections p) k of
            Some c' \<Rightarrow> if is_connection_healthy now (pl_config p) c' \<and> \<not> pc_in_use c' then Some c' else None
          | None \<Rightarrow> None)"
  using assms by (simp add: pool_cleanup_def pool_release_def pool_keep_def split: option.split)

theorem pool_cleanup_drops_used_witness:
  "let p = (pool_new pool_config_default)\<lparr>pl_connections := fmupd ''a'' (mark_used 0 (pooled_new 0 (7 :: nat))) fmempty\<rparr>
   in fmlookup (pl_connections (pool_cleanup 5 p)) ''a'' = None"
  using pool_cleanup_drops_used
    [of "(pool_new pool_config_default)\<lparr>pl_connections := fmupd ''a'' (mark_used 0 (pooled_new 0 (7 :: nat))) fmempty\<rparr>"
        "\<lambda>i. ''a''" "()" "mark_used 0 (pooled_new 0 7)" 5]
  by (simp add: is_connection_healthy_iff pool_new_def pool_config_default_def secs_def Let_def)

text \<open>
  C36. Whatever users share the pool, in whatever interleaving of its locked sections, its table
  stays well formed: each connection is stored under the peer it leads to, not marked closed, and
  used at most \<open>max_uses\<close> times where there is such a limit, as long as different
  peers have different texts and connecting to a peer gives a connection to it. So
  \<open>get_connection\<close> never hands out a connection to another peer than the one asked
  for.
\<close>

theorem pool_right_peer:
  assumes "inj id_text" "list_all (leads_to_peer remote_id) ops"
    and "\<And>c. connect = Inr c \<Longrightarrow> remote_id c = pid"
    and "get_connection id_text remote_id connect kvs now pid
           (foldl (pool_step id_text iter) (pool_new config) ops) = (Ok (conn, peer), p')"
  shows "peer = pid \<and> remote_id conn = pid
     \<and> (\<forall>k c. fmlookup (pl_connections p') k = Some c \<longrightarrow>
           id_text (remote_id (pc_connection c)) = k \<and> \<not> pc_marked_closed c
           \<and> (po_max_uses config \<noteq> 0 \<longrightarrow> pc_use_count c \<le> po_max_uses config))"
proof -
  let ?p = "foldl (pool_step id_text iter) (pool_new config) ops"
  have typed: "pool_typed id_text remote_id ?p" "pl_config ?p = config"
    using shared.inv_run [OF _ assms(2), of id_text "pool_new config" config iter]
    by simp_all
  have "peer = pid \<and> remote_id conn = pid \<and> pool_typed id_text remote_id p' \<and> pl_config p' = config"
  proof (cases "pool_reuse now (id_text pid) ?p")
    case (Some r)
    with assms(4) have "pool_reuse now (id_text pid) ?p = Some (conn, p')" "peer = remote_id conn"
      by (auto simp: get_connection_def split: prod.splits)
    then show ?thesis
      using pool_typed_reuse [OF typed(1)] typed(2) injD [OF assms(1)] by fastforce
  next
    case None
    with assms(4) obtain "connect = Inr conn" "peer = remote_id conn"
        "p' = pool_insert kvs now (id_text pid) conn ?p"
      by (auto simp: get_connection_def split: sum.splits)
    then show ?thesis
      using pool_typed_insert [OF typed(1)] typed(2) assms(3) by simp
  qed
  then show ?thesis using pool_typedD [of id_text remote_id p'] by (auto simp: entry_typed_def)
qed

theorem pool_right_peer_witness:
  "fst (get_connection (\<lambda>i :: string. i) (\<lambda>c. c) (Inl ''no'') [] 9 ''a''
      (foldl (pool_step (\<lambda>i. i) (\<lambda>m. [])) (pool_new pool_config_default)
        [Connected 1 ''a'' ''a'', Connected 1 ''b'' ''b'', ReleaseConn 4 ''a'', TryReuse 5 ''c'',
         RemoveConn ''b'', Cleanup 6])) = Ok (''a'', ''a'')"
proof -
  let ?ops = "[Connected 1 ''a'' ''a'', Connected 1 ''b'' ''b'', ReleaseConn 4 ''a'', TryReuse 5 ''c'',
         RemoveConn ''b'', Cleanup 6]"
  let ?p = "foldl (pool_step (\<lambda>i. i) (\<lambda>m. [])) (pool_new pool_config_default) ?ops"
  have look: "fmlookup (pl_connections ?p) ''a'' = Some ((mark_released (mark_used 1 (pooled_new 1 ''a'')))\<lparr>pc_last_used := 4\<rparr>)"
    "pl_config ?p = pool_config_default"
    by (simp_all add: pool_insert_def pool_new_def pool_config_default_def pool_release_def pool_reuse_def
        pool_remove_def pool_cleanup_def pool_keep_def is_connection_healthy_iff secs_def pooled_new_def
        mark_released_def mark_used_def)
  then have "pool_reuse 9 ''a'' ?p = Some (''a'', ?p\<lparr>pl_connections := fmupd ''a''
      (mark_used 9 ((mark_released (mark_used 1 (pooled_new 1 ''a'')))\<lparr>pc_last_used := 4\<rparr>)) (pl_connections ?p)\<rparr>)"
    by (simp add: pool_reuse_def is_connection_healthy_iff pool_config_default_def secs_def mark_released_def)
  then obtain conn peer p' where got: "get_connection (\<lambda>i. i) (\<lambda>c. c) (Inl ''no'') [] 9 ''a'' ?p = (Ok (conn, peer), p')"
    by (simp add: get_connection_def)
  moreover have "peer = ''a'' \<and> conn = ''a''"
    using pool_right_peer [OF _ _ _ got] by (simp add: inj_def)
  ultimately show ?thesis by simp
qed

end
