(* ===== verification/Snapshot.thy ===== *)
theory Snapshot
  imports Change Error_Types "HOL-Library.List_Lexorder" "HOL-Library.Char_ord"
begin

section \<open>Snapshots (\<open>src/snapshot.rs\<close>)\<close>

text \<open>
  Changes are collected into a snapshot grouped by namespace and database, serialised, cut
  into chunks and put together again by an importer. \<open>bincode\<close>, the standard hasher (fed a
  list of writes) and the iteration order of the two levels of hash maps are arguments; an
  \<open>io::Error\<close> is its kind and text.
\<close>

record snapshot_config =
  sc_compress :: bool
  sc_compression_level :: int
  sc_max_size :: nat
  sc_chunk_size :: nat

definition snapshot_config_default :: snapshot_config where
  "snapshot_config_default =
     \<lparr>sc_compress = True, sc_compression_level = 3, sc_max_size = 100 * 1024 * 1024,
      sc_chunk_size = 64 * 1024\<rparr>"

definition with_compress :: "bool \<Rightarrow> snapshot_config \<Rightarrow> snapshot_config" where
  "with_compress b c = c\<lparr>sc_compress := b\<rparr>"

definition with_max_size :: "nat \<Rightarrow> snapshot_config \<Rightarrow> snapshot_config" where
  "with_max_size n c = c\<lparr>sc_max_size := n\<rparr>"

definition with_chunk_size :: "nat \<Rightarrow> snapshot_config \<Rightarrow> snapshot_config" where
  "with_chunk_size n c = c\<lparr>sc_chunk_size := n\<rparr>"

record key_value_entry =
  kv_key :: "bytes option"
  kv_value :: "bytes option"
  kv_timestamp_secs :: u64

record schema_entry =
  se_schema_type :: string
  se_definition :: bytes

record db_snapshot =
  ds_name :: string
  ds_entries :: "key_value_entry list"
  ds_schemas :: "schema_entry list"

record namespace_snapshot =
  ns_name :: string
  ns_databases :: "db_snapshot list"

record database_snapshot =
  dbs_version :: u32
  dbs_timestamp_secs :: u64
  dbs_namespaces :: "namespace_snapshot list"
  dbs_checksum :: u64

definition db_total_entries :: "db_snapshot \<Rightarrow> nat" where
  "db_total_entries db = length (ds_entries db)"

definition ns_total_entries :: "namespace_snapshot \<Rightarrow> nat" where
  "ns_total_entries ns = sum_list (map db_total_entries (ns_databases ns))"

definition total_entries :: "database_snapshot \<Rightarrow> nat" where
  "total_entries s = sum_list (map ns_total_entries (dbs_namespaces s))"

subsection \<open>The checksum\<close>

datatype hash_write = HashBytes bytes | HashUsize nat

definition checksum_writes :: "namespace_snapshot list \<Rightarrow> hash_write list" where
  "checksum_writes nss =
     concat (map (\<lambda>n. HashBytes (as_bytes (ns_name n))
       # concat (map (\<lambda>db. [HashBytes (as_bytes (ds_name db)), HashUsize (length (ds_entries db))])
            (ns_databases n))) nss)"

definition calculate_checksum :: "(hash_write list \<Rightarrow> u64) \<Rightarrow> namespace_snapshot list \<Rightarrow> u64" where
  "calculate_checksum hash nss = hash (checksum_writes nss)"

definition database_snapshot_new ::
  "(hash_write list \<Rightarrow> u64) \<Rightarrow> int \<Rightarrow> namespace_snapshot list \<Rightarrow> database_snapshot" where
  "database_snapshot_new hash now nss =
     \<lparr>dbs_version = 1, dbs_timestamp_secs = current_timestamp_secs now, dbs_namespaces = nss,
      dbs_checksum = calculate_checksum hash nss\<rparr>"

definition snapshot_validate :: "(hash_write list \<Rightarrow> u64) \<Rightarrow> database_snapshot \<Rightarrow> bool" where
  "snapshot_validate hash s \<longleftrightarrow> dbs_checksum s = calculate_checksum hash (dbs_namespaces s)"

subsection \<open>Building a snapshot\<close>

record serializer =
  sr_config :: snapshot_config
  sr_pending :: "change list"

definition serializer_new :: "snapshot_config \<Rightarrow> serializer" where
  "serializer_new c = \<lparr>sr_config = c, sr_pending = []\<rparr>"

definition serializer_add_change :: "serializer \<Rightarrow> change \<Rightarrow> serializer" where
  "serializer_add_change s c = s\<lparr>sr_pending := sr_pending s @ [c]\<rparr>"

definition serializer_pending_count :: "serializer \<Rightarrow> nat" where
  "serializer_pending_count s = length (sr_pending s)"

type_synonym db_map = "(string, key_value_entry list) fmap"
type_synonym ns_map = "(string, db_map) fmap"

definition or_default :: "'v \<Rightarrow> 'v option \<Rightarrow> 'v" where
  "or_default d x = (case x of None \<Rightarrow> d | Some v \<Rightarrow> v)"

definition group_change :: "int \<Rightarrow> change \<Rightarrow> ns_map \<Rightarrow> ns_map" where
  "group_change now c m =
     (let db_map = or_default fmempty (fmlookup m (ch_namespace c));
          entries = or_default [] (fmlookup db_map (ch_database c));
          entry = \<lparr>kv_key = ch_key c, kv_value = ch_value c,
                   kv_timestamp_secs = current_timestamp_secs now\<rparr>
      in fmupd (ch_namespace c) (fmupd (ch_database c) (entries @ [entry]) db_map) m)"

text \<open>
  \<open>build_snapshot\<close> reads the clock once for every change it groups and once more for the
  snapshot: \<open>clock i\<close> is its reading number \<open>i\<close>.
\<close>

definition build_snapshot ::
  "(hash_write list \<Rightarrow> u64) \<Rightarrow> (ns_map \<Rightarrow> (string \<times> db_map) list)
     \<Rightarrow> (db_map \<Rightarrow> (string \<times> key_value_entry list) list) \<Rightarrow> (nat \<Rightarrow> int) \<Rightarrow> serializer
     \<Rightarrow> database_snapshot \<times> serializer" where
  "build_snapshot hash iter_ns iter_db clock s =
     (let m = fold (\<lambda>(i, c). group_change (clock i) c) (enumerate 0 (sr_pending s)) fmempty;
          nss = map (\<lambda>(name, databases).
                  \<lparr>ns_name = name,
                   ns_databases = map (\<lambda>(db_name, entries).
                     \<lparr>ds_name = db_name, ds_entries = entries, ds_schemas = []\<rparr>) (iter_db databases)\<rparr>)
                (iter_ns m)
      in (database_snapshot_new hash (clock (length (sr_pending s))) nss, s\<lparr>sr_pending := []\<rparr>))"

datatype io_failure = IoInvalidData string | IoInvalidInput string | IoUnexpectedEof string

definition snapshot_serialize ::
  "(database_snapshot \<Rightarrow> string + bytes) \<Rightarrow> database_snapshot \<Rightarrow> (io_failure, bytes) outcome" where
  "snapshot_serialize ser s = map_err IoInvalidData (of_result (ser s))"

definition snapshot_deserialize ::
  "(bytes \<Rightarrow> string + database_snapshot) \<Rightarrow> bytes \<Rightarrow> (io_failure, database_snapshot) outcome" where
  "snapshot_deserialize de bs = map_err IoInvalidData (of_result (de bs))"

subsection \<open>Exporting\<close>

record snapshot_chunk =
  ck_sequence :: u64
  ck_total :: u64
  ck_data :: bytes
  ck_is_last :: bool

definition snapshot_chunk_new :: "u64 \<Rightarrow> u64 \<Rightarrow> bytes \<Rightarrow> bool \<Rightarrow> snapshot_chunk" where
  "snapshot_chunk_new seq tot data is_last =
     \<lparr>ck_sequence = seq, ck_total = tot, ck_data = data, ck_is_last = is_last\<rparr>"

text \<open>\<open>div_ceil\<close> panics for a chunk size of zero.\<close>

definition export_chunks :: "nat \<Rightarrow> bytes \<Rightarrow> (io_failure, snapshot_chunk list) outcome" where
  "export_chunks chunk_size data =
     (if chunk_size = 0 then Panic
      else let total_chunks = (length data + chunk_size - 1) div chunk_size
           in Ok (map (\<lambda>(i, d). snapshot_chunk_new (of_nat i) (of_nat total_chunks) d (i = total_chunks - 1))
                    (enumerate 0 (chunks chunk_size data))))"

definition snapshot_export ::
  "(hash_write list \<Rightarrow> u64) \<Rightarrow> (ns_map \<Rightarrow> (string \<times> db_map) list)
     \<Rightarrow> (db_map \<Rightarrow> (string \<times> key_value_entry list) list) \<Rightarrow> (database_snapshot \<Rightarrow> string + bytes)
     \<Rightarrow> (nat \<Rightarrow> int) \<Rightarrow> serializer \<Rightarrow> (io_failure, snapshot_chunk list) outcome \<times> serializer" where
  "snapshot_export hash iter_ns iter_db ser clock s =
     (let (snap, s') = build_snapshot hash iter_ns iter_db clock s
      in (and_then (snapshot_serialize ser snap) (export_chunks (sc_chunk_size (sr_config s))), s'))"

definition export_buffer ::
  "(hash_write list \<Rightarrow> u64) \<Rightarrow> (ns_map \<Rightarrow> (string \<times> db_map) list)
     \<Rightarrow> (db_map \<Rightarrow> (string \<times> key_value_entry list) list) \<Rightarrow> (database_snapshot \<Rightarrow> string + bytes)
     \<Rightarrow> (nat \<Rightarrow> int) \<Rightarrow> serializer \<Rightarrow> (io_failure, bytes) outcome \<times> serializer" where
  "export_buffer hash iter_ns iter_db ser clock s =
     (let (snap, s') = build_snapshot hash iter_ns iter_db clock s in (snapshot_serialize ser snap, s'))"

subsection \<open>Importing\<close>

record importer =
  im_received :: "bytes list"
  im_total :: "u64 option"

definition importer_new :: importer where
  "importer_new = \<lparr>im_received = [], im_total = None\<rparr>"

definition resize :: "nat \<Rightarrow> 'a \<Rightarrow> 'a list \<Rightarrow> 'a list" where
  "resize n x xs = take n xs @ replicate (n - length xs) x"

text \<open>
  A vector of \<open>Bytes\<close>, four words each, holds at most \<open>isize::MAX\<close>
  bytes: growing beyond panics. For the largest sequence number \<open>idx + 1\<close> wraps to
  zero, which empties the vector before the indexing panics.
\<close>

definition MAX_SLOTS :: nat where
  "MAX_SLOTS = (2 ^ 63 - 1) div 32"

definition import_chunk :: "snapshot_chunk \<Rightarrow> importer \<Rightarrow> (io_failure, unit) outcome \<times> importer" where
  "import_chunk c im =
     (if (case im_total im of Some t \<Rightarrow> t \<le> ck_sequence c | None \<Rightarrow> False) then
        (Err (IoInvalidInput ''invalid chunk''), im)
      else
        let tot = (case im_total im of None \<Rightarrow> Some (ck_total c) | Some t \<Rightarrow> Some t);
            idx = unat (ck_sequence c)
        in if length (im_received im) \<le> idx then
             (if idx + 1 = 2 ^ 64 then (Panic, im\<lparr>im_total := tot, im_received := []\<rparr>)
              else if MAX_SLOTS < idx + 1 then (Panic, im\<lparr>im_total := tot\<rparr>)
              else (Ok (), im\<lparr>im_total := tot, im_received := (resize (idx + 1) [] (im_received im))[idx := ck_data c]\<rparr>))
           else (Ok (), im\<lparr>im_total := tot, im_received := (im_received im)[idx := ck_data c]\<rparr>))"

definition is_complete :: "importer \<Rightarrow> bool" where
  "is_complete im =
     (case im_total im of
        Some t \<Rightarrow> list_all (\<lambda>c. c \<noteq> []) (take (unat t) (im_received im))
      | None \<Rightarrow> False)"

definition finalize ::
  "(bytes \<Rightarrow> string + database_snapshot) \<Rightarrow> importer \<Rightarrow> (io_failure, database_snapshot) outcome" where
  "finalize de im =
     (if \<not> is_complete im then Err (IoUnexpectedEof ''incomplete'')
      else snapshot_deserialize de (concat (im_received im)))"

definition importer_reset :: "importer \<Rightarrow> importer" where
  "importer_reset im = im\<lparr>im_received := [], im_total := None\<rparr>"

subsection \<open>Lemmas on grouping\<close>

definition entry_of :: "int \<Rightarrow> change \<Rightarrow> key_value_entry" where
  "entry_of now c = \<lparr>kv_key = ch_key c, kv_value = ch_value c, kv_timestamp_secs = current_timestamp_secs now\<rparr>"

definition grouped :: "ns_map \<Rightarrow> string \<Rightarrow> string \<Rightarrow> key_value_entry list" where
  "grouped m n d = or_default [] (fmlookup (or_default fmempty (fmlookup m n)) d)"

lemma or_default_simps [simp]: "or_default d None = d" "or_default d (Some v) = v"
  by (simp_all add: or_default_def)

lemma grouped_empty [simp]: "grouped fmempty n d = []"
  by (simp add: grouped_def)

lemma grouped_change:
  "grouped (group_change now c m) n d = grouped m n d
     @ (if ch_namespace c = n \<and> ch_database c = d then [entry_of now c] else [])"
  by (simp add: grouped_def group_change_def Let_def entry_of_def)

lemma grouped_changes:
  "grouped (fold (\<lambda>(i, c). group_change (clock i) c) ics m) n d = grouped m n d
     @ map (\<lambda>(i, c). entry_of (clock i) c) (filter (\<lambda>(i, c). ch_namespace c = n \<and> ch_database c = d) ics)"
  by (induction ics arbitrary: m) (simp_all add: grouped_change split_beta)

text \<open>The entries a snapshot holds for a namespace and a database, wherever they stand.\<close>

definition entries_of :: "database_snapshot \<Rightarrow> string \<Rightarrow> string \<Rightarrow> key_value_entry list" where
  "entries_of s n d =
     concat (map (\<lambda>ns. if ns_name ns = n
       then concat (map (\<lambda>db. if ds_name db = d then ds_entries db else []) (ns_databases ns)) else [])
       (dbs_namespaces s))"

lemma concat_lookup:
  "distinct (map fst kvs) \<Longrightarrow>
     concat (map (\<lambda>(k, v). if k = key then f v else []) kvs)
       = (case map_of kvs key of Some v \<Rightarrow> f v | None \<Rightarrow> [])"
proof (induction kvs)
  case Nil
  then show ?case by simp
next
  case (Cons kv kvs)
  obtain k v where kv: "kv = (k, v)" by force
  have "map_of kvs k = None" using Cons.prems kv by (simp add: map_of_eq_None_iff)
  with Cons kv show ?case by auto
qed

lemma concat_lists_entries:
  assumes "lists_entries kvs m"
  shows "concat (map (\<lambda>(k, v). if k = key then f v else []) kvs)
       = (case fmlookup m key of Some v \<Rightarrow> f v | None \<Rightarrow> [])"
  using assms concat_lookup [of kvs key f] by (auto simp: lists_entries_def fmlookup_of_list)

lemma entries_of_build:
  assumes "\<And>m. lists_entries (iter_ns m) m" "\<And>m. lists_entries (iter_db m) m"
  shows "entries_of (fst (build_snapshot hash iter_ns iter_db clock s)) n d
       = grouped (fold (\<lambda>(i, c). group_change (clock i) c) (enumerate 0 (sr_pending s)) fmempty) n d"
proof -
  let ?m = "fold (\<lambda>(i, c). group_change (clock i) c) (enumerate 0 (sr_pending s)) fmempty"
  let ?ns = "\<lambda>(name, databases). \<lparr>ns_name = name, ns_databases = map (\<lambda>(db_name, entries).
                     \<lparr>ds_name = db_name, ds_entries = entries, ds_schemas = []\<rparr>) (iter_db databases)\<rparr>"
  have db: "concat (map (\<lambda>db. if ds_name db = d then ds_entries db else [])
        (map (\<lambda>(db_name, entries). \<lparr>ds_name = db_name, ds_entries = entries, ds_schemas = []\<rparr>) (iter_db v)))
      = or_default [] (fmlookup v d)" for v
    using concat_lists_entries [OF assms(2) [of v], of d "\<lambda>v. v"]
    by (simp add: comp_def case_prod_unfold or_default_def option.case_eq_if cong: if_cong)
  have "entries_of (fst (build_snapshot hash iter_ns iter_db clock s)) n d
      = concat (map (\<lambda>(k, v). if k = n then or_default [] (fmlookup v d) else []) (iter_ns ?m))"
    unfolding entries_of_def build_snapshot_def database_snapshot_new_def Let_def
    using db by (simp add: comp_def case_prod_unfold cong: if_cong)
  also have "\<dots> = (case fmlookup ?m n of Some v \<Rightarrow> or_default [] (fmlookup v d) | None \<Rightarrow> [])"
    by (rule concat_lists_entries [OF assms(1)])
  finally show ?thesis
    by (simp add: grouped_def split: option.split)
qed

subsection \<open>Lemmas on chunks\<close>

definition chunk_at :: "bytes list \<Rightarrow> nat \<Rightarrow> snapshot_chunk" where
  "chunk_at ds i = snapshot_chunk_new (of_nat i) (of_nat (length ds)) (ds ! i) (i = length ds - 1)"

lemma export_chunks_eq:
  "0 < k \<Longrightarrow> export_chunks k data = Ok (map (chunk_at (chunks k data)) [0..<length (chunks k data)])"
  by (simp add: export_chunks_def Let_def length_chunks enumerate_eq_zip zip_map1 chunk_at_def
        list_eq_iff_nth_eq)

text \<open>What an importer holds after the chunks with the indices \<open>I\<close>.\<close>

definition holds_chunks :: "bytes list \<Rightarrow> nat set \<Rightarrow> importer \<Rightarrow> bool" where
  "holds_chunks ds I im \<longleftrightarrow>
     im_total im = (if I = {} then None else Some (of_nat (length ds)))
     \<and> (im_received im = [] \<or> length (im_received im) - 1 \<in> I)
     \<and> (\<forall>i < length (im_received im). im_received im ! i = (if i \<in> I then ds ! i else []))
     \<and> (\<forall>i \<in> I. i < length (im_received im))"

lemma length_resize [simp]: "length (resize n x xs) = n"
  by (simp add: resize_def)

lemma nth_resize: "i < n \<Longrightarrow> resize n x xs ! i = (if i < length xs then xs ! i else x)"
  by (simp add: resize_def nth_append)

lemma import_chunk_at:
  assumes "holds_chunks ds I im" "I \<subseteq> {..<length ds}" "j < length ds" "length ds \<le> MAX_SLOTS"
  shows "fst (import_chunk (chunk_at ds j) im) = Ok ()
         \<and> holds_chunks ds (insert j I) (snd (import_chunk (chunk_at ds j) im))"
proof -
  have j: "unat (of_nat j :: u64) = j" and n: "unat (of_nat (length ds) :: u64) = length ds"
    by (rule unat_of_nat_u64, use assms(3,4) in \<open>simp add: MAX_SLOTS_def\<close>)+
  have seq: "ck_sequence (chunk_at ds j) = of_nat j" "ck_total (chunk_at ds j) = of_nat (length ds)"
    "ck_data (chunk_at ds j) = ds ! j"
    by (simp_all add: chunk_at_def snapshot_chunk_new_def)
  have guard: "\<not> (of_nat (length ds) :: u64) \<le> of_nat j"
    using assms(3) j n by (simp add: word_le_nat_alt)
  let ?r = "if length (im_received im) \<le> j then resize (j + 1) [] (im_received im) else im_received im"
  have "import_chunk (chunk_at ds j) im
      = (Ok (), im\<lparr>im_total := Some (of_nat (length ds)), im_received := ?r[j := ds ! j]\<rparr>)"
    using guard assms(1,3,4) by (simp add: import_chunk_def seq j Let_def holds_chunks_def MAX_SLOTS_def)
  moreover have "?r[j := ds ! j] ! i = (if i \<in> insert j I then ds ! i else [])" if "i < length ?r" for i
    using that assms(1) by (auto simp: nth_list_update nth_resize holds_chunks_def)
  moreover have "length ?r - 1 \<in> insert j I" "j < length ?r" "length (im_received im) \<le> length ?r"
    using assms(1) by (auto simp: holds_chunks_def)
  ultimately show ?thesis
    using assms(1) by (auto simp: holds_chunks_def simp del: if_split)
qed

lemma import_chunks_at:
  assumes "set js \<subseteq> {..<length ds}" "length ds \<le> MAX_SLOTS" "I \<subseteq> {..<length ds}" "holds_chunks ds I im"
  shows "holds_chunks ds (I \<union> set js) (foldl (\<lambda>im j. snd (import_chunk (chunk_at ds j) im)) im js)"
  using assms(1,3,4)
proof (induction js arbitrary: I im)
  case Nil
  then show ?case by simp
next
  case (Cons j js)
  have "holds_chunks ds (insert j I) (snd (import_chunk (chunk_at ds j) im))"
    using import_chunk_at [OF Cons.prems(3,2) _ assms(2)] Cons.prems(1) by simp
  from Cons.IH [OF _ _ this] Cons.prems show ?case by simp
qed

lemma holds_chunks_new: "holds_chunks ds {} importer_new"
  by (simp add: holds_chunks_def importer_new_def)

lemma holds_prefix:
  assumes "holds_chunks ds {..<j} im" "0 < j" "j \<le> length ds" "length ds \<le> MAX_SLOTS" "\<forall>d \<in> set ds. d \<noteq> []"
  shows "im_received im = take j ds" "is_complete im"
proof -
  have len: "length (im_received im) = j"
    using assms(1,2) by (auto simp: holds_chunks_def)
  show r: "im_received im = take j ds"
    using assms(1,3) len by (intro nth_equalityI) (auto simp: holds_chunks_def)
  have "im_total im = Some (of_nat (length ds))"
    using assms(1,2) by (auto simp: holds_chunks_def)
  then show "is_complete im"
    using r assms(5) by (auto simp: is_complete_def list_all_iff dest!: in_set_takeD)
qed

subsection \<open>Properties\<close>

lemma chunk_at_inj: "length ds \<le> MAX_SLOTS \<Longrightarrow> inj_on (chunk_at ds) {..<length ds}"
proof (rule inj_onI)
  fix i j assume "length ds \<le> MAX_SLOTS" "i \<in> {..<length ds}" "j \<in> {..<length ds}" "chunk_at ds i = chunk_at ds j"
  then have "(of_nat i :: u64) = of_nat j" "i < 2 ^ 64" "j < 2 ^ 64"
    by (simp_all add: chunk_at_def snapshot_chunk_new_def MAX_SLOTS_def)
  then show "i = j" by (metis unat_of_nat_u64)
qed

lemma chunks_indexed:
  assumes "set ps \<subseteq> chunk_at ds ` {..<length ds}"
  shows "\<exists>js. ps = map (chunk_at ds) js \<and> set js \<subseteq> {..<length ds}"
  using assms
proof (induction ps)
  case (Cons p ps)
  then obtain js j where "ps = map (chunk_at ds) js" "set js \<subseteq> {..<length ds}" "p = chunk_at ds j" "j < length ds"
    by auto
  then show ?case by (intro exI [of _ "j # js"]) simp
qed simp

lemma import_all_chunks:
  assumes "export_chunks k data = Ok cs" "data \<noteq> []" "length cs \<le> MAX_SLOTS" "set ps = set cs"
  shows "let import = foldl (\<lambda>im c. snd (import_chunk c im)) importer_new
         in is_complete (import ps) \<and> finalize de (import ps) = snapshot_deserialize de data
            \<and> (\<forall>i < length ps. fst (import_chunk (ps ! i) (import (take i ps))) = Ok ())"
proof -
  have k: "0 < k" using assms(1) by (cases k) (simp_all add: export_chunks_def)
  let ?ds = "chunks k data" and ?im = "foldl (\<lambda>im c. snd (import_chunk c im)) importer_new"
  have cs: "cs = map (chunk_at ?ds) [0..<length ?ds]"
    using assms(1) export_chunks_eq [OF k] by simp
  then have len: "length ?ds \<le> MAX_SLOTS" using assms(3) by simp
  have img: "set ps = chunk_at ?ds ` {..<length ?ds}"
    using assms(4) cs by (simp add: lessThan_atLeast0)
  then obtain js where js: "ps = map (chunk_at ?ds) js" "set js \<subseteq> {..<length ?ds}"
    using chunks_indexed [of ps ?ds] by auto
  have "chunk_at ?ds ` set js = chunk_at ?ds ` {..<length ?ds}"
    using img js(1) by simp
  then have all: "set js = {..<length ?ds}"
    using inj_on_image_eq_iff [OF chunk_at_inj [OF len] js(2)] by blast
  have import: "?im (map (chunk_at ?ds) is) = foldl (\<lambda>im j. snd (import_chunk (chunk_at ?ds j) im)) importer_new is"
    for "is" by (simp add: foldl_map)
  have holds: "holds_chunks ?ds (set (take i js)) (?im (take i ps))" for i
    using import_chunks_at [of "take i js" ?ds "{}" importer_new] js len holds_chunks_new
    by (auto simp: take_map import dest: in_set_takeD)
  have "?ds \<noteq> []" using assms(2) k by (metis concat.simps(1) concat_chunks)
  then have "holds_chunks ?ds {..<length ?ds} (?im ps)" "0 < length ?ds"
    using holds [of "length ps"] js(1) all by simp_all
  from holds_prefix [OF this order_refl len] have r: "im_received (?im ps) = ?ds" "is_complete (?im ps)"
    using chunks_in_bounds by fastforce+
  have "fst (import_chunk (ps ! i) (?im (take i ps))) = Ok ()" if "i < length ps" for i
  proof -
    have "js ! i < length ?ds" using that js by (metis length_map lessThan_iff nth_mem subset_code(1))
    then show ?thesis
      using import_chunk_at [OF holds _ _ len, of i "js ! i"] js that
      by (auto dest: in_set_takeD)
  qed
  with r show ?thesis by (simp add: finalize_def Let_def concat_chunks [OF k])
qed

text \<open>
  A snapshot travels in any order: importing the chunks of an export into a new importer,
  in whatever order and however often each, accepts every chunk, is complete once all of
  them arrived, and \<open>finalize\<close> returns what the deserialiser makes of the exported bytes.
\<close>

theorem chunks_any_order:
  assumes "export_chunks k data = Ok cs" "data \<noteq> []" "length cs \<le> MAX_SLOTS" "set ps = set cs"
  shows "let import = foldl (\<lambda>im c. snd (import_chunk c im)) importer_new
         in is_complete (import ps) \<and> finalize de (import ps) = snapshot_deserialize de data
            \<and> (\<forall>i < length ps. fst (import_chunk (ps ! i) (import (take i ps))) = Ok ())"
  by (rule import_all_chunks [OF assms])

theorem chunks_any_order_witness:
  "finalize (\<lambda>bs. Inl ''x'') (foldl (\<lambda>im c. snd (import_chunk c im)) importer_new
      [snapshot_chunk_new 1 2 [3] True, snapshot_chunk_new 0 2 [1, 2] False])
   = snapshot_deserialize (\<lambda>bs. Inl ''x'') [1, 2, 3]"
proof -
  have "export_chunks 2 [1, 2, 3] = Ok [snapshot_chunk_new 0 2 [1, 2] False, snapshot_chunk_new 1 2 [3] True]"
    by (simp add: export_chunks_def chunks_step)
  from chunks_any_order [OF this, of "[snapshot_chunk_new 1 2 [3] True, snapshot_chunk_new 0 2 [1, 2] False]" "\<lambda>bs. Inl ''x''"]
  show ?thesis by (simp add: Let_def insert_commute MAX_SLOTS_def)
qed

text \<open>
  Completeness is announced too early: after the first \<open>j\<close> chunks of an export, for
  every \<open>j > 0\<close>, the importer calls itself complete, and \<open>finalize\<close>
  deserialises the bytes received so far, \<open>j\<close> chunks of them.
\<close>

theorem complete_too_early:
  assumes "export_chunks k data = Ok cs" "length cs \<le> MAX_SLOTS" "0 < j" "j \<le> length cs"
  shows "let im = foldl (\<lambda>im c. snd (import_chunk c im)) importer_new (take j cs)
         in is_complete im \<and> finalize de im = snapshot_deserialize de (concat (take j (chunks k data)))"
proof -
  have k: "0 < k" using assms(1) by (cases k) (simp_all add: export_chunks_def)
  let ?ds = "chunks k data"
  have cs: "cs = map (chunk_at ?ds) [0..<length ?ds]"
    using assms(1) export_chunks_eq [OF k] by simp
  then have len: "length ?ds \<le> MAX_SLOTS" "length cs = length ?ds" using assms(2) by simp_all
  have "take j cs = map (chunk_at ?ds) [0..<j]"
    using cs len assms(4) by (simp add: take_map)
  then have "holds_chunks ?ds {..<j} (foldl (\<lambda>im c. snd (import_chunk c im)) importer_new (take j cs))"
    using import_chunks_at [of "[0..<j]" ?ds "{}" importer_new] len assms(4) holds_chunks_new
    by (auto simp: foldl_map lessThan_atLeast0)
  from holds_prefix [OF this assms(3) _ len(1)] assms(4) len(2) show ?thesis
    using chunks_in_bounds by (fastforce simp: finalize_def Let_def)
qed

theorem complete_too_early_witness:
  "is_complete (snd (import_chunk (snapshot_chunk_new 0 2 [1, 2] False) importer_new))"
proof -
  have "export_chunks 2 [1, 2, 3] = Ok [snapshot_chunk_new 0 2 [1, 2] False, snapshot_chunk_new 1 2 [3] True]"
    by (simp add: export_chunks_def chunks_step)
  from complete_too_early [OF this, of 1] show ?thesis by (simp add: Let_def MAX_SLOTS_def)
qed

text \<open>
  The first chunk is not checked: a new importer accepts any sequence number that fits a
  vector, also one beyond the total the chunk announces, and allocates a slot for every
  smaller one; the largest sequence number panics it; an importer that has a total refuses
  exactly the sequence numbers from it on.
\<close>

theorem first_chunk_unchecked:
  "(unat (ck_sequence c) < MAX_SLOTS \<longrightarrow> import_chunk c importer_new =
     (Ok (), \<lparr>im_received = replicate (unat (ck_sequence c)) [] @ [ck_data c], im_total = Some (ck_total c)\<rparr>))
   \<and> (ck_sequence c = - 1 \<longrightarrow> fst (import_chunk c importer_new) = Panic)
   \<and> (fst (import_chunk c (im\<lparr>im_total := Some t\<rparr>)) = Err (IoInvalidInput ''invalid chunk'') \<longleftrightarrow> t \<le> ck_sequence c)"
proof (intro conjI impI)
  assume "unat (ck_sequence c) < MAX_SLOTS"
  then show "import_chunk c importer_new =
     (Ok (), \<lparr>im_received = replicate (unat (ck_sequence c)) [] @ [ck_data c], im_total = Some (ck_total c)\<rparr>)"
    by (simp add: import_chunk_def importer_new_def resize_def Let_def list_update_append MAX_SLOTS_def
        replicate_append_same [symmetric])
next
  have "unat (- 1 :: u64) = 2 ^ 64 - 1" by (simp add: unsigned_minus_1_eq_mask mask_eq_exp_minus_1)
  moreover assume "ck_sequence c = - 1"
  ultimately show "fst (import_chunk c importer_new) = Panic"
    by (simp add: import_chunk_def importer_new_def Let_def)
next
  show "fst (import_chunk c (im\<lparr>im_total := Some t\<rparr>)) = Err (IoInvalidInput ''invalid chunk'') \<longleftrightarrow> t \<le> ck_sequence c"
    by (simp add: import_chunk_def Let_def)
qed

lemma replicate_two: "replicate 2 x = [x, x]"
  by (simp add: eval_nat_numeral)

theorem first_chunk_unchecked_witness:
  "import_chunk (snapshot_chunk_new 2 1 [9] False) importer_new
     = (Ok (), \<lparr>im_received = [[], [], [9]], im_total = Some 1\<rparr>)"
  using first_chunk_unchecked [of "snapshot_chunk_new 2 1 [9] False", THEN conjunct1]
  by (simp add: snapshot_chunk_new_def MAX_SLOTS_def replicate_two)

text \<open>
  Grouping: a snapshot holds, for every namespace and database, the entries of exactly the
  pending changes of that database, in the order they were added and each with its own reading
  of the clock, and validates; the
  serializer has no pending changes left.
\<close>

theorem snapshot_groups_changes:
  assumes "\<And>m. lists_entries (iter_ns m) m" "\<And>m. lists_entries (iter_db m) m"
  shows "let (snap, s') = build_snapshot hash iter_ns iter_db clock s
         in entries_of snap n d
              = map (\<lambda>(i, c). entry_of (clock i) c)
                  (filter (\<lambda>(i, c). ch_namespace c = n \<and> ch_database c = d) (enumerate 0 (sr_pending s)))
            \<and> distinct (map ns_name (dbs_namespaces snap))
            \<and> snapshot_validate hash snap \<and> sr_pending s' = [] \<and> sr_config s' = sr_config s"
proof -
  have "map ns_name (dbs_namespaces (fst (build_snapshot hash iter_ns iter_db clock s)))
      = map fst (iter_ns (fold (\<lambda>(i, c). group_change (clock i) c) (enumerate 0 (sr_pending s)) fmempty))"
    by (simp add: build_snapshot_def database_snapshot_new_def Let_def comp_def case_prod_unfold)
  moreover have "distinct (map fst (iter_ns m))" for m
    using assms(1) [of m] by (simp add: lists_entries_def)
  moreover have "grouped fmempty n d = []" by (simp add: grouped_def)
  moreover have "snapshot_validate hash (fst (build_snapshot hash iter_ns iter_db clock s))"
    "snd (build_snapshot hash iter_ns iter_db clock s) = s\<lparr>sr_pending := []\<rparr>"
    by (simp_all add: build_snapshot_def database_snapshot_new_def snapshot_validate_def Let_def)
  ultimately show ?thesis
    using entries_of_build [OF assms, of hash clock s n d]
    by (simp add: grouped_changes split_beta)
qed

theorem snapshot_groups_changes_witness:
  "entries_of (fst (build_snapshot (\<lambda>w. 0) sorted_list_of_fmap sorted_list_of_fmap (\<lambda>i. 7 + int i)
      (serializer_add_change (serializer_new snapshot_config_default) (change_set 1 0 ''n'' ''d'' [1] [2])))) ''n'' ''d''
   = [entry_of 7 (change_set 1 0 ''n'' ''d'' [1] [2])]"
  using snapshot_groups_changes [where hash = "\<lambda>w. 0" and clock = "\<lambda>i. 7 + int i" and n = "''n''" and d = "''d''"
      and s = "serializer_add_change (serializer_new snapshot_config_default) (change_set 1 0 ''n'' ''d'' [1] [2])",
      OF lists_entries_sorted lists_entries_sorted]
  by (simp add: serializer_add_change_def serializer_new_def change_set_def split_beta)

definition shape :: "namespace_snapshot list \<Rightarrow> (string \<times> (string \<times> nat) list) list" where
  "shape nss = map (\<lambda>n. (ns_name n, map (\<lambda>db. (ds_name db, length (ds_entries db))) (ns_databases n))) nss"

lemma checksum_writes_shape:
  "checksum_writes nss = concat (map (\<lambda>(n, dbs). HashBytes (as_bytes n)
     # concat (map (\<lambda>(d, k). [HashBytes (as_bytes d), HashUsize k]) dbs)) (shape nss))"
  by (simp add: checksum_writes_def shape_def comp_def)

text \<open>
  The checksum does not protect the data: it depends only on the names and the number of
  entries of each database, so a snapshot whose keys, values, timestamps or schemas were
  changed validates exactly when the original does.
\<close>

theorem checksum_ignores_contents:
  assumes "shape nss' = shape (dbs_namespaces s)"
  shows "snapshot_validate hash (s\<lparr>dbs_namespaces := nss'\<rparr>) \<longleftrightarrow> snapshot_validate hash s"
  using assms by (simp add: snapshot_validate_def calculate_checksum_def checksum_writes_shape)

theorem checksum_ignores_contents_witness:
  "let db = (\<lambda>v. \<lparr>ds_name = ''d'', ds_entries = [\<lparr>kv_key = Some [1], kv_value = Some v, kv_timestamp_secs = 0\<rparr>],
                  ds_schemas = []\<rparr>);
       s = database_snapshot_new (\<lambda>w. of_nat (length w)) 0 [\<lparr>ns_name = ''n'', ns_databases = [db [2]]\<rparr>]
   in snapshot_validate (\<lambda>w. of_nat (length w)) (s\<lparr>dbs_namespaces := [\<lparr>ns_name = ''n'', ns_databases = [db [9]]\<rparr>]\<rparr>)"
  unfolding Let_def
  by (subst checksum_ignores_contents) (simp_all add: shape_def database_snapshot_new_def snapshot_validate_def)

end
