(* ===== verification/Compress.thy ===== *)
theory Compress
  imports Prelude
begin

section \<open>Compression (\<open>src/compress.rs\<close>)\<close>

text \<open>
  The codec with the feature \<open>compression\<close>, its configuration, and the one without
  it. The two functions of \<open>zstd\<close> are arguments, with the types the source uses them
  at: \<open>decompress\<close> answers the number of bytes and the buffer it filled.
\<close>

record compression_config =
  cc_enabled :: bool
  cc_level :: int
  cc_min_size :: nat

definition compression_config_default :: compression_config where
  "compression_config_default = \<lparr>cc_enabled = True, cc_level = 3, cc_min_size = 64\<rparr>"

definition compression_with_enabled :: "bool \<Rightarrow> compression_config \<Rightarrow> compression_config" where
  "compression_with_enabled b c = c\<lparr>cc_enabled := b\<rparr>"

definition compression_with_level :: "int \<Rightarrow> compression_config \<Rightarrow> compression_config" where
  "compression_with_level l c = c\<lparr>cc_level := min 22 (max 1 l)\<rparr>"

definition compression_with_min_size :: "nat \<Rightarrow> compression_config \<Rightarrow> compression_config" where
  "compression_with_min_size n c = c\<lparr>cc_min_size := n\<rparr>"

record compressed_data =
  cd_data :: bytes
  cd_original_size :: nat
  cd_compressed :: bool

datatype compression_error =
  DecompressionFailed string | CompressionInvalidData string | BufferTooSmall nat nat

type_synonym zstd_compress = "bytes \<Rightarrow> int \<Rightarrow> bytes"
type_synonym zstd_decompress = "bytes \<Rightarrow> nat \<Rightarrow> string + nat \<times> bytes"

definition compress :: "zstd_compress \<Rightarrow> bytes \<Rightarrow> compression_config \<Rightarrow> compressed_data" where
  "compress zc data config =
     (let original_size = length data;
          plain = \<lparr>cd_data = data, cd_original_size = original_size, cd_compressed = False\<rparr>
      in if \<not> cc_enabled config \<or> original_size < cc_min_size config then plain
         else let compressed = zc data (cc_level config)
              in if length compressed < original_size
                 then \<lparr>cd_data = compressed, cd_original_size = original_size, cd_compressed = True\<rparr>
                 else plain)"

definition decompress ::
  "zstd_decompress \<Rightarrow> bytes \<Rightarrow> nat option \<Rightarrow> (compression_error, bytes) outcome" where
  "decompress zd data expected_size =
     (let output_size = (case expected_size of Some n \<Rightarrow> n | None \<Rightarrow> 10 * 1024 * 1024)
      in map_err DecompressionFailed
           (and_then (of_result (zd data output_size)) (\<lambda>(size, output). Ok (take size output))))"

definition encode_compressed :: "zstd_compress \<Rightarrow> bytes \<Rightarrow> compression_config \<Rightarrow> bytes" where
  "encode_compressed zc data config =
     (let c = compress zc data config
      in [if cd_compressed c then 1 else 0]
         @ (if cd_compressed c then to_be_bytes (of_nat (cd_original_size c)) else [])
         @ cd_data c)"

definition decode_compressed :: "zstd_decompress \<Rightarrow> bytes \<Rightarrow> (compression_error, bytes) outcome" where
  "decode_compressed zd data =
     (case data of
        [] \<Rightarrow> Err (CompressionInvalidData ''empty data'')
      | header # rest \<Rightarrow>
          if header AND 1 = 1 then
            if length data < 5 then Err (CompressionInvalidData ''truncated compressed data'')
            else decompress zd (drop 4 rest) (Some (unat (from_be_bytes (take 4 rest))))
          else Ok rest)"

text \<open>Without the feature.\<close>

definition compress_off :: "bytes \<Rightarrow> compression_config \<Rightarrow> compressed_data" where
  "compress_off data config = \<lparr>cd_data = data, cd_original_size = length data, cd_compressed = False\<rparr>"

definition decompress_off :: "bytes \<Rightarrow> nat option \<Rightarrow> (compression_error, bytes) outcome" where
  "decompress_off data expected_size = Ok data"

definition encode_compressed_off :: "bytes \<Rightarrow> compression_config \<Rightarrow> bytes" where
  "encode_compressed_off data config = data"

definition decode_compressed_off :: "bytes \<Rightarrow> (compression_error, bytes) outcome" where
  "decode_compressed_off data = Ok data"

subsection \<open>Properties\<close>

text \<open>
  C30. Decoding gives back what was encoded. With the feature \<open>compression\<close>:
  compressed or not, for every configuration, as long as the data is shorter than
  \<open>2^32\<close> bytes (the length is sent in 32 bits) and \<open>zstd\<close> decompresses
  what it compressed; and the encoding is at most 4 bytes longer than the data. Without the
  feature: for all data, and the encoding is as long as the data.
\<close>

theorem compression_roundtrip:
  assumes "length data < 2 ^ 32"
    and "zd (zc data (cc_level config)) (length data) = Inr (length data, data)"
  shows "decode_compressed zd (encode_compressed zc data config) = Ok data
    \<and> length (encode_compressed zc data config) \<le> length data + 4
    \<and> decode_compressed_off (encode_compressed_off data config) = Ok data
    \<and> length (encode_compressed_off data config) = length data"
proof (cases "cd_compressed (compress zc data config)")
  case False
  then have "encode_compressed zc data config = 0 # data"
    by (auto simp: encode_compressed_def compress_def Let_def)
  then show ?thesis by (simp add: decode_compressed_def encode_compressed_off_def decode_compressed_off_def)
next
  case True
  let ?c = "zc data (cc_level config)"
  from True have short: "length ?c < length data"
    and enc: "encode_compressed zc data config = 1 # to_be_bytes (of_nat (length data)) @ ?c"
    by (auto simp: encode_compressed_def compress_def Let_def split: if_splits)
  have len: "unat (of_nat (length data) :: u32) = length data"
    by (rule unat_of_nat_u32 [OF assms(1)])
  then show ?thesis
    using short assms(2)
    by (simp add: enc decode_compressed_def decompress_def encode_compressed_off_def decode_compressed_off_def)
qed

theorem compression_roundtrip_witness:
  "decode_compressed (\<lambda>c n. Inr (n, replicate n 7))
     (encode_compressed (\<lambda>d l. [9]) (replicate 100 7) compression_config_default) = Ok (replicate 100 7)"
  using compression_roundtrip [of "replicate 100 7" "\<lambda>c n. Inr (n, replicate n 7)" "\<lambda>d l. [9]"
      compression_config_default] by simp

text \<open>
  Builds with and without the feature do not understand each other: the build without
  sends the data as it is, and the build with the feature takes its first byte for a header,
  so it drops that byte when it is even, and fails or decompresses garbage when it is odd;
  the other way round the receiver gets the header byte as part of the data.
\<close>

theorem mixed_builds_corrupt:
  "decode_compressed zd (encode_compressed_off [] config)
     = Err (CompressionInvalidData ''empty data'')
   \<and> decode_compressed zd (encode_compressed_off (b # data) config)
     = (if b AND 1 = 1 then
          (if length data < 4 then Err (CompressionInvalidData ''truncated compressed data'')
           else decompress zd (drop 4 data) (Some (unat (from_be_bytes (take 4 data)))))
        else Ok data)
   \<and> decode_compressed_off (encode_compressed zc data (config\<lparr>cc_enabled := False\<rparr>)) = Ok (0 # data)"
  by (simp add: decode_compressed_def encode_compressed_off_def decode_compressed_off_def
        encode_compressed_def compress_def)

end
