(* ===== verification/Protocol.thy ===== *)
theory Protocol
  imports Sync_Manager
begin

section \<open>The sync protocol (\<open>src/protocol.rs\<close>)\<close>

text \<open>
  Both ends of a sync connection. A message travels as a frame: its length as a big-endian
  \<open>u32\<close>, then its bytes; a zero length ends the stream. What the network does is a
  \<open>link\<close>: the bytes the peer sends before its stream ends, and the errors of opening
  the stream, of each write and of finishing. The JSON functions and the bytes of an endpoint
  identifier come with the \<open>proto_lib\<close> record.
\<close>

subsection \<open>Library functions and the link\<close>

record 'id proto_lib =
  pl_to_json :: json_printer
  pl_from_json :: json_parser
  pl_codec_text :: "codec_error \<Rightarrow> string"
  pl_id_bytes :: "'id \<Rightarrow> bytes"

record link =
  lk_connect :: "string option"
  lk_open :: "string option"
  lk_recv :: bytes
  lk_recv_error :: string
  lk_write :: "nat \<Rightarrow> string option"
  lk_finish :: "string option"

definition ALPN :: bytes where
  "ALPN = as_bytes ''surrealdb/iroh-sync/1''"

text \<open>
  The constants of the crate root (\<open>lib.rs\<close>): discovery connects with its protocol
  name, the handler with its own; the version is not used.
\<close>

definition SYNC_ALPN :: bytes where
  "SYNC_ALPN = as_bytes ''surrealdb/iroh-sync/1''"

definition PROTOCOL_VERSION :: u32 where
  "PROTOCOL_VERSION = 1"

lemma alpn_agree: "SYNC_ALPN = ALPN"
  by (simp add: SYNC_ALPN_def ALPN_def)

definition MAX_MESSAGE_SIZE :: nat where
  "MAX_MESSAGE_SIZE = 16 * 1024 * 1024"

subsection \<open>Processing a message\<close>

definition process_message ::
  "'id sync_manager \<Rightarrow> sync_message \<Rightarrow> u64 \<Rightarrow> sync_message result \<times> 'id sync_manager" where
  "process_message m msg local_offset =
     (case msg of
        Request off limit \<Rightarrow>
          let changes = get_changes_since m off;
              changes = (case limit of None \<Rightarrow> changes | Some l \<Rightarrow> take l changes);
              new_offset = off + of_nat (length changes);
              is_final = (changes = [] \<or> sm_offset m \<le> new_offset)
          in (Ok (Response \<lparr>cb_offset = new_offset, cb_changes = changes, cb_is_final = is_final\<rparr>), m)
      | Response batch \<Rightarrow>
          (Ok (Ack (cb_offset batch)), foldl (\<lambda>m c. snd (record_change m c)) m (cb_changes batch))
      | Ack _ \<Rightarrow> (Ok (Ack local_offset), m)
      | Ping \<Rightarrow> (Ok Pong, m)
      | Pong \<Rightarrow> (Ok Ping, m))"

subsection \<open>Frames\<close>

datatype recv =
    RecvClosed \<comment> \<open>no length: the stream ended\<close>
  | RecvEnd \<comment> \<open>length zero\<close>
  | RecvTooLarge
  | RecvTruncated
  | RecvFrame bytes bytes \<comment> \<open>the message and the rest of the stream\<close>

definition recv_frame :: "bytes \<Rightarrow> recv" where
  "recv_frame rx =
     (case read_exact 4 rx of
        None \<Rightarrow> RecvClosed
      | Some (len_buf, rest) \<Rightarrow>
          let len = from_be_bytes len_buf
          in if len = 0 then RecvEnd
             else if unat len > MAX_MESSAGE_SIZE then RecvTooLarge
             else (case read_exact (unat len) rest of
                     None \<Rightarrow> RecvTruncated
                   | Some (msg, rest') \<Rightarrow> RecvFrame msg rest'))"

text \<open>The two writes of a message; the length is cut to 32 bits.\<close>

definition frame :: "bytes \<Rightarrow> bytes" where
  "frame bs = to_be_bytes (of_nat (length bs)) @ bs"

definition too_large :: error where
  "too_large = Connection ''message size exceeds maximum allowed''"

text \<open>The sending side: the bytes written and the number of \<open>write_all\<close> calls made.\<close>

type_synonym 'id wire_state = "'id sync_manager \<times> bytes \<times> nat"

fun write_all :: "link \<Rightarrow> bytes \<Rightarrow> bytes \<times> nat \<Rightarrow> error option \<times> bytes \<times> nat" where
  "write_all lk bs (out, k) =
     (case lk_write lk k of
        None \<Rightarrow> (None, out @ bs, Suc k)
      | Some e \<Rightarrow> (Some (Connection e), out, Suc k))"

definition send_message :: "link \<Rightarrow> bytes \<Rightarrow> bytes \<times> nat \<Rightarrow> error option \<times> bytes \<times> nat" where
  "send_message lk enc out =
     (case write_all lk (to_be_bytes (of_nat (length enc))) out of
        (Some e, out') \<Rightarrow> (Some e, out')
      | (None, out') \<Rightarrow> write_all lk enc out')"

datatype 's flow = Continue 's | Break 's | Return error 's

subsection \<open>The accepting side\<close>

text \<open>The body of the message loop, once the message has been read.\<close>

definition serve_frame ::
  "'id proto_lib \<Rightarrow> link \<Rightarrow> u64 \<Rightarrow> 'id wire_state \<Rightarrow> bytes \<Rightarrow> 'id wire_state flow" where
  "serve_frame lib lk local_offset st msg =
     (case st of (m, out) \<Rightarrow>
        case decode_message (pl_from_json lib) msg of
          Ok request \<Rightarrow>
            (case process_message m request local_offset of
               (Ok response, m') \<Rightarrow>
                 (case encode_message (pl_to_json lib) response of
                    Ok enc \<Rightarrow>
                      (case send_message lk enc out of
                         (None, out') \<Rightarrow> Continue (m', out')
                       | (Some e, out') \<Rightarrow> Return e (m', out'))
                  | Err e \<Rightarrow> Return (Encoding (pl_codec_text lib e)) (m', out)
                  | Panic \<Rightarrow> Break (m', out))
             | (Err e, m') \<Rightarrow> Return e (m', out)
             | (Panic, m') \<Rightarrow> Break (m', out))
        | _ \<Rightarrow> Break (m, out))"

lemma recv_frame_shorter: "recv_frame rx = RecvFrame msg rest \<Longrightarrow> length rest < length rx"
  by (auto simp: recv_frame_def Let_def read_exact_Some_iff split: option.splits if_splits)

function handle_loop ::
  "'id proto_lib \<Rightarrow> link \<Rightarrow> u64 \<Rightarrow> 'id wire_state \<Rightarrow> bytes \<Rightarrow> error option \<times> 'id wire_state" where
  "handle_loop lib lk local_offset st rx =
     (case recv_frame rx of
        RecvClosed \<Rightarrow> (None, st)
      | RecvEnd \<Rightarrow> (None, st)
      | RecvTooLarge \<Rightarrow> (Some too_large, st)
      | RecvTruncated \<Rightarrow> (None, st)
      | RecvFrame msg rest \<Rightarrow>
          (case serve_frame lib lk local_offset st msg of
             Continue st' \<Rightarrow> handle_loop lib lk local_offset st' rest
           | Break st' \<Rightarrow> (None, st')
           | Return e st' \<Rightarrow> (Some e, st')))"
  by pat_completeness auto
termination
  by (relation "measure (\<lambda>(lib, lk, off, st, rx). length rx)") (auto dest: recv_frame_shorter)

declare handle_loop.simps [simp del]

definition handle_connection ::
  "'id proto_lib \<Rightarrow> link \<Rightarrow> 'id \<Rightarrow> 'id sync_manager \<Rightarrow> unit result \<times> 'id sync_manager \<times> bytes" where
  "handle_connection lib lk pid m =
     (case lk_open lk of
        Some e \<Rightarrow> (Err (Connection e), m, [])
      | None \<Rightarrow>
          let m1 = update_peer_state (pl_id_bytes lib) m pid Syncing
          in case handle_loop lib lk (sm_offset m1) (m1, [], 0) (lk_recv lk) of
               (Some e, m2, out, k) \<Rightarrow> (Err e, m2, out)
             | (None, m2, out, k) \<Rightarrow>
                 (case lk_finish lk of
                    Some e \<Rightarrow> (Err (ConnectionClosed e), m2, out)
                  | None \<Rightarrow> (Ok (), update_peer_state (pl_id_bytes lib) m2 pid Synchronized, out)))"

subsection \<open>The connecting side\<close>

text \<open>What the client does with a decoded message, and whether it leaves its loop.\<close>

definition client_message :: "'id sync_manager \<Rightarrow> sync_message \<Rightarrow> 'id sync_manager \<times> bool" where
  "client_message m msg =
     (case msg of
        Response batch \<Rightarrow> (snd (apply_changes m (cb_changes batch)), False)
      | Ack _ \<Rightarrow> (m, True)
      | _ \<Rightarrow> (m, False))"

function client_loop ::
  "'id proto_lib \<Rightarrow> link \<Rightarrow> 'id sync_manager \<Rightarrow> bytes \<Rightarrow> error option \<times> 'id sync_manager" where
  "client_loop lib lk m rx =
     (case recv_frame rx of
        RecvClosed \<Rightarrow> (None, m)
      | RecvEnd \<Rightarrow> (None, m)
      | RecvTooLarge \<Rightarrow> (Some too_large, m)
      | RecvTruncated \<Rightarrow> (Some (Connection (lk_recv_error lk)), m)
      | RecvFrame msg rest \<Rightarrow>
          (case decode_message (pl_from_json lib) msg of
             Ok response \<Rightarrow>
               (case client_message m response of
                  (m', True) \<Rightarrow> (None, m')
                | (m', False) \<Rightarrow> client_loop lib lk m' rest)
           | Err e \<Rightarrow> (Some (Encoding (pl_codec_text lib e)), m)
           | Panic \<Rightarrow> (None, m)))"
  by pat_completeness auto
termination
  by (relation "measure (\<lambda>(lib, lk, m, rx). length rx)") (auto dest: recv_frame_shorter)

declare client_loop.simps [simp del]

definition connect_and_sync ::
  "'id proto_lib \<Rightarrow> link \<Rightarrow> 'id \<Rightarrow> 'id sync_manager \<Rightarrow> unit result \<times> 'id sync_manager \<times> bytes" where
  "connect_and_sync lib lk pid m =
     (case lk_connect lk of
        Some e \<Rightarrow> (Err (Connection e), m, [])
      | None \<Rightarrow>
        case lk_open lk of
          Some e \<Rightarrow> (Err (Connection e), m, [])
        | None \<Rightarrow>
            let m1 = update_peer_state (pl_id_bytes lib) m pid Syncing;
                request = Request (sm_offset m1) (Some 1000)
            in case encode_message (pl_to_json lib) request of
                 Err e \<Rightarrow> (Err (Encoding (pl_codec_text lib e)), m1, [])
               | Panic \<Rightarrow> (Panic, m1, [])
               | Ok enc \<Rightarrow>
                   (case send_message lk enc ([], 0) of
                      (Some e, out, k) \<Rightarrow> (Err e, m1, out)
                    | (None, out, k) \<Rightarrow>
                        (case client_loop lib lk m1 (lk_recv lk) of
                           (Some e, m2) \<Rightarrow> (Err e, m2, out)
                         | (None, m2) \<Rightarrow>
                             (case write_all lk [0, 0, 0, 0] (out, k) of
                                (Some e, out', k') \<Rightarrow> (Err e, m2, out')
                              | (None, out', k') \<Rightarrow>
                                  (case lk_finish lk of
                                     Some e \<Rightarrow> (Err (ConnectionClosed e), m2, out')
                                   | None \<Rightarrow>
                                       (Ok (), update_peer_state (pl_id_bytes lib) m2 pid Synchronized,
                                        out'))))))"

subsection \<open>Frames are a framing\<close>

definition wire_get :: "bytes \<Rightarrow> (bytes \<times> bytes) option" where
  "wire_get rx = (case recv_frame rx of RecvFrame msg rest \<Rightarrow> Some (msg, rest) | _ \<Rightarrow> None)"

definition wire_valid :: "bytes \<Rightarrow> bool" where
  "wire_valid bs \<longleftrightarrow> bs \<noteq> [] \<and> length bs \<le> MAX_MESSAGE_SIZE"

lemma wire_get_Some_iff: "wire_get rx = Some (msg, rest) \<longleftrightarrow> recv_frame rx = RecvFrame msg rest"
  by (auto simp: wire_get_def split: recv.splits)

lemma recv_frame_frame [codec_simps]:
  assumes "wire_valid bs" shows "recv_frame (frame bs @ rest) = RecvFrame bs rest"
proof -
  have len: "unat (of_nat (length bs) :: u32) = length bs"
    using assms by (intro unat_of_nat_u32) (simp add: wire_valid_def MAX_MESSAGE_SIZE_def)
  moreover from len have "(of_nat (length bs) :: u32) \<noteq> 0"
    using assms by (metis length_0_conv unat_0 wire_valid_def)
  ultimately show ?thesis
    using assms
    by (simp add: recv_frame_def frame_def wire_valid_def Let_def)
qed

interpretation wire: framing frame wire_get wire_valid
  by unfold_locales (simp add: wire_get_Some_iff recv_frame_frame)

lemma recv_frame_end [codec_simps]: "recv_frame ([0, 0, 0, 0] @ rest) = RecvEnd"
proof -
  have "from_be_bytes [0, 0, 0, 0] = 0" by (simp add: from_be_bytes_def)
  then show ?thesis
    by (simp only: recv_frame_def) (simp add: read_exact_def)
qed

lemma recv_frame_empty [simp]: "recv_frame [] = RecvClosed"
  by (simp add: recv_frame_def read_exact_def)

lemma recv_frame_bounded:
  "recv_frame rx = RecvFrame msg rest \<Longrightarrow> msg \<noteq> [] \<and> length msg \<le> MAX_MESSAGE_SIZE"
  by (auto simp: recv_frame_def Let_def read_exact_Some_iff unat_eq_0 split: option.splits if_splits)

subsection \<open>Requests\<close>

text \<open>A request changes nothing and is answered with one page of the log.\<close>

definition page :: "'id sync_manager \<Rightarrow> u64 \<Rightarrow> nat option \<Rightarrow> change list" where
  "page m off limit =
     (case limit of None \<Rightarrow> get_changes_since m off | Some l \<Rightarrow> take l (get_changes_since m off))"

lemma process_request:
  "process_message m (Request off limit) lo =
     (Ok (Response \<lparr>cb_offset = off + of_nat (length (page m off limit)),
                    cb_changes = page m off limit,
                    cb_is_final = (page m off limit = []
                       \<or> sm_offset m \<le> off + of_nat (length (page m off limit)))\<rparr>), m)"
  by (simp add: process_message_def page_def Let_def)

lemma process_message_Ok: "\<exists>r m'. process_message m msg lo = (Ok r, m')"
  by (cases msg) (simp_all add: process_message_def Let_def)

lemma page_represents:
  assumes "represents m h" "length h - unat off \<le> sm_max_changes m"
  shows "page m off limit = (case limit of None \<Rightarrow> drop (unat off) h | Some l \<Rightarrow> take l (drop (unat off) h))"
  using sync_log.since_complete [OF assms] by (simp add: page_def split: option.split)

lemma page_length: "represents m h \<Longrightarrow> length (page m off limit) \<le> length h - unat off"
  by (auto simp: page_def sync_log.repr_since split: option.split)

lemma page_offset:
  assumes r: "represents m h"
  shows "unat (off + of_nat (length (page m off limit))) = unat off + length (page m off limit)"
proof -
  have "unat off + length (page m off limit) < 2 ^ 64"
    using page_length [OF r, of off limit] sync_log.repr_length [OF r]
      unsigned_less [of off, where 'a = nat] by simp
  then show ?thesis
    by (simp add: unat_word_ariths unat_of_nat take_bit_nat_eq_self)
qed

subsection \<open>The serving loop on well-formed input\<close>

definition enc :: "'id proto_lib \<Rightarrow> sync_message \<Rightarrow> bytes" where
  "enc lib msg = (case encode_message (pl_to_json lib) msg of Ok bs \<Rightarrow> bs | _ \<Rightarrow> [])"

definition encodable :: "'id proto_lib \<Rightarrow> sync_message \<Rightarrow> bool" where
  "encodable lib msg \<longleftrightarrow> json_faithful (pl_to_json lib) (pl_from_json lib) msg \<and> wire_valid (enc lib msg)"

text \<open>The specification of a server: the answers to a list of messages, and the final state.\<close>

fun answers :: "u64 \<Rightarrow> 'id sync_manager \<Rightarrow> sync_message list \<Rightarrow> sync_message list \<times> 'id sync_manager" where
  "answers lo m [] = ([], m)"
| "answers lo m (q # qs) =
     (case process_message m q lo of
        (Ok r, m') \<Rightarrow> (let (rs, m'') = answers lo m' qs in (r # rs, m''))
      | (_, m') \<Rightarrow> ([], m'))"

definition reliable :: "link \<Rightarrow> bool" where
  "reliable lk \<longleftrightarrow> lk_connect lk = None \<and> lk_open lk = None \<and> (\<forall>k. lk_write lk k = None)
     \<and> lk_finish lk = None"

lemma send_message_reliable:
  "reliable lk \<Longrightarrow> send_message lk bs (out, k) = (None, out @ frame bs, k + 2)"
  by (simp add: send_message_def reliable_def frame_def)

lemma encodable_codec:
  assumes "encodable lib q"
  shows "encode_message (pl_to_json lib) q = Ok (enc lib q)"
    and "decode_message (pl_from_json lib) (enc lib q) = Ok q"
  using assms by (auto simp: encodable_def json_faithful_def enc_def encode_message_def decode_message_def)

lemma serve_frame_answer:
  assumes "encodable lib q" "process_message m q lo = (Ok r, m')" "encodable lib r" "reliable lk"
  shows "serve_frame lib lk lo (m, out, k) (enc lib q) = Continue (m', out @ frame (enc lib r), k + 2)"
  using assms by (simp add: serve_frame_def encodable_codec send_message_reliable)

lemma handle_loop_answers:
  assumes "reliable lk" "\<forall>q \<in> set qs. encodable lib q"
    and "\<forall>r \<in> set (fst (answers lo m qs)). encodable lib r"
  shows "handle_loop lib lk lo (m, out, k) (concat (map (frame \<circ> enc lib) qs) @ rest)
       = handle_loop lib lk lo (snd (answers lo m qs),
           out @ concat (map (frame \<circ> enc lib) (fst (answers lo m qs))), k + 2 * length qs) rest"
  using assms(2,3)
proof (induction qs arbitrary: m out k)
  case Nil
  then show ?case by simp
next
  case (Cons q qs)
  obtain r m' where pm: "process_message m q lo = (Ok r, m')"
    using process_message_Ok by blast
  then have "encodable lib q" "encodable lib r"
    using Cons.prems by (auto simp: split_beta)
  then have step: "handle_loop lib lk lo (m, out, k) (frame (enc lib q) @ xs)
      = handle_loop lib lk lo (m', out @ frame (enc lib r), k + 2) xs" for xs
    using pm assms(1)
    by (subst handle_loop.simps) (simp add: recv_frame_frame encodable_def serve_frame_answer)
  have "\<forall>r \<in> set (fst (answers lo m' qs)). encodable lib r"
    using Cons.prems pm by (auto simp: split_beta)
  with Cons.IH [of m' "out @ frame (enc lib r)" "k + 2"] Cons.prems pm show ?case
    by (simp add: step split_beta)
qed

lemma handle_loop_stop:
  "handle_loop lib lk lo st [] = (None, st)"
  "handle_loop lib lk lo st ([0, 0, 0, 0] @ rest) = (None, st)"
  by (simp_all add: handle_loop.simps recv_frame_end del: append.simps)

subsection \<open>Paging\<close>

text \<open>
  A reader of the protocol: it requests pages of \<open>l\<close> changes, each from the offset the last
  response carried, until a response is marked final. \<open>Suc\<close> of the number of outstanding
  changes is enough fuel.
\<close>

fun read_pages :: "nat \<Rightarrow> 'id sync_manager \<Rightarrow> u64 \<Rightarrow> nat \<Rightarrow> change list option" where
  "read_pages 0 m off l = None"
| "read_pages (Suc n) m off l =
     (case fst (process_message m (Request off (Some l)) 0) of
        Ok (Response b) \<Rightarrow>
          if cb_is_final b then Some (cb_changes b)
          else map_option ((@) (cb_changes b)) (read_pages n m (cb_offset b) l)
      | _ \<Rightarrow> None)"

lemma read_pages_complete:
  assumes "represents m h" "0 < l"
  shows "length h - unat off < n \<Longrightarrow> length h - unat off \<le> sm_max_changes m \<Longrightarrow>
           read_pages n m off l = Some (drop (unat off) h)"
proof (induction n arbitrary: off)
  case 0
  then show ?case by simp
next
  case (Suc n)
  let ?p = "page m off (Some l)" and ?off' = "off + of_nat (length (page m off (Some l)))"
  have p: "?p = take l (drop (unat off) h)"
    using page_represents [OF assms(1) Suc.prems(2), of "Some l"] by simp
  have off': "unat ?off' = unat off + length ?p"
    by (rule page_offset [OF assms(1)])
  have tail: "sm_offset m \<le> ?off' \<longleftrightarrow> length h \<le> unat off + length ?p"
    using represents_tail [OF assms(1)] off' by (simp add: word_le_nat_alt)
  show ?case
  proof (cases "?p = [] \<or> sm_offset m \<le> ?off'")
    case True
    then have "take l (drop (unat off) h) = [] \<or> length h \<le> unat off + min (length h - unat off) l"
      unfolding tail by (simp add: p)
    then have "length h - unat off \<le> l" using assms(2) by auto
    then have "?p = drop (unat off) h" by (simp add: p)
    with True show ?thesis by (simp add: process_request)
  next
    case False
    then have "\<not> length h \<le> unat off + min (length h - unat off) l"
      unfolding tail by (simp add: p)
    then have l: "length ?p = l" and lt: "unat off + l < length h"
      by (simp_all add: p)
    have "unat ?off' = unat off + l" using off' l by simp
    then have "length h - unat ?off' < n" "length h - unat ?off' \<le> sm_max_changes m"
      using Suc.prems assms(2) lt by linarith+
    then have "read_pages n m ?off' l = Some (drop (unat ?off') h)"
      by (rule Suc.IH)
    moreover have "?p @ drop (unat ?off') h = drop (unat off) h"
      using append_take_drop_id [of l "drop (unat off) h"] \<open>unat ?off' = unat off + l\<close>
      by (simp add: p add.commute)
    ultimately show ?thesis using False by (simp add: process_request)
  qed
qed

subsection \<open>Both ends together\<close>

text \<open>
  The session of \<open>connect_and_sync\<close> with \<open>handle_connection\<close> over a
  connection that loses nothing, at the level of messages: either end moves when a message for it
  is in flight. \<open>EndOfStream\<close> is the zero length the client writes when it leaves its
  loop, and what the client reads when the server finishes its stream.
\<close>

datatype wire = Msg sync_message | EndOfStream

record 'id session =
  ss_client :: "'id sync_manager"
  ss_client_in_loop :: bool
  ss_server :: "'id sync_manager"
  ss_server_in_loop :: bool
  ss_local_offset :: u64
  ss_to_server :: "wire list"
  ss_to_client :: "wire list"

definition session_start :: "'id sync_manager \<Rightarrow> 'id sync_manager \<Rightarrow> 'id session" where
  "session_start client server =
     \<lparr>ss_client = client, ss_client_in_loop = True, ss_server = server, ss_server_in_loop = True,
      ss_local_offset = sm_offset server,
      ss_to_server = [Msg (Request (sm_offset client) (Some 1000))], ss_to_client = []\<rparr>"

inductive session_step :: "'id session \<Rightarrow> 'id session \<Rightarrow> bool" where
  server_message:
    "ss_server_in_loop s \<Longrightarrow> ss_to_server s = Msg q # ws \<Longrightarrow>
     process_message (ss_server s) q (ss_local_offset s) = (Ok r, server') \<Longrightarrow>
     session_step s (s\<lparr>ss_server := server', ss_to_server := ws,
                       ss_to_client := ss_to_client s @ [Msg r]\<rparr>)"
| server_end:
    "ss_server_in_loop s \<Longrightarrow> ss_to_server s = EndOfStream # ws \<Longrightarrow>
     session_step s (s\<lparr>ss_server_in_loop := False, ss_to_server := ws,
                       ss_to_client := ss_to_client s @ [EndOfStream]\<rparr>)"
| client_continues:
    "ss_client_in_loop s \<Longrightarrow> ss_to_client s = Msg r # ws \<Longrightarrow>
     client_message (ss_client s) r = (client', False) \<Longrightarrow>
     session_step s (s\<lparr>ss_client := client', ss_to_client := ws\<rparr>)"
| client_leaves:
    "ss_client_in_loop s \<Longrightarrow> ss_to_client s = Msg r # ws \<Longrightarrow>
     client_message (ss_client s) r = (client', True) \<Longrightarrow>
     session_step s (s\<lparr>ss_client := client', ss_client_in_loop := False, ss_to_client := ws,
                       ss_to_server := ss_to_server s @ [EndOfStream]\<rparr>)"
| client_end:
    "ss_client_in_loop s \<Longrightarrow> ss_to_client s = EndOfStream # ws \<Longrightarrow>
     session_step s (s\<lparr>ss_client_in_loop := False, ss_to_client := ws,
                       ss_to_server := ss_to_server s @ [EndOfStream]\<rparr>)"

inductive session_reaches :: "'id session \<Rightarrow> 'id session \<Rightarrow> bool" for s0 where
  session_refl: "session_reaches s0 s0"
| session_next: "session_reaches s0 s \<Longrightarrow> session_step s t \<Longrightarrow> session_reaches s0 t"

inductive_cases session_stepE: "session_step s t"

definition quiet :: "'id session \<Rightarrow> bool" where
  "quiet s \<longleftrightarrow> ss_to_server s = [] \<and> ss_to_client s = []"

lemma quiet_stuck: "quiet s \<Longrightarrow> \<not> session_step s t"
  by (auto simp: quiet_def elim: session_stepE)

text \<open>The three states of a session: request sent, response sent, response applied.\<close>

definition first_response :: "'id sync_manager \<Rightarrow> 'id sync_manager \<Rightarrow> change_batch" where
  "first_response client server =
     (let cs = page server (sm_offset client) (Some 1000);
          off = sm_offset client + of_nat (length cs)
      in \<lparr>cb_offset = off, cb_changes = cs, cb_is_final = (cs = [] \<or> sm_offset server \<le> off)\<rparr>)"

definition session_replied :: "'id sync_manager \<Rightarrow> 'id sync_manager \<Rightarrow> 'id session" where
  "session_replied client server = (session_start client server)
     \<lparr>ss_to_server := [], ss_to_client := [Msg (Response (first_response client server))]\<rparr>"

definition session_applied :: "'id sync_manager \<Rightarrow> 'id sync_manager \<Rightarrow> 'id session" where
  "session_applied client server = (session_start client server)
     \<lparr>ss_client := snd (apply_changes client (cb_changes (first_response client server))),
      ss_to_server := [], ss_to_client := []\<rparr>"

lemmas session_states = session_start_def session_replied_def session_applied_def
  first_response_def process_request client_message_def Let_def

lemma session_start_step:
  "session_step (session_start c s) t \<longleftrightarrow> t = session_replied c s"
proof
  assume "session_step (session_start c s) t"
  then show "t = session_replied c s"
    by (elim session_stepE) (auto simp: session_states)
next
  assume "t = session_replied c s"
  moreover have "session_step (session_start c s) (session_replied c s)"
    using session_step.server_message [of "session_start c s" "Request (sm_offset c) (Some 1000)" "[]"
        "Response (first_response c s)" s]
    by (simp add: session_states)
  ultimately show "session_step (session_start c s) t" by simp
qed

lemma session_replied_step:
  "session_step (session_replied c s) t \<longleftrightarrow> t = session_applied c s"
proof
  assume "session_step (session_replied c s) t"
  then show "t = session_applied c s"
    by (elim session_stepE) (auto simp: session_states)
next
  assume "t = session_applied c s"
  moreover have "session_step (session_replied c s) (session_applied c s)"
    using session_step.client_continues [of "session_replied c s" "Response (first_response c s)" "[]"
        "snd (apply_changes c (cb_changes (first_response c s)))"]
    by (simp add: session_states)
  ultimately show "session_step (session_replied c s) t" by simp
qed

lemma session_applied_quiet: "quiet (session_applied c s)"
  by (simp add: quiet_def session_applied_def)

lemma session_reaches_iff:
  "session_reaches (session_start c s) t \<longleftrightarrow>
     t = session_start c s \<or> t = session_replied c s \<or> t = session_applied c s"
proof
  assume "session_reaches (session_start c s) t"
  then show "t = session_start c s \<or> t = session_replied c s \<or> t = session_applied c s"
    by (induction rule: session_reaches.induct)
       (auto simp: session_start_step session_replied_step quiet_stuck [OF session_applied_quiet])
next
  have r: "session_reaches (session_start c s) (session_replied c s)"
    by (rule session_next [OF session_refl]) (simp add: session_start_step)
  have "session_reaches (session_start c s) (session_applied c s)"
    by (rule session_next [OF r]) (simp add: session_replied_step)
  then show "t = session_start c s \<or> t = session_replied c s \<or> t = session_applied c s \<Longrightarrow>
      session_reaches (session_start c s) t"
    using r session_refl by auto
qed

subsection \<open>Properties\<close>

text \<open>
  C4. A request is served from the log: on a manager of capacity \<open>n\<close> that recorded
  the changes \<open>cs\<close> (fewer than \<open>2 ^ 64\<close>, one call after the other), the
  answer carries the changes from the requested offset on (cut to the last \<open>n\<close> and
  then to the limit), its offset is the requested one plus their number, without wrap-around, it
  is final exactly when it is empty or reaches the tail, and the manager is not changed.
\<close>

theorem request_refines:
  assumes "length cs < 2 ^ 64"
  shows "let m = record_all (sync_manager_new n :: 'id sync_manager) cs;
             served = last_n n (drop (unat off) cs);
             expected = (case limit of None \<Rightarrow> served | Some l \<Rightarrow> take l served)
         in \<exists>b. process_message m (Request off limit) local_offset = (Ok (Response b), m)
              \<and> cb_changes b = expected
              \<and> unat (cb_offset b) = unat off + length expected
              \<and> (cb_is_final b \<longleftrightarrow> expected = [] \<or> length cs \<le> unat off + length expected)"
proof -
  let ?m = "record_all (sync_manager_new n :: 'id sync_manager) cs"
  let ?p = "page ?m off limit"
  have r: "represents ?m cs"
    using sync_log.repr_appends [OF represents_new, of cs n] assms by simp
  have cap: "sm_max_changes ?m = n"
    by (simp only: sync_log.cap_appends) (simp add: sync_manager_new_def)
  have p: "?p = (case limit of None \<Rightarrow> last_n n (drop (unat off) cs)
                 | Some l \<Rightarrow> take l (last_n n (drop (unat off) cs)))"
    using sync_log.repr_since [OF r, of off] by (simp add: page_def cap split: option.split)
  have off': "unat (off + of_nat (length ?p)) = unat off + length ?p"
    by (rule page_offset [OF r])
  then have "sm_offset ?m \<le> off + of_nat (length ?p) \<longleftrightarrow> length cs \<le> unat off + length ?p"
    using represents_tail [OF r] by (simp add: word_le_nat_alt)
  with off' show ?thesis
    unfolding Let_def p [symmetric] by (simp add: process_request)
qed

theorem request_refines_witness:
  "\<exists>b. process_message
      (record_all (sync_manager_new 5 :: nat sync_manager)
         [change_query 1 0 ''ns'' ''db'' None, change_query 2 0 ''ns'' ''db'' None])
      (Request 0 (Some 1)) 0
    = (Ok (Response b), record_all (sync_manager_new 5)
         [change_query 1 0 ''ns'' ''db'' None, change_query 2 0 ''ns'' ''db'' None])
    \<and> cb_changes b = [change_query 1 0 ''ns'' ''db'' None] \<and> \<not> cb_is_final b"
proof -
  let ?cs = "[change_query 1 0 ''ns'' ''db'' None, change_query 2 0 ''ns'' ''db'' None]"
  have "length ?cs < 2 ^ 64" by simp
  from request_refines [OF this, where 'id = nat and n = 5 and off = 0 and limit = "Some 1"
      and local_offset = 0]
  show ?thesis by (auto simp: Let_def last_n_def)
qed

text \<open>
  C5. Paging terminates and is complete. The reader here is any peer that keeps to the protocol
  (the crate's own client sends a single request): a reader that asks for pages of \<open>l >
  0\<close> changes from the offset of the last response stops at a final response after at most
  one more request than changes are outstanding, and has read exactly the changes from
  \<open>off\<close> on, provided the log still holds them (at most \<open>n\<close> are
  outstanding), nothing is recorded meanwhile and fewer than \<open>2 ^ 64\<close> changes were
  recorded. (A reader behind a truncated log is served wrong pages, see
  \<open>paging_repeats_truncated\<close>.)
\<close>

theorem paging_complete:
  assumes "length cs < 2 ^ 64" "0 < l" "length cs - unat off \<le> n"
  shows "read_pages (Suc (length cs - unat off))
           (record_all (sync_manager_new n :: 'id sync_manager) cs) off l
         = Some (drop (unat off) cs)"
proof (rule read_pages_complete [OF _ assms(2)])
  show "represents (record_all (sync_manager_new n :: 'id sync_manager) cs) cs"
    using sync_log.repr_appends [OF represents_new, of cs n] assms by simp
  show "length cs - unat off \<le> sm_max_changes (record_all (sync_manager_new n :: 'id sync_manager) cs)"
    by (simp only: sync_log.cap_appends) (use assms in \<open>simp add: sync_manager_new_def\<close>)
qed simp

theorem paging_complete_witness:
  "read_pages 3 (record_all (sync_manager_new 2 :: nat sync_manager)
     [change_query 1 0 ''ns'' ''db'' None, change_query 2 0 ''ns'' ''db'' None]) 0 1
   = Some [change_query 1 0 ''ns'' ''db'' None, change_query 2 0 ''ns'' ''db'' None]"
proof -
  let ?cs = "[change_query 1 0 ''ns'' ''db'' None, change_query 2 0 ''ns'' ''db'' None]"
  have "length ?cs < 2 ^ 64" "(0 :: nat) < 1" "length ?cs - unat (0 :: u64) \<le> 2" by simp_all
  from paging_complete [OF this, where 'id = nat] show ?thesis
    by (simp add: eval_nat_numeral(2,3))
qed

text \<open>
  A reader further behind than the capacity of the log is served wrong changes: when more than
  \<open>n\<close> changes remain beyond the page, asking from \<open>off\<close> and then from
  the offset of the response (\<open>off + l\<close>) returns the same \<open>l\<close> changes
  twice, and they are not the changes at \<open>off\<close> but those at the start of the
  truncated log.
\<close>

theorem paging_repeats_truncated:
  assumes "length cs < 2 ^ 64" "l \<le> n" "unat off + l + n \<le> length cs"
  shows "let m = record_all (sync_manager_new n :: 'id sync_manager) cs;
             reply = (\<lambda>o'. fst (process_message m (Request o' (Some l)) 0))
         in \<exists>b b'. reply off = Ok (Response b) \<and> reply (cb_offset b) = Ok (Response b')
              \<and> unat (cb_offset b) = unat off + l
              \<and> cb_changes b' = cb_changes b
              \<and> cb_changes b = take l (drop (length cs - n) cs)"
proof -
  let ?m = "record_all (sync_manager_new n :: 'id sync_manager) cs"
  have r: "represents ?m cs"
    using sync_log.repr_appends [OF represents_new, of cs n] assms by simp
  have cap: "sm_max_changes ?m = n"
    by (simp only: sync_log.cap_appends) (simp add: sync_manager_new_def)
  have p: "page ?m o' (Some l) = take l (drop (length cs - n) cs)" if "unat o' + n \<le> length cs" for o'
    using sync_log.repr_since [OF r, of o'] that by (simp add: page_def cap last_n_def)
  have len: "length (take l (drop (length cs - n) cs)) = l"
    using assms by simp
  have o': "unat (off + of_nat l) = unat off + l"
    using page_offset [OF r, of off "Some l"] p [of off] len assms by simp
  show ?thesis
    using p [of off] p [of "off + of_nat l"] len o' assms by (simp add: process_request Let_def)
qed

theorem paging_repeats_truncated_witness:
  "let m = record_all (sync_manager_new 1 :: nat sync_manager)
             [change_query 1 0 ''ns'' ''db'' None, change_query 2 0 ''ns'' ''db'' None];
       reply = (\<lambda>o'. fst (process_message m (Request o' (Some 1)) 0))
   in \<exists>b b'. reply 0 = Ok (Response b) \<and> reply (cb_offset b) = Ok (Response b')
        \<and> unat (cb_offset b) = unat (0 :: u64) + 1 \<and> cb_changes b' = cb_changes b
        \<and> cb_changes b = take 1 (drop (length [change_query 1 0 ''ns'' ''db'' None,
                                    change_query 2 0 ''ns'' ''db'' None] - 1)
            [change_query 1 0 ''ns'' ''db'' None, change_query 2 0 ''ns'' ''db'' None])"
  by (rule paging_repeats_truncated) simp_all

subsection \<open>Properties of the two loops\<close>

lemma handle_connection_loop:
  assumes "reliable lk"
    and "handle_loop lib lk (sm_offset m) (update_peer_state (pl_id_bytes lib) m pid Syncing, [], 0) (lk_recv lk)
         = (None, m', out, k)"
  shows "handle_connection lib lk pid m = (Ok (), update_peer_state (pl_id_bytes lib) m' pid Synchronized, out)"
  using assms by (simp add: handle_connection_def reliable_def Let_def update_peer_state_def)

text \<open>
  C7. A serving session: when the peer sends the frames of the messages \<open>qs\<close> and then
  the zero length (or closes) over a connection on which no call fails, and the codec prints and
  parses back all messages of the session in at most 16 MiB, \<open>handle_connection\<close>
  writes exactly one response frame per message, in order, each the answer of
  \<open>process_message\<close> in the state the earlier messages left, returns
  \<open>Ok\<close>, and marks the peer \<open>Synchronized\<close>.
\<close>

theorem serving_session:
  assumes "reliable lk" "\<forall>q \<in> set qs. encodable lib q"
    and "\<forall>r \<in> set (fst (answers (sm_offset m) (update_peer_state (pl_id_bytes lib) m pid Syncing) qs)).
           encodable lib r"
    and "lk_recv lk = concat (map (frame \<circ> enc lib) qs) \<or>
         (\<exists>rest. lk_recv lk = concat (map (frame \<circ> enc lib) qs) @ [0, 0, 0, 0] @ rest)"
  shows "let (rs, m') = answers (sm_offset m) (update_peer_state (pl_id_bytes lib) m pid Syncing) qs
         in handle_connection lib lk pid m =
              (Ok (), update_peer_state (pl_id_bytes lib) m' pid Synchronized,
               concat (map (frame \<circ> enc lib) rs))"
proof -
  let ?m = "update_peer_state (pl_id_bytes lib) m pid Syncing" and ?lo = "sm_offset m"
  have "\<exists>k. handle_loop lib lk ?lo (?m, [], 0) (lk_recv lk)
     = (None, snd (answers ?lo ?m qs), concat (map (frame \<circ> enc lib) (fst (answers ?lo ?m qs))), k)"
    using assms(4)
  proof (elim disjE exE)
    assume "lk_recv lk = concat (map (frame \<circ> enc lib) qs)"
    then show ?thesis
      using handle_loop_answers [OF assms(1-3), of "[]" 0 "[]"] by (simp add: handle_loop_stop)
  next
    fix rest assume "lk_recv lk = concat (map (frame \<circ> enc lib) qs) @ [0, 0, 0, 0] @ rest"
    then show ?thesis
      using handle_loop_answers [OF assms(1-3), of "[]" 0 "[0, 0, 0, 0] @ rest"]
      by (simp only: handle_loop_stop) simp
  qed
  then show ?thesis
    using handle_connection_loop [OF assms(1)] by (auto simp: split_beta)
qed

text \<open>A concrete library and link: only keep-alive messages, one-byte peer identifiers.\<close>

definition keepalive_lib :: "u8 proto_lib" where
  "keepalive_lib = \<lparr>pl_to_json = keepalive_to_json, pl_from_json = keepalive_from_json,
     pl_codec_text = (\<lambda>e. ''codec''), pl_id_bytes = (\<lambda>b. replicate 32 b)\<rparr>"

definition perfect_link :: "bytes \<Rightarrow> link" where
  "perfect_link rx = \<lparr>lk_connect = None, lk_open = None, lk_recv = rx, lk_recv_error = [],
     lk_write = (\<lambda>k. None), lk_finish = None\<rparr>"

lemma reliable_perfect [simp]: "reliable (perfect_link rx)"
  by (simp add: reliable_def perfect_link_def)

lemma lk_recv_perfect [simp]: "lk_recv (perfect_link rx) = rx"
  by (simp add: perfect_link_def)

lemma encodable_keepalive [simp]: "encodable keepalive_lib Ping" "encodable keepalive_lib Pong"
  using keepalive_faithful
  by (simp_all add: encodable_def keepalive_lib_def enc_def encode_message_def wire_valid_def
        MAX_MESSAGE_SIZE_def as_bytes_def)

lemma process_keepalive:
  "process_message m Ping lo = (Ok Pong, m)" "process_message m Pong lo = (Ok Ping, m)"
  by (simp_all add: process_message_def)

theorem serving_session_witness:
  "\<exists>m'. handle_connection keepalive_lib
          (perfect_link (concat (map (frame \<circ> enc keepalive_lib) [Ping, Pong]) @ [0, 0, 0, 0] @ []))
          7 (sync_manager_new 10)
        = (Ok (), m', frame (enc keepalive_lib Pong) @ frame (enc keepalive_lib Ping))"
  using serving_session
    [of "perfect_link (concat (map (frame \<circ> enc keepalive_lib) [Ping, Pong]) @ [0, 0, 0, 0] @ [])"
        "[Ping, Pong]" keepalive_lib "sync_manager_new 10" 7]
  by (simp add: process_keepalive)

text \<open>
  A length above \<open>MAX_MESSAGE_SIZE\<close> ends the connection with an error on either side,
  before anything of the message is read, after the answers to the messages before it; the
  peer is left in state \<open>Syncing\<close>.
\<close>

theorem oversize_rejected:
  assumes "reliable lk" "\<forall>q \<in> set qs. encodable lib q"
    and "\<forall>r \<in> set (fst (answers (sm_offset m) (update_peer_state (pl_id_bytes lib) m pid Syncing) qs)).
           encodable lib r"
    and "MAX_MESSAGE_SIZE < unat len"
    and "lk_recv lk = concat (map (frame \<circ> enc lib) qs) @ to_be_bytes len @ rest"
  shows "(let (rs, m') = answers (sm_offset m) (update_peer_state (pl_id_bytes lib) m pid Syncing) qs
          in handle_connection lib lk pid m = (Err too_large, m', concat (map (frame \<circ> enc lib) rs)))
         \<and> client_loop lib lk m (to_be_bytes len @ rest) = (Some too_large, m)"
proof -
  have "len \<noteq> 0" using assms(4) by (auto simp: MAX_MESSAGE_SIZE_def)
  then have recv: "recv_frame (to_be_bytes len @ rest) = RecvTooLarge"
    using assms(4) by (simp add: recv_frame_def Let_def)
  then show ?thesis
    using assms(1,5)
      handle_loop_answers [OF assms(1-3), of "[]" 0 "to_be_bytes len @ rest"]
    by (simp add: handle_connection_def reliable_def Let_def update_peer_state_def split_beta
          handle_loop.simps [of _ _ _ _ "to_be_bytes len @ rest"] client_loop.simps [of _ _ _ "to_be_bytes len @ rest"])
qed

theorem oversize_rejected_witness:
  "fst (handle_connection keepalive_lib (perfect_link (to_be_bytes 0x1000001 @ [])) 7 (sync_manager_new 10))
     = Err too_large"
  using oversize_rejected
    [of "perfect_link (to_be_bytes 0x1000001 @ [])" "[]" keepalive_lib "sync_manager_new 10" 7
        "0x1000001" "[]"]
  by (simp add: MAX_MESSAGE_SIZE_def)

text \<open>
  The server reports a broken stream as a completed synchronization: when the messages after
  \<open>qs\<close> are cut off in the middle or do not decode, \<open>handle_connection\<close>
  stops reading, returns \<open>Ok\<close> and marks the peer \<open>Synchronized\<close>, like at
  a proper end of the stream.
\<close>

theorem broken_stream_synchronized:
  assumes "reliable lk" "\<forall>q \<in> set qs. encodable lib q"
    and "\<forall>r \<in> set (fst (answers (sm_offset m) (update_peer_state (pl_id_bytes lib) m pid Syncing) qs)).
           encodable lib r"
    and "lk_recv lk = concat (map (frame \<circ> enc lib) qs) @ rest"
    and "recv_frame rest = RecvTruncated
         \<or> (\<exists>msg rest' e. recv_frame rest = RecvFrame msg rest' \<and> decode_message (pl_from_json lib) msg = Err e)"
  shows "let (rs, m') = answers (sm_offset m) (update_peer_state (pl_id_bytes lib) m pid Syncing) qs
         in handle_connection lib lk pid m =
              (Ok (), update_peer_state (pl_id_bytes lib) m' pid Synchronized,
               concat (map (frame \<circ> enc lib) rs))"
proof -
  have "handle_loop lib lk lo st rest = (None, st)" for lo st
    using assms(5) by (cases st) (auto simp: handle_loop.simps [of _ _ _ _ rest] serve_frame_def)
  then show ?thesis
    using handle_loop_answers [OF assms(1-3), of "[]" 0 rest] assms(4)
      handle_connection_loop [OF assms(1)] by (simp add: split_beta)
qed

theorem broken_stream_synchronized_witness:
  "fst (handle_connection keepalive_lib (perfect_link (to_be_bytes 9 @ [1, 2, 3])) 7 (sync_manager_new 10))
     = Ok ()"
proof -
  have "recv_frame (to_be_bytes 9 @ [1, 2, 3]) = RecvTruncated"
    by (simp add: recv_frame_def Let_def read_exact_short MAX_MESSAGE_SIZE_def)
  then show ?thesis
    using broken_stream_synchronized
      [of "perfect_link (to_be_bytes 9 @ [1, 2, 3])" "[]" keepalive_lib "sync_manager_new 10" 7
          "to_be_bytes 9 @ [1, 2, 3]"]
    by simp
qed

lemma client_loop_batches:
  assumes "\<forall>b \<in> set bs. encodable lib (Response b)"
  shows "client_loop lib lk m (concat (map (frame \<circ> enc lib \<circ> Response) bs) @ rest)
       = client_loop lib lk (foldl (\<lambda>m b. snd (apply_changes m (cb_changes b))) m bs) rest"
  using assms
proof (induction bs arbitrary: m)
  case Nil
  then show ?case by simp
next
  case (Cons b bs)
  then have "encodable lib (Response b)" by simp
  then have "client_loop lib lk m (frame (enc lib (Response b)) @ xs)
      = client_loop lib lk (snd (apply_changes m (cb_changes b))) xs" for xs
    by (subst client_loop.simps)
       (simp add: recv_frame_frame encodable_def encodable_codec client_message_def)
  with Cons show ?case by simp
qed

text \<open>
  C8. A connecting session: when the server sends response batches and then an acknowledgement,
  over a connection on which no call fails, and the codec prints and parses back all messages of
  the session in at most 16 MiB, \<open>connect_and_sync\<close> writes its one request (from its
  own offset, limit 1000) and the end marker, applies the batches in order, ignores what follows
  the acknowledgement, returns \<open>Ok\<close> and marks the peer \<open>Synchronized\<close>.
\<close>

theorem connecting_session:
  assumes "reliable lk" "encodable lib (Request (sm_offset m) (Some 1000))"
    and "\<forall>b \<in> set bs. encodable lib (Response b)" "encodable lib (Ack off)"
    and "lk_recv lk = concat (map (frame \<circ> enc lib \<circ> Response) bs) @ frame (enc lib (Ack off)) @ rest"
  shows "connect_and_sync lib lk pid m =
     (Ok (),
      update_peer_state (pl_id_bytes lib)
        (foldl (\<lambda>m b. snd (apply_changes m (cb_changes b)))
           (update_peer_state (pl_id_bytes lib) m pid Syncing) bs) pid Synchronized,
      frame (enc lib (Request (sm_offset m) (Some 1000))) @ [0, 0, 0, 0])"
proof -
  have "client_loop lib lk m' (frame (enc lib (Ack off)) @ rest) = (None, m')" for m'
    using assms(4)
    by (subst client_loop.simps)
       (simp add: recv_frame_frame encodable_def encodable_codec client_message_def)
  then show ?thesis
    using assms(1,2,5) client_loop_batches [OF assms(3), of lk _ "frame (enc lib (Ack off)) @ rest"]
    by (simp add: connect_and_sync_def Let_def reliable_def update_peer_state_def encodable_codec
          send_message_reliable [unfolded reliable_def])
qed

text \<open>A library that can print one request and one acknowledgement.\<close>

definition request_lib :: "u8 proto_lib" where
  "request_lib = \<lparr>pl_to_json = (\<lambda>m. if m = Ack 3 then Inr ''a'' else Inr ''r''),
     pl_from_json = (\<lambda>s. if s = ''a'' then Inr (Ack 3) else Inr (Request 0 (Some 1000))),
     pl_codec_text = (\<lambda>e. ''codec''), pl_id_bytes = (\<lambda>b. replicate 32 b)\<rparr>"

theorem connecting_session_witness:
  "fst (connect_and_sync request_lib (perfect_link (frame (enc request_lib (Ack 3)) @ [])) 7 (sync_manager_new 10))
     = Ok ()"
proof -
  have "encodable request_lib (Ack 3)" "encodable request_lib (Request 0 (Some 1000))"
    by (simp_all add: encodable_def json_faithful_def request_lib_def enc_def encode_message_def
          wire_valid_def MAX_MESSAGE_SIZE_def as_bytes_def)
  then show ?thesis
    using connecting_session
      [of "perfect_link (frame (enc request_lib (Ack 3)) @ [])" request_lib "sync_manager_new 10"
          "[]" 3 "[]" 7]
    by (simp add: sync_manager_new_def)
qed

text \<open>
  At the level of messages, where none is too large and none fails to encode, the two ends
  deadlock: no end ever leaves its loop, and the session ends in the one state in which nothing is
  in flight, both ends wait for a message and no step is possible. \<open>Dialogue\<close> has the
  same over the bytes of the stream, with all the ways in which a loop can end.
\<close>

theorem session_deadlocks:
  "\<not> (\<exists>t. session_reaches (session_start c s) t \<and> \<not> (ss_client_in_loop t \<and> ss_server_in_loop t))
   \<and> (\<exists>t. session_reaches (session_start c s) t \<and> ss_client_in_loop t \<and> ss_server_in_loop t
          \<and> quiet t \<and> \<not> (\<exists>u. session_step t u))"
proof -
  have "ss_client_in_loop t \<and> ss_server_in_loop t" if "session_reaches (session_start c s) t" for t
    using that unfolding session_reaches_iff by (auto simp: session_states)
  moreover have "session_reaches (session_start c s) (session_applied c s)"
    by (simp add: session_reaches_iff)
  ultimately show ?thesis
    using quiet_stuck [OF session_applied_quiet] session_applied_quiet [of c s] by blast
qed


end
