(* ===== verification/Discovery.thy ===== *)
theory Discovery
  imports Config Error_Types
begin

section \<open>Peer discovery (\<open>src/discovery.rs\<close>)\<close>

text \<open>
  The table of discovered peers and the connection tickets. Endpoint identifiers, addresses
  and the JSON functions of a ticket are parameters; instants are nanoseconds; the attempt to
  connect is given by its outcome.
\<close>

datatype discovery_method = Dns | Mdns | Manual | Relay

definition method_as_str :: "discovery_method \<Rightarrow> string" where
  "method_as_str m =
     (case m of Dns \<Rightarrow> ''dns'' | Mdns \<Rightarrow> ''mdns'' | Manual \<Rightarrow> ''manual'' | Relay \<Rightarrow> ''relay'')"

definition method_as_upper :: "discovery_method \<Rightarrow> string" where
  "method_as_upper m =
     (case m of Dns \<Rightarrow> ''DNS'' | Mdns \<Rightarrow> ''mDNS'' | Manual \<Rightarrow> ''Manual'' | Relay \<Rightarrow> ''Relay'')"

record ('id, 'addr) discovered_peer =
  dp_endpoint_id :: 'id
  dp_addresses :: "'addr list"
  dp_discovery_method :: discovery_method
  dp_discovered_at :: nat
  dp_name :: "string option"
  dp_last_connected :: "nat option"

definition peer_is_valid :: "nat \<Rightarrow> duration \<Rightarrow> ('id, 'addr) discovered_peer \<Rightarrow> bool" where
  "peer_is_valid now max_age p \<longleftrightarrow> now - dp_discovered_at p < max_age"

definition peer_mark_connected :: "nat \<Rightarrow> ('id, 'addr) discovered_peer \<Rightarrow> ('id, 'addr) discovered_peer" where
  "peer_mark_connected now p = p\<lparr>dp_last_connected := Some now\<rparr>"

record ('id, 'addr) discovery_manager =
  dm_peers :: "('id, 'addr) discovered_peer list"
  dm_config :: "'addr replicator_config"
  dm_self_endpoint_id :: "'id option"

definition discovery_new :: "'addr replicator_config \<Rightarrow> ('id, 'addr) discovery_manager result" where
  "discovery_new config = Ok \<lparr>dm_peers = [], dm_config = config, dm_self_endpoint_id = None\<rparr>"

definition set_self_endpoint_id :: "'id \<Rightarrow> ('id, 'addr) discovery_manager \<Rightarrow> ('id, 'addr) discovery_manager" where
  "set_self_endpoint_id pid m = m\<lparr>dm_self_endpoint_id := Some pid\<rparr>"

definition PEER_MAX_AGE :: duration where
  "PEER_MAX_AGE = secs 300"

text \<open>Update of the first entry with the identifier (\<open>iter_mut().find\<close>).\<close>

fun update_first :: "('a \<Rightarrow> bool) \<Rightarrow> ('a \<Rightarrow> 'a) \<Rightarrow> 'a list \<Rightarrow> 'a list" where
  "update_first P f [] = []"
| "update_first P f (x # xs) = (if P x then f x # xs else x # update_first P f xs)"

definition record_peer ::
  "nat \<Rightarrow> ('id, 'addr) discovered_peer \<Rightarrow> ('id, 'addr) discovery_manager \<Rightarrow> ('id, 'addr) discovery_manager" where
  "record_peer now p m =
     (let same = (\<lambda>q. dp_endpoint_id q = dp_endpoint_id p);
          peers = (if list_ex same (dm_peers m) then update_first same (\<lambda>_. p) (dm_peers m)
                   else dm_peers m @ [p])
      in m\<lparr>dm_peers := filter (peer_is_valid now PEER_MAX_AGE) peers\<rparr>)"

definition known_peers :: "('id, 'addr) discovery_manager \<Rightarrow> ('id, 'addr) discovered_peer list" where
  "known_peers m = dm_peers m"

definition valid_peers :: "nat \<Rightarrow> ('id, 'addr) discovery_manager \<Rightarrow> ('id, 'addr) discovered_peer list" where
  "valid_peers now m = filter (peer_is_valid now PEER_MAX_AGE) (dm_peers m)"

definition peer_count :: "('id, 'addr) discovery_manager \<Rightarrow> nat" where
  "peer_count m = length (dm_peers m)"

definition clear_peers :: "('id, 'addr) discovery_manager \<Rightarrow> ('id, 'addr) discovery_manager" where
  "clear_peers m = m\<lparr>dm_peers := []\<rparr>"

subsection \<open>Tickets\<close>

record ('id, 'addr) ticket_data =
  td_endpoint_id :: 'id
  td_addresses :: "'addr list"

definition parse_ticket ::
  "(bytes \<Rightarrow> string + ('id, 'addr) ticket_data) \<Rightarrow> string \<Rightarrow> ('id \<times> 'addr list) result" where
  "parse_ticket from_json ticket =
     and_then (map_err InvalidTicket (base64_url_decode ticket))
       (\<lambda>bs. and_then (map_err InvalidTicket (of_result (from_json bs)))
          (\<lambda>td. Ok (td_endpoint_id td, td_addresses td)))"

definition generate_ticket ::
  "(('id, 'addr) ticket_data \<Rightarrow> string + bytes) \<Rightarrow> 'id \<Rightarrow> 'addr list \<Rightarrow> string result" where
  "generate_ticket to_json pid addrs =
     and_then (map_err Encoding (of_result (to_json \<lparr>td_endpoint_id = pid, td_addresses = addrs\<rparr>)))
       (\<lambda>bs. Ok (base64_url_encode bs))"

definition validate_ticket ::
  "(bytes \<Rightarrow> string + ('id, 'addr) ticket_data) \<Rightarrow> nat \<Rightarrow> string \<Rightarrow> ('id, 'addr) discovered_peer result" where
  "validate_ticket from_json now ticket =
     and_then (parse_ticket from_json ticket)
       (\<lambda>(pid, addrs). Ok \<lparr>dp_endpoint_id = pid, dp_addresses = addrs, dp_discovery_method = Manual,
          dp_discovered_at = now, dp_name = None, dp_last_connected = None\<rparr>)"

subsection \<open>Connecting\<close>

text \<open>\<open>outcome\<close> is what connecting to the identifier yields, \<open>now\<close> the time after it.\<close>

definition connect_to_peer ::
  "('id \<Rightarrow> string option) \<Rightarrow> nat \<Rightarrow> 'id \<Rightarrow> ('id, 'addr) discovery_manager
     \<Rightarrow> unit result \<times> ('id, 'addr) discovery_manager" where
  "connect_to_peer outcome now pid m =
     (if dm_self_endpoint_id m = Some pid then (Err (Other ''cannot connect to self''), m)
      else case outcome pid of
        Some e \<Rightarrow> (Err (Connection (''failed to connect to peer: '' @ e)), m)
      | None \<Rightarrow>
          (Ok (), m\<lparr>dm_peers := update_first (\<lambda>p. dp_endpoint_id p = pid) (peer_mark_connected now) (dm_peers m)\<rparr>))"

definition discover :: "'id \<Rightarrow> 'addr list result" where
  "discover pid = Ok []"

subsection \<open>Lemmas\<close>

lemma map_update_first:
  "(\<And>x. P x \<Longrightarrow> g (f x) = g x) \<Longrightarrow> map g (update_first P f xs) = map g xs"
  by (induction xs) simp_all

lemma set_update_first: "set (update_first P f xs) \<subseteq> set xs \<union> f ` {x \<in> set xs. P x}"
  by (induction xs) auto

text \<open>The table: one entry per peer.\<close>

definition distinct_peers :: "('id, 'addr) discovery_manager \<Rightarrow> bool" where
  "distinct_peers m \<longleftrightarrow> distinct (map dp_endpoint_id (dm_peers m))"

lemma update_first_present:
  "distinct (map g xs) \<Longrightarrow> list_ex (\<lambda>x. g x = k) xs \<Longrightarrow> g y = k \<Longrightarrow>
     set (update_first (\<lambda>x. g x = k) (\<lambda>_. y) xs) = insert y {x \<in> set xs. g x \<noteq> k}"
  by (induction xs) (auto simp: image_iff)

lemma record_peer_set:
  assumes "distinct_peers m"
  shows "set (dm_peers (record_peer now p m)) =
     {q. peer_is_valid now PEER_MAX_AGE q \<and> (q = p \<or> q \<in> set (dm_peers m) \<and> dp_endpoint_id q \<noteq> dp_endpoint_id p)}"
proof (cases "list_ex (\<lambda>q. dp_endpoint_id q = dp_endpoint_id p) (dm_peers m)")
  case True
  have "set (update_first (\<lambda>q. dp_endpoint_id q = dp_endpoint_id p) (\<lambda>_. p) (dm_peers m))
      = insert p {q \<in> set (dm_peers m). dp_endpoint_id q \<noteq> dp_endpoint_id p}"
    using assms True by (intro update_first_present) (simp_all add: distinct_peers_def)
  with True show ?thesis by (auto simp: record_peer_def Let_def)
next
  case False
  then show ?thesis by (auto simp: record_peer_def Let_def list_ex_iff)
qed

lemma record_peer_distinct [wf_intros]: "distinct_peers m \<Longrightarrow> distinct_peers (record_peer now p m)"
proof -
  assume d: "distinct_peers m"
  let ?same = "\<lambda>q. dp_endpoint_id q = dp_endpoint_id p"
  let ?peers = "if list_ex ?same (dm_peers m) then update_first ?same (\<lambda>_. p) (dm_peers m) else dm_peers m @ [p]"
  have "map dp_endpoint_id (update_first ?same (\<lambda>_. p) (dm_peers m)) = map dp_endpoint_id (dm_peers m)"
    by (rule map_update_first) simp
  then have "distinct (map dp_endpoint_id ?peers)"
    using d by (auto simp: distinct_peers_def list_ex_iff)
  then show ?thesis
    by (simp add: record_peer_def Let_def distinct_peers_def distinct_map_filter)
qed

text \<open>What tickets rely on: the JSON functions give back the ticket.\<close>

definition ticket_faithful ::
  "(('id, 'addr) ticket_data \<Rightarrow> string + bytes) \<Rightarrow> (bytes \<Rightarrow> string + ('id, 'addr) ticket_data)
     \<Rightarrow> ('id, 'addr) ticket_data \<Rightarrow> bool" where
  "ticket_faithful to_json from_json td \<longleftrightarrow> (\<exists>bs. to_json td = Inr bs \<and> from_json bs = Inr td)"

lemma ticket_roundtrip_lemma:
  assumes "ticket_faithful to_json from_json \<lparr>td_endpoint_id = pid, td_addresses = addrs\<rparr>"
  shows "\<exists>t. generate_ticket to_json pid addrs = Ok t \<and> parse_ticket from_json t = Ok (pid, addrs)"
  using assms by (auto simp: ticket_faithful_def generate_ticket_def parse_ticket_def base64_decode_encode)

subsection \<open>Properties\<close>

text \<open>
  C33. The table of discovered peers holds one entry per peer, the last one recorded, and no
  stale ones: after any sequence of records the identifiers are distinct, every entry was
  recorded, and after a record at time \<open>now\<close> the table is exactly the valid ones among the
  new peer and the entries of the others.
\<close>

theorem peer_table:
  assumes "discovery_new config = Ok m0"
  shows "let m = foldl (\<lambda>m (t, q). record_peer t q m) m0 ps; m' = record_peer now p m
         in distinct (map dp_endpoint_id (known_peers m))
            \<and> set (known_peers m) \<subseteq> snd ` set ps
            \<and> set (known_peers m') = {q. now - dp_discovered_at q < secs 300
                 \<and> (q = p \<or> q \<in> set (known_peers m) \<and> dp_endpoint_id q \<noteq> dp_endpoint_id p)}
            \<and> valid_peers now m' = known_peers m'"
proof -
  let ?m = "foldl (\<lambda>m (t, q). record_peer t q m) m0 ps"
  have "distinct_peers m0 \<and> dm_peers m0 = []"
    using assms by (auto simp: discovery_new_def distinct_peers_def)
  then have inv: "distinct_peers ?m \<and> set (dm_peers ?m) \<subseteq> snd ` set ps"
  proof (induction ps rule: rev_induct)
    case (snoc tq ps)
    let ?m = "foldl (\<lambda>m (t, q). record_peer t q m) m0 ps"
    have IH: "distinct_peers ?m" "set (dm_peers ?m) \<subseteq> snd ` set ps" using snoc by simp_all
    show ?case
      using IH(2) record_peer_set [OF IH(1), of "fst tq" "snd tq"] record_peer_distinct [OF IH(1)]
      by (cases tq) auto
  qed simp
  moreover have "valid_peers now (record_peer now p ?m) = known_peers (record_peer now p ?m)"
    by (simp add: valid_peers_def known_peers_def record_peer_def Let_def)
  ultimately show ?thesis
    using record_peer_set [of ?m now p]
    by (simp add: Let_def known_peers_def distinct_peers_def peer_is_valid_def PEER_MAX_AGE_def)
qed

theorem peer_table_witness:
  "\<exists>m0. discovery_new (default_config :: nat replicator_config) = Ok m0
     \<and> map dp_endpoint_id (known_peers (record_peer 5
         \<lparr>dp_endpoint_id = 1 :: nat, dp_addresses = [], dp_discovery_method = Manual, dp_discovered_at = 5,
          dp_name = None, dp_last_connected = None\<rparr> m0)) = [1]"
proof -
  let ?p = "\<lparr>dp_endpoint_id = 1 :: nat, dp_addresses = [], dp_discovery_method = Manual, dp_discovered_at = 5,
          dp_name = None, dp_last_connected = None\<rparr>"
  obtain m0 where m0: "discovery_new (default_config :: nat replicator_config) = Ok (m0 :: (nat, nat) discovery_manager)"
    by (auto simp: discovery_new_def)
  from peer_table [OF this, of "[]" 5 ?p] m0 show ?thesis
    by (auto simp: Let_def discovery_new_def record_peer_def known_peers_def peer_is_valid_def PEER_MAX_AGE_def secs_def)
qed

text \<open>
  C31. Tickets: where the JSON functions are faithful, a generated ticket parses back to the
  same identifier and addresses and validates to a manually discovered peer.
\<close>

theorem ticket_roundtrip:
  assumes "ticket_faithful to_json from_json \<lparr>td_endpoint_id = pid, td_addresses = addrs\<rparr>"
  shows "\<exists>t. generate_ticket to_json pid addrs = Ok t \<and> parse_ticket from_json t = Ok (pid, addrs)
     \<and> validate_ticket from_json now t = Ok \<lparr>dp_endpoint_id = pid, dp_addresses = addrs,
          dp_discovery_method = Manual, dp_discovered_at = now, dp_name = None, dp_last_connected = None\<rparr>"
  using ticket_roundtrip_lemma [OF assms] by (auto simp: validate_ticket_def)

theorem ticket_roundtrip_witness:
  "\<exists>t. generate_ticket (\<lambda>td. Inr [td_endpoint_id td]) (7 :: u8) ([] :: nat list) = Ok t
     \<and> parse_ticket (\<lambda>bs. Inr \<lparr>td_endpoint_id = hd bs, td_addresses = []\<rparr>) t = Ok (7, [] :: nat list)"
  using ticket_roundtrip [of "\<lambda>td. Inr [td_endpoint_id td]" "\<lambda>bs. Inr \<lparr>td_endpoint_id = hd bs, td_addresses = []\<rparr>"
      7 "[] :: nat list"] by (auto simp: ticket_faithful_def)

end
