(* ===== verification/Replicator.thy ===== *)
theory Replicator
  imports Protocol Discovery
begin

section \<open>The replicator (\<open>src/replicator.rs\<close>)\<close>

text \<open>
  The object that owns the endpoint, the sync manager and the discovery manager, with its
  lifecycle. Endpoints are a type parameter; building one is given by its outcome, connecting to
  an address by the peer found and the link to it. The main loop is a task of its own: it is
  spawned by \<open>start\<close>, subscribes to the shutdown signal only when it first runs, and
  clears \<open>running\<close> when it ends. The change channel is tokio's (see
  \<open>try_send\<close> in the batcher); \<open>new\<close> drops its receiver.
\<close>

datatype run_loop = LoopNone | LoopSpawned | LoopWaiting | LoopSignalled

record ('id, 'addr, 'ep, 'ch) replicator =
  rp_endpoint :: "'ep option"
  rp_sync_manager :: "'id sync_manager"
  rp_discovery :: "('id, 'addr) discovery_manager option"
  rp_config :: "'addr replicator_config"
  rp_running :: bool
  rp_loop :: run_loop
  rp_change_tx :: 'ch

type_synonym 'ch change_send = "'ch \<Rightarrow> change \<Rightarrow> bool \<times> 'ch"

definition replicator_new ::
  "(nat \<Rightarrow> 'ch) \<Rightarrow> 'addr replicator_config \<Rightarrow> ('id, 'addr, 'ep, 'ch) replicator" where
  "replicator_new closed_channel config =
     \<lparr>rp_endpoint = None, rp_sync_manager = sync_manager_new 10000, rp_discovery = None,
      rp_config = config, rp_running = False, rp_loop = LoopNone, rp_change_tx = closed_channel 1000\<rparr>"

definition build_endpoint ::
  "('addr \<Rightarrow> string option) \<Rightarrow> ('addr option \<Rightarrow> string + 'ep) \<Rightarrow> 'addr replicator_config \<Rightarrow> 'ep result" where
  "build_endpoint set_addr bind config =
     (case bind_addr config of
        Some addr \<Rightarrow>
          (case set_addr addr of
             Some e \<Rightarrow> Err (error_from_socket_addr e)
           | None \<Rightarrow> map_err Endpoint (of_result (bind (Some addr))))
      | None \<Rightarrow> map_err Endpoint (of_result (bind None)))"

definition replicator_start ::
  "'ep result \<Rightarrow> ('id, 'addr, 'ep, 'ch) replicator \<Rightarrow> unit result \<times> ('id, 'addr, 'ep, 'ch) replicator" where
  "replicator_start built r =
     (if rp_running r then (Err (Other ''replicator already started''), r)
      else let r1 = r\<lparr>rp_running := True\<rparr>
           in case built of
                Err e \<Rightarrow> (Err e, r1)
              | Panic \<Rightarrow> (Panic, r1)
              | Ok ep \<Rightarrow>
                  let r2 = r1\<lparr>rp_endpoint := Some ep\<rparr>
                  in case discovery_new (rp_config r) of
                       Err e \<Rightarrow> (Err e, r2)
                     | Panic \<Rightarrow> (Panic, r2)
                     | Ok d \<Rightarrow> (Ok (), r2\<lparr>rp_discovery := Some d, rp_loop := LoopSpawned\<rparr>))"

text \<open>The signal reaches the loop only if it has subscribed.\<close>

definition signal_loop :: "run_loop \<Rightarrow> run_loop" where
  "signal_loop l = (case l of LoopWaiting \<Rightarrow> LoopSignalled | _ \<Rightarrow> l)"

definition replicator_shutdown ::
  "('id, 'addr, 'ep, 'ch) replicator \<Rightarrow> unit result \<times> ('id, 'addr, 'ep, 'ch) replicator" where
  "replicator_shutdown r =
     (if \<not> rp_running r then (Ok (), r)
      else (Ok (), r\<lparr>rp_loop := signal_loop (rp_loop r), rp_endpoint := None\<rparr>))"

definition replicator_drop :: "('id, 'addr, 'ep, 'ch) replicator \<Rightarrow> ('id, 'addr, 'ep, 'ch) replicator" where
  "replicator_drop r = (if rp_running r then r\<lparr>rp_loop := signal_loop (rp_loop r)\<rparr> else r)"

definition replicator_endpoint_id :: "('ep \<Rightarrow> 'id) \<Rightarrow> ('id, 'addr, 'ep, 'ch) replicator \<Rightarrow> 'id option" where
  "replicator_endpoint_id ep_id r = map_option ep_id (rp_endpoint r)"

definition replicator_generate_ticket ::
  "('ep \<Rightarrow> 'id) \<Rightarrow> (('id, 'addr) ticket_data \<Rightarrow> string + bytes) \<Rightarrow> ('id, 'addr, 'ep, 'ch) replicator \<Rightarrow> string result" where
  "replicator_generate_ticket ep_id to_json r =
     (case (rp_endpoint r, rp_discovery r) of
        (Some ep, Some d) \<Rightarrow> generate_ticket to_json (ep_id ep) []
      | _ \<Rightarrow> Err (Other ''replicator not started''))"

text \<open>The attempts over the addresses of a ticket; each leaves its mark on the sync manager.\<close>

fun connect_addrs ::
  "'id proto_lib \<Rightarrow> ('addr \<Rightarrow> 'id \<times> link) \<Rightarrow> string \<Rightarrow> 'addr list \<Rightarrow> 'id sync_manager \<Rightarrow> unit result \<times> 'id sync_manager" where
  "connect_addrs lib conns pid_text [] m = (Err (PeerNotFound pid_text), m)"
| "connect_addrs lib conns pid_text (addr # addrs) m =
     (case connect_and_sync lib (snd (conns addr)) (fst (conns addr)) m of
        (Ok _, m', _) \<Rightarrow> (Ok (), m')
      | (Err e, m', _) \<Rightarrow> connect_addrs lib conns pid_text addrs m'
      | (Panic, m', _) \<Rightarrow> (Panic, m'))"

definition connect_ticket ::
  "'id proto_lib \<Rightarrow> (bytes \<Rightarrow> string + ('id, 'addr) ticket_data) \<Rightarrow> ('id \<Rightarrow> string) \<Rightarrow> ('addr \<Rightarrow> 'id \<times> link)
     \<Rightarrow> string \<Rightarrow> ('id, 'addr, 'ep, 'ch) replicator \<Rightarrow> unit result \<times> ('id, 'addr, 'ep, 'ch) replicator" where
  "connect_ticket lib from_json id_text conns ticket r =
     (case parse_ticket from_json ticket of
        Err e \<Rightarrow> (Err e, r)
      | Panic \<Rightarrow> (Panic, r)
      | Ok (pid, addrs0) \<Rightarrow>
          (case (if addrs0 = [] then
                   (case rp_discovery r of
                      Some d \<Rightarrow> discover pid
                    | None \<Rightarrow> Err (Other ''discovery not initialized''))
                 else Ok addrs0) of
             Err e \<Rightarrow> (Err e, r)
           | Panic \<Rightarrow> (Panic, r)
           | Ok addrs \<Rightarrow>
               (case rp_endpoint r of
                  None \<Rightarrow> (Err (Other ''replicator not started''), r)
                | Some ep \<Rightarrow>
                    (case connect_addrs lib conns (id_text pid) addrs (rp_sync_manager r) of
                       (res, m) \<Rightarrow> (res, r\<lparr>rp_sync_manager := m\<rparr>)))))"

text \<open>The accept task spawned by \<open>start\<close>: it serves a connection while the endpoint is open.\<close>

definition replicator_accept ::
  "'id proto_lib \<Rightarrow> link \<Rightarrow> 'id \<Rightarrow> ('id, 'addr, 'ep, 'ch) replicator \<Rightarrow> ('id, 'addr, 'ep, 'ch) replicator" where
  "replicator_accept lib lk pid r =
     (case rp_endpoint r of
        None \<Rightarrow> r
      | Some ep \<Rightarrow>
          (case handle_connection lib lk pid (rp_sync_manager r) of
             (res, m, out) \<Rightarrow> r\<lparr>rp_sync_manager := m\<rparr>))"

definition replicator_record_change ::
  "'ch change_send \<Rightarrow> change \<Rightarrow> ('id, 'addr, 'ep, 'ch) replicator \<Rightarrow> ('id, 'addr, 'ep, 'ch) replicator" where
  "replicator_record_change try_send c r = r\<lparr>rp_change_tx := snd (try_send (rp_change_tx r) c)\<rparr>"

subsection \<open>The main loop\<close>

definition loop_subscribe :: "('id, 'addr, 'ep, 'ch) replicator \<Rightarrow> ('id, 'addr, 'ep, 'ch) replicator" where
  "loop_subscribe r = (if rp_loop r = LoopSpawned then r\<lparr>rp_loop := LoopWaiting\<rparr> else r)"

definition loop_exit :: "('id, 'addr, 'ep, 'ch) replicator \<Rightarrow> ('id, 'addr, 'ep, 'ch) replicator" where
  "loop_exit r =
     (if rp_loop r = LoopSignalled then r\<lparr>rp_endpoint := None, rp_running := False, rp_loop := LoopNone\<rparr> else r)"

text \<open>One pass over the peer states: a peer that is not synchronized is connected to.\<close>

definition sync_peer ::
  "('id \<Rightarrow> string option) \<Rightarrow> nat \<Rightarrow> 'id peer_sync_state \<Rightarrow> ('id, 'addr, 'ep, 'ch) replicator
     \<Rightarrow> ('id, 'addr, 'ep, 'ch) replicator" where
  "sync_peer outcome now p r =
     (if ps_state p = Synchronized then r
      else case (rp_discovery r, rp_endpoint r) of
        (Some d, Some ep) \<Rightarrow> r\<lparr>rp_discovery := Some (snd (connect_to_peer outcome now (ps_peer_id p) d))\<rparr>
      | _ \<Rightarrow> r)"

definition sync_with_peers ::
  "('id \<Rightarrow> string option) \<Rightarrow> nat \<Rightarrow> (string \<times> 'id peer_sync_state) list \<Rightarrow> ('id, 'addr, 'ep, 'ch) replicator
     \<Rightarrow> ('id, 'addr, 'ep, 'ch) replicator" where
  "sync_with_peers outcome now kvs r = fold (sync_peer outcome now) (get_peer_states kvs) r"

definition loop_tick ::
  "('id \<Rightarrow> string option) \<Rightarrow> nat \<Rightarrow> (string \<times> 'id peer_sync_state) list \<Rightarrow> ('id, 'addr, 'ep, 'ch) replicator
     \<Rightarrow> ('id, 'addr, 'ep, 'ch) replicator" where
  "loop_tick outcome now kvs r =
     (if rp_loop r = LoopWaiting then sync_with_peers outcome now kvs r else r)"

subsection \<open>The lifecycle as a step relation\<close>

text \<open>
  What can happen to a replicator: calls of its methods and moves of its loop.
  \<open>call_shutdown\<close> and \<open>drop\<close> are told apart by the label.
\<close>

datatype 'ep rep_label =
  CallStart "'ep result" | CallShutdown | Dropped | LoopMove | CallRecord change | CallConnect string | Incoming

inductive rep_step ::
  "'ch change_send \<Rightarrow> ('id, 'addr, 'ep, 'ch) replicator \<Rightarrow> 'ep rep_label \<Rightarrow> ('id, 'addr, 'ep, 'ch) replicator \<Rightarrow> bool"
  for try_send where
  step_start: "rep_step try_send r (CallStart built) (snd (replicator_start built r))"
| step_shutdown: "rep_step try_send r CallShutdown (snd (replicator_shutdown r))"
| step_drop: "rep_step try_send r Dropped (replicator_drop r)"
| step_subscribe: "rep_step try_send r LoopMove (loop_subscribe r)"
| step_exit: "rep_step try_send r LoopMove (loop_exit r)"
| step_tick: "iterates kvs (sm_peer_states (rp_sync_manager r)) \<Longrightarrow>
     rep_step try_send r LoopMove (loop_tick outcome now kvs r)"
| step_record: "rep_step try_send r (CallRecord c) (replicator_record_change try_send c r)"
| step_connect: "rep_step try_send r (CallConnect ticket)
     (snd (connect_ticket lib from_json id_text conns ticket r))"
| step_accept: "rep_step try_send r Incoming (replicator_accept lib lk pid r)"

inductive rep_reaches ::
  "'ch change_send \<Rightarrow> ('ep rep_label \<Rightarrow> bool) \<Rightarrow> ('id, 'addr, 'ep, 'ch) replicator
     \<Rightarrow> ('id, 'addr, 'ep, 'ch) replicator \<Rightarrow> bool" for try_send allowed r0 where
  rep_refl: "rep_reaches try_send allowed r0 r0"
| rep_next: "rep_reaches try_send allowed r0 r \<Longrightarrow> allowed l \<Longrightarrow> rep_step try_send r l r'
     \<Longrightarrow> rep_reaches try_send allowed r0 r'"

inductive_cases rep_stepE: "rep_step try_send r l r'"

lemma rep_invariant:
  assumes "rep_reaches try_send allowed r0 r" "I r0"
    and "\<And>r l r'. I r \<Longrightarrow> allowed l \<Longrightarrow> rep_step try_send r l r' \<Longrightarrow> I r'"
  shows "I r"
  using assms by (induction rule: rep_reaches.induct) blast+

lemma sync_with_peers_frame:
  "rp_sync_manager (sync_with_peers outcome now kvs r) = rp_sync_manager r
   \<and> rp_endpoint (sync_with_peers outcome now kvs r) = rp_endpoint r
   \<and> rp_running (sync_with_peers outcome now kvs r) = rp_running r
   \<and> rp_loop (sync_with_peers outcome now kvs r) = rp_loop r
   \<and> rp_change_tx (sync_with_peers outcome now kvs r) = rp_change_tx r
   \<and> rp_config (sync_with_peers outcome now kvs r) = rp_config r
   \<and> (rp_discovery (sync_with_peers outcome now kvs r) = None \<longleftrightarrow> rp_discovery r = None)"
proof -
  have "rp_sync_manager (fold (sync_peer outcome now) ps r) = rp_sync_manager r
   \<and> rp_endpoint (fold (sync_peer outcome now) ps r) = rp_endpoint r
   \<and> rp_running (fold (sync_peer outcome now) ps r) = rp_running r
   \<and> rp_loop (fold (sync_peer outcome now) ps r) = rp_loop r
   \<and> rp_change_tx (fold (sync_peer outcome now) ps r) = rp_change_tx r
   \<and> rp_config (fold (sync_peer outcome now) ps r) = rp_config r
   \<and> (rp_discovery (fold (sync_peer outcome now) ps r) = None \<longleftrightarrow> rp_discovery r = None)" for ps
  proof (induction ps arbitrary: r)
    case (Cons p ps)
    then show ?case by (simp add: sync_peer_def split: option.split)
  qed simp
  then show ?thesis by (simp add: sync_with_peers_def)
qed

lemma connect_ticket_cases:
  "snd (connect_ticket lib from_json id_text conns ticket r)
     \<in> insert r {r\<lparr>rp_sync_manager := snd (connect_addrs lib conns p addrs (rp_sync_manager r))\<rparr> |p addrs. True}"
proof (cases "parse_ticket from_json ticket")
  case (Ok pa)
  show ?thesis
  proof (cases "if snd pa = [] then case rp_discovery r of Some d \<Rightarrow> discover (fst pa)
      | None \<Rightarrow> Err (Other ''discovery not initialized'') else Ok (snd pa)")
    case addrs: (Ok addrs)
    then show ?thesis
      by (cases "rp_endpoint r") (auto simp: connect_ticket_def Ok split_beta cong: if_cong)
  qed (simp_all add: connect_ticket_def Ok split_beta cong: if_cong)
qed (simp_all add: connect_ticket_def)

lemma accept_cases:
  "replicator_accept lib lk pid r
     \<in> {r, r\<lparr>rp_sync_manager := fst (snd (handle_connection lib lk pid (rp_sync_manager r)))\<rparr>}"
  by (simp add: replicator_accept_def split_beta split: option.split)

text \<open>Connections touch the sync manager only.\<close>

lemma connect_frame [simp]:
  "rp_endpoint (snd (connect_ticket lib from_json id_text conns ticket r)) = rp_endpoint r
   \<and> rp_running (snd (connect_ticket lib from_json id_text conns ticket r)) = rp_running r
   \<and> rp_loop (snd (connect_ticket lib from_json id_text conns ticket r)) = rp_loop r
   \<and> rp_discovery (snd (connect_ticket lib from_json id_text conns ticket r)) = rp_discovery r
   \<and> rp_change_tx (snd (connect_ticket lib from_json id_text conns ticket r)) = rp_change_tx r"
  using connect_ticket_cases [of lib from_json id_text conns ticket r] by auto

lemma accept_frame [simp]:
  "rp_endpoint (replicator_accept lib lk pid r) = rp_endpoint r
   \<and> rp_running (replicator_accept lib lk pid r) = rp_running r
   \<and> rp_loop (replicator_accept lib lk pid r) = rp_loop r
   \<and> rp_discovery (replicator_accept lib lk pid r) = rp_discovery r
   \<and> rp_change_tx (replicator_accept lib lk pid r) = rp_change_tx r"
  using accept_cases [of lib lk pid r] by auto

text \<open>An outgoing connection stores nothing in the log.\<close>

lemma update_peer_state_changes [simp]: "sm_changes (update_peer_state id_bytes m pid st) = sm_changes m"
  by (simp add: update_peer_state_def Let_def)

lemma apply_changes_changes [simp]: "sm_changes (snd (apply_changes m cs)) = sm_changes m"
  by (simp add: apply_changes_def split: prod.split)

lemma client_loop_changes: "sm_changes (snd (client_loop lib lk m rx)) = sm_changes m"
proof (induction lib lk m rx rule: client_loop.induct)
  case (1 lib lk m rx)
  have msg: "sm_changes (fst (client_message m response)) = sm_changes m" for response
    by (simp add: client_message_def split: sync_message.split)
  show ?case
  proof (cases "recv_frame rx")
    case (RecvFrame msg rest)
    show ?thesis
    proof (cases "decode_message (pl_from_json lib) msg")
      case (Ok response)
      then show ?thesis
        using 1 [OF RecvFrame Ok] msg [of response]
        by (subst client_loop.simps) (auto simp: RecvFrame split: prod.split bool.split)
    qed (subst client_loop.simps, simp add: RecvFrame)+
  qed (subst client_loop.simps, simp)+
qed

lemma connect_and_sync_changes: "sm_changes (fst (snd (connect_and_sync lib lk pid m))) = sm_changes m"
proof -
  let ?m1 = "update_peer_state (pl_id_bytes lib) m pid Syncing"
  have "client_loop lib lk ?m1 (lk_recv lk) = (e, m2) \<Longrightarrow> sm_changes m2 = sm_changes m" for e m2
    using client_loop_changes [of lib lk ?m1 "lk_recv lk"] by simp
  then show ?thesis
    by (auto simp: connect_and_sync_def Let_def split: option.split outcome.split prod.split)
qed

lemma connect_addrs_changes: "sm_changes (snd (connect_addrs lib conns pid_text addrs m)) = sm_changes m"
proof (induction addrs arbitrary: m)
  case (Cons a addrs)
  obtain res m' out where c: "connect_and_sync lib (snd (conns a)) (fst (conns a)) m = (res, m', out)"
    by (cases "connect_and_sync lib (snd (conns a)) (fst (conns a)) m") auto
  then have "sm_changes m' = sm_changes m"
    using connect_and_sync_changes [of lib "snd (conns a)" "fst (conns a)" m] by simp
  then show ?case using c Cons by (cases res) simp_all
qed simp

lemma connect_ticket_changes:
  "sm_changes (rp_sync_manager (snd (connect_ticket lib from_json id_text conns ticket r)))
     = sm_changes (rp_sync_manager r)"
  using connect_ticket_cases [of lib from_json id_text conns ticket r] by (auto simp: connect_addrs_changes)

text \<open>The lifecycle invariant.\<close>

definition rep_inv :: "('id, 'addr, 'ep, 'ch) replicator \<Rightarrow> bool" where
  "rep_inv r \<longleftrightarrow>
     (rp_loop r \<noteq> LoopNone \<longrightarrow> rp_running r)
     \<and> (rp_endpoint r \<noteq> None \<longrightarrow> rp_loop r \<noteq> LoopNone \<and> rp_discovery r \<noteq> None)"

lemmas rep_ops = replicator_start_def replicator_shutdown_def replicator_drop_def loop_subscribe_def
  loop_exit_def loop_tick_def replicator_record_change_def discovery_new_def signal_loop_def Let_def

lemma rep_inv_new [wf_intros]: "rep_inv (replicator_new closed_channel config)"
  by (simp add: rep_inv_def replicator_new_def)

lemma rep_inv_step [wf_intros]: "rep_inv r \<Longrightarrow> rep_step try_send r l r' \<Longrightarrow> rep_inv r'"
  by (erule rep_stepE)
     (auto simp: rep_inv_def rep_ops sync_with_peers_frame simp del: not_None_eq split: outcome.split run_loop.splits)

subsection \<open>Properties\<close>

text \<open>
  C22. Lifecycle: whatever calls and loop moves a new replicator goes through, its loop only
  exists while it is marked as running, an open endpoint implies a loop and a discovery manager
  (so \<open>generate_ticket\<close> then works on it), \<open>start\<close> is refused exactly
  while it is marked as running, and when the signalled loop has ended it can be started again.
\<close>

theorem replicator_lifecycle:
  assumes "rep_reaches try_send (\<lambda>l. True) (replicator_new closed_channel config) r"
  shows "(rp_loop r \<noteq> LoopNone \<longrightarrow> rp_running r)
    \<and> (rp_endpoint r \<noteq> None \<longrightarrow> rp_loop r \<noteq> LoopNone \<and> rp_discovery r \<noteq> None)
    \<and> (fst (replicator_start (Ok ep) r) = Ok () \<longleftrightarrow> \<not> rp_running r)
    \<and> (rp_loop r = LoopWaiting \<longrightarrow>
         fst (replicator_start (Ok ep) (loop_exit (snd (replicator_shutdown r)))) = Ok ())"
proof -
  have "rep_inv r"
    by (rule rep_invariant [OF assms, where I = rep_inv]) (rule rep_inv_new, rule rep_inv_step)
  then show ?thesis by (auto simp: rep_inv_def rep_ops)
qed

theorem replicator_lifecycle_witness:
  "let r = loop_subscribe (snd (replicator_start (Ok ()) (replicator_new (\<lambda>n. ()) default_config)))
   in fst (replicator_start (Ok ()) (loop_exit (snd (replicator_shutdown (r :: (nat, nat, unit, unit) replicator)))))
        = Ok ()"
proof -
  let ?r0 = "replicator_new (\<lambda>n. ()) default_config :: (nat, nat, unit, unit) replicator"
  let ?r1 = "snd (replicator_start (Ok ()) ?r0)"
  have "rep_reaches (\<lambda>ch c. (False, ch)) (\<lambda>l. True) ?r0 ?r1"
    by (rule rep_next [OF rep_refl TrueI step_start])
  then have "rep_reaches (\<lambda>ch c. (False, ch)) (\<lambda>l. True) ?r0 (loop_subscribe ?r1)"
    by (rule rep_next [OF _ TrueI step_subscribe])
  from replicator_lifecycle [OF this, of "()"] show ?thesis
    by (auto simp: Let_def replicator_start_def replicator_new_def discovery_new_def loop_subscribe_def)
qed

text \<open>
  A failed start is final: when the endpoint cannot be built, \<open>running\<close> stays set with no
  loop to clear it, so whatever is called afterwards, shutdown included, the replicator never
  has an endpoint and every later \<open>start\<close> is refused.
\<close>

theorem failed_start_is_final:
  assumes "\<not> rp_running r0" "rp_loop r0 = LoopNone" "rp_endpoint r0 = None"
    and "rep_reaches try_send (\<lambda>l. True) (snd (replicator_start (Err e) r0)) r"
  shows "fst (replicator_start (Err e) r0) = Err e
    \<and> rp_endpoint r = None \<and> fst (replicator_start built r) = Err (Other ''replicator already started'')"
proof -
  have "rp_running r \<and> rp_loop r = LoopNone \<and> rp_endpoint r = None"
  proof (rule rep_invariant [OF assms(4)])
    show "rp_running (snd (replicator_start (Err e) r0)) \<and> rp_loop (snd (replicator_start (Err e) r0)) = LoopNone
        \<and> rp_endpoint (snd (replicator_start (Err e) r0)) = None"
      using assms(1-3) by (simp add: replicator_start_def)
  next
    fix s l s' assume "rp_running s \<and> rp_loop s = LoopNone \<and> rp_endpoint s = None" "rep_step try_send s l s'"
    then show "rp_running s' \<and> rp_loop s' = LoopNone \<and> rp_endpoint s' = None"
      by (elim rep_stepE) (auto simp: rep_ops)
  qed
  then show ?thesis using assms(1) by (simp add: replicator_start_def)
qed

theorem failed_start_is_final_witness:
  "let r = snd (replicator_shutdown (snd (replicator_start (Err (Endpoint ''busy''))
             (replicator_new (\<lambda>n. ()) default_config :: (nat, nat, unit, unit) replicator))))
   in fst (replicator_start (Ok ()) r) = Err (Other ''replicator already started'')"
proof -
  let ?r0 = "replicator_new (\<lambda>n. ()) default_config :: (nat, nat, unit, unit) replicator"
  have "rep_reaches (\<lambda>ch c. (False, ch)) (\<lambda>l. True) (snd (replicator_start (Err (Endpoint ''busy'')) ?r0))
      (snd (replicator_shutdown (snd (replicator_start (Err (Endpoint ''busy'')) ?r0))))"
    by (rule rep_next [OF rep_refl TrueI step_shutdown])
  from failed_start_is_final [OF _ _ _ this, of "Ok ()"] show ?thesis
    by (simp add: replicator_new_def Let_def)
qed

text \<open>
  A shutdown right after \<open>start\<close> is lost: it finds the loop not yet subscribed,
  closes the endpoint and returns \<open>Ok\<close>, and until \<open>shutdown\<close> is called
  again or the replicator is dropped, the loop keeps running without an endpoint and every
  \<open>start\<close> is refused.
\<close>

theorem early_shutdown_lost:
  assumes "\<not> rp_running r0"
    and "rep_reaches try_send (\<lambda>l. l \<noteq> CallShutdown \<and> l \<noteq> Dropped)
           (snd (replicator_shutdown (snd (replicator_start (Ok ep) r0)))) r"
  shows "fst (replicator_shutdown (snd (replicator_start (Ok ep) r0))) = Ok ()
    \<and> rp_running r \<and> rp_loop r \<in> {LoopSpawned, LoopWaiting} \<and> rp_endpoint r = None
    \<and> fst (replicator_start built r) = Err (Other ''replicator already started'')"
proof -
  have "rp_running r \<and> rp_loop r \<in> {LoopSpawned, LoopWaiting} \<and> rp_endpoint r = None"
  proof (rule rep_invariant [OF assms(2)])
    let ?r = "snd (replicator_shutdown (snd (replicator_start (Ok ep) r0)))"
    show "rp_running ?r \<and> rp_loop ?r \<in> {LoopSpawned, LoopWaiting} \<and> rp_endpoint ?r = None"
      using assms(1) by (simp add: rep_ops)
  next
    fix s l s' assume "rp_running s \<and> rp_loop s \<in> {LoopSpawned, LoopWaiting} \<and> rp_endpoint s = None"
      "l \<noteq> CallShutdown \<and> l \<noteq> Dropped" "rep_step try_send s l s'"
    then show "rp_running s' \<and> rp_loop s' \<in> {LoopSpawned, LoopWaiting} \<and> rp_endpoint s' = None"
      by (elim rep_stepE) (auto simp: rep_ops sync_with_peers_frame)
  qed
  then show ?thesis using assms(1) by (simp add: replicator_start_def replicator_shutdown_def discovery_new_def Let_def)
qed

theorem early_shutdown_lost_witness:
  "let r = loop_exit (loop_subscribe (snd (replicator_shutdown (snd (replicator_start (Ok ())
             (replicator_new (\<lambda>n. ()) default_config :: (nat, nat, unit, unit) replicator))))))
   in rp_running r \<and> fst (replicator_start (Ok ()) r) = Err (Other ''replicator already started'')"
proof -
  let ?r0 = "replicator_new (\<lambda>n. ()) default_config :: (nat, nat, unit, unit) replicator"
  let ?r1 = "snd (replicator_shutdown (snd (replicator_start (Ok ()) ?r0)))"
  have "\<not> rp_running ?r0" by (simp add: replicator_new_def)
  moreover have "rep_reaches (\<lambda>ch c. (False, ch)) (\<lambda>l. l \<noteq> CallShutdown \<and> l \<noteq> Dropped) ?r1
      (loop_subscribe ?r1)"
    by (rule rep_next [OF rep_refl _ step_subscribe]) simp
  then have "rep_reaches (\<lambda>ch c. (False, ch)) (\<lambda>l. l \<noteq> CallShutdown \<and> l \<noteq> Dropped) ?r1
      (loop_exit (loop_subscribe ?r1))"
    by (rule rep_next [OF _ _ step_exit]) simp
  ultimately show ?thesis
    using early_shutdown_lost [of ?r0 "\<lambda>ch c. (False, ch)" "()" "loop_exit (loop_subscribe ?r1)" "Ok ()"]
    by (simp add: Let_def)
qed

text \<open>
  Recorded changes go nowhere: the channel has no receiver, so whatever is recorded, and
  whatever the replicator goes through short of a peer connecting to it, starts, shutdowns,
  its loop and its own connections included, its log is empty and it serves no change.
\<close>

theorem recorded_changes_lost:
  assumes "\<And>c. try_send (closed_channel 1000) c = (False, closed_channel 1000)"
    and "rep_reaches try_send (\<lambda>l. l \<noteq> Incoming)
           (replicator_new closed_channel config :: ('id, 'addr, 'ep, 'ch) replicator) r"
  shows "sm_changes (rp_sync_manager (replicator_record_change try_send c r)) = []
     \<and> rp_change_tx (replicator_record_change try_send c r) = closed_channel 1000
     \<and> get_changes_since (rp_sync_manager (replicator_record_change try_send c r)) off = []"
proof -
  have "sm_changes (rp_sync_manager r) = [] \<and> rp_change_tx r = closed_channel 1000"
  proof (rule rep_invariant [OF assms(2)])
    fix s l s' assume "sm_changes (rp_sync_manager s) = [] \<and> rp_change_tx s = closed_channel 1000"
      "l \<noteq> Incoming" "rep_step try_send s l s'"
    then show "sm_changes (rp_sync_manager s') = [] \<and> rp_change_tx s' = closed_channel 1000"
      using assms(1)
      by (elim rep_stepE) (auto simp: rep_ops sync_with_peers_frame connect_ticket_changes split: outcome.split)
  qed (simp add: replicator_new_def sync_manager_new_def)
  then show ?thesis
    using assms(1) by (simp add: replicator_record_change_def get_changes_since_def)
qed

theorem recorded_changes_lost_witness:
  "get_changes_since (rp_sync_manager (replicator_record_change (\<lambda>ch c. (False, ch)) (change_query 1 0 [] [] None)
     (replicator_new (\<lambda>n. ()) default_config :: (nat, nat, unit, unit) replicator))) 0 = []"
  by (rule recorded_changes_lost [of "\<lambda>ch c. (False, ch)" "\<lambda>n. ()", THEN conjunct2, THEN conjunct2])
     (auto intro: rep_refl)

text \<open>
  The crate's own tickets never connect: a ticket a replicator generates carries no
  address, and a replicator that receives it (started, endpoint open) finds none either, so
  \<open>connect_ticket\<close> always ends in \<open>PeerNotFound\<close> without an attempt to connect.
\<close>

theorem own_tickets_unusable:
  assumes "replicator_generate_ticket ep_id to_json r = Ok t" "rp_endpoint r = Some ep"
    and "ticket_faithful to_json from_json \<lparr>td_endpoint_id = ep_id ep, td_addresses = []\<rparr>"
    and "rp_endpoint r' \<noteq> None" "rp_discovery r' \<noteq> None"
  shows "connect_ticket lib from_json id_text conns t r' = (Err (PeerNotFound (id_text (ep_id ep))), r')"
proof -
  have "generate_ticket to_json (ep_id ep) [] = Ok t"
    using assms(1,2) by (auto simp: replicator_generate_ticket_def split: option.splits)
  then have "parse_ticket from_json t = Ok (ep_id ep, [])"
    using ticket_roundtrip_lemma [OF assms(3)] by auto
  then show ?thesis
    using assms(4,5) by (auto simp: connect_ticket_def discover_def)
qed

theorem own_tickets_unusable_witness:
  "let r = snd (replicator_start (Ok (7 :: u8)) (replicator_new (\<lambda>n. ()) default_config :: (u8, nat, u8, unit) replicator))
   in \<exists>t. replicator_generate_ticket (\<lambda>e. e) (\<lambda>td. Inr [td_endpoint_id td]) r = Ok t
        \<and> connect_ticket keepalive_lib (\<lambda>bs. Inr \<lparr>td_endpoint_id = hd bs, td_addresses = []\<rparr>) (\<lambda>i. ''peer'')
            (\<lambda>a. (7, perfect_link [])) t r = (Err (PeerNotFound ''peer''), r)"
proof -
  let ?r = "snd (replicator_start (Ok (7 :: u8)) (replicator_new (\<lambda>n. ()) default_config :: (u8, nat, u8, unit) replicator))"
  have "rp_endpoint ?r = Some 7" "rp_discovery ?r \<noteq> None"
    by (simp_all add: replicator_start_def replicator_new_def discovery_new_def)
  moreover have "\<exists>t. replicator_generate_ticket (\<lambda>e. e) (\<lambda>td. Inr [td_endpoint_id td]) ?r = Ok t"
    by (simp add: replicator_start_def replicator_new_def discovery_new_def replicator_generate_ticket_def generate_ticket_def)
  ultimately show ?thesis
    using own_tickets_unusable [of "\<lambda>e. e" "\<lambda>td. Inr [td_endpoint_id td]" ?r _ 7
        "\<lambda>bs. Inr \<lparr>td_endpoint_id = hd bs, td_addresses = []\<rparr>" ?r keepalive_lib "\<lambda>i. ''peer''"
        "\<lambda>a. (7, perfect_link [])"]
    by (auto simp: ticket_faithful_def Let_def)
qed

lemma sync_with_peers_discovery:
  fixes r :: "('id, 'addr, 'ep, 'ch) replicator"
  assumes "rp_endpoint r = Some ep" "rp_discovery r = Some d" "dm_self_endpoint_id d = None"
  shows "\<exists>d'. rp_discovery (fold (sync_peer outcome now) ps r) = Some d' \<and> dm_self_endpoint_id d' = None
     \<and> map dp_endpoint_id (dm_peers d') = map dp_endpoint_id (dm_peers d)
     \<and> set (dm_peers d') \<subseteq> set (dm_peers d) \<union> peer_mark_connected now `
         {q. \<exists>p \<in> set ps. ps_state p \<noteq> Synchronized \<and> dp_endpoint_id q = ps_peer_id p
              \<and> outcome (ps_peer_id p) = None}"
  using assms
proof (induction ps arbitrary: r d)
  case (Cons p ps)
  let ?C = "\<lambda>ps. {q. \<exists>p \<in> set ps. ps_state p \<noteq> Synchronized \<and> dp_endpoint_id q = ps_peer_id p
              \<and> outcome (ps_peer_id p) = None}"
  let ?M = "\<lambda>ps. peer_mark_connected now ` ?C ps"
  have mono: "?M ps \<subseteq> ?M (p # ps)" by (intro image_mono) auto
  show ?case
  proof (cases "ps_state p = Synchronized \<or> outcome (ps_peer_id p) \<noteq> None")
    case True
    have "r\<lparr>rp_discovery := Some d\<rparr> = r" using Cons.prems(2) by (cases r) simp
    then have step: "sync_peer outcome now p r = r"
      using True Cons.prems by (cases "outcome (ps_peer_id p)") (simp_all add: sync_peer_def connect_to_peer_def)
    obtain d' where "rp_discovery (fold (sync_peer outcome now) ps r) = Some d'" "dm_self_endpoint_id d' = None"
      "map dp_endpoint_id (dm_peers d') = map dp_endpoint_id (dm_peers d)"
      "set (dm_peers d') \<subseteq> set (dm_peers d) \<union> ?M ps"
      using Cons.IH [OF Cons.prems] by blast
    then show ?thesis using mono step by (intro exI [of _ d']) (simp, blast)
  next
    case False
    define d1 where "d1 = d\<lparr>dm_peers := update_first (\<lambda>q. dp_endpoint_id q = ps_peer_id p)
      (peer_mark_connected now) (dm_peers d)\<rparr>"
    have step: "sync_peer outcome now p r = r\<lparr>rp_discovery := Some d1\<rparr>"
      using False Cons.prems by (simp add: sync_peer_def connect_to_peer_def d1_def)
    have ids: "map dp_endpoint_id (dm_peers d1) = map dp_endpoint_id (dm_peers d)"
      by (simp add: d1_def map_update_first peer_mark_connected_def)
    have "set (dm_peers d1) \<subseteq> set (dm_peers d) \<union> peer_mark_connected now ` {q. dp_endpoint_id q = ps_peer_id p}"
      using set_update_first [of "\<lambda>q. dp_endpoint_id q = ps_peer_id p" "peer_mark_connected now" "dm_peers d"]
      by (auto simp: d1_def)
    moreover have "{q. dp_endpoint_id q = ps_peer_id p} \<subseteq> ?C (p # ps)" using False by auto
    ultimately have marked: "set (dm_peers d1) \<subseteq> set (dm_peers d) \<union> ?M (p # ps)" by blast
    have "rp_endpoint (r\<lparr>rp_discovery := Some d1\<rparr>) = Some ep" "dm_self_endpoint_id d1 = None"
      using Cons.prems by (simp_all add: d1_def)
    from Cons.IH [OF this(1) _ this(2)]
    obtain d' where "rp_discovery (fold (sync_peer outcome now) ps (r\<lparr>rp_discovery := Some d1\<rparr>)) = Some d'"
      "dm_self_endpoint_id d' = None"
      "map dp_endpoint_id (dm_peers d') = map dp_endpoint_id (dm_peers d1)"
      "set (dm_peers d') \<subseteq> set (dm_peers d1) \<union> ?M ps"
      by auto
    then show ?thesis using mono step ids marked by (intro exI [of _ d']) (simp, blast)
  qed
qed auto

text \<open>
  The periodic sync only opens connections: it changes nothing of the sync manager; of the
  discovery manager it only marks, as connected, entries of peers that are not
  \<open>Synchronized\<close> and could be connected to; and since nobody tells the discovery
  manager its own identifier, a peer with that identifier is not left out.
\<close>

theorem periodic_sync_syncs_nothing:
  assumes "rp_endpoint r = Some ep" "rp_discovery r = Some d" "dm_self_endpoint_id d = None"
  shows "let r' = sync_with_peers outcome now kvs r
         in rp_sync_manager r' = rp_sync_manager r
            \<and> (\<exists>d'. rp_discovery r' = Some d' \<and> dm_self_endpoint_id d' = None
                 \<and> map dp_endpoint_id (known_peers d') = map dp_endpoint_id (known_peers d)
                 \<and> set (known_peers d') \<subseteq> set (known_peers d) \<union> peer_mark_connected now `
                     {q. \<exists>p \<in> set (get_peer_states kvs). ps_state p \<noteq> Synchronized
                          \<and> dp_endpoint_id q = ps_peer_id p \<and> outcome (ps_peer_id p) = None})"
  using sync_with_peers_discovery [OF assms, of outcome now "get_peer_states kvs"]
    sync_with_peers_frame [of outcome now kvs r]
  by (simp add: Let_def known_peers_def sync_with_peers_def)

theorem periodic_sync_syncs_nothing_witness:
  "let r = snd (replicator_start (Ok ()) (replicator_new (\<lambda>n. ()) default_config :: (nat, nat, unit, unit) replicator))
   in rp_sync_manager (sync_with_peers (\<lambda>i. None) 3 [(''p'', peer_sync_state_new 7)] r) = rp_sync_manager r"
proof -
  let ?r = "snd (replicator_start (Ok ()) (replicator_new (\<lambda>n. ()) default_config :: (nat, nat, unit, unit) replicator))"
  have "\<exists>d. rp_endpoint ?r = Some () \<and> rp_discovery ?r = Some d \<and> dm_self_endpoint_id d = None"
    by (simp add: replicator_start_def replicator_new_def discovery_new_def)
  then show ?thesis
    using periodic_sync_syncs_nothing [of ?r "()" _ "\<lambda>i. None" 3 "[(''p'', peer_sync_state_new 7)]"]
    by (auto simp: Let_def)
qed

end
