(* ===== verification/Hook.thy ===== *)
theory Hook
  imports Replicator "HOL-Library.Sublist"
begin

section \<open>Database hooks (\<open>src/hook.rs\<close>)\<close>

text \<open>
  The runner puts a bounded queue in front of a replicator: \<open>record_change\<close> enqueues,
  a task spawned by \<open>new\<close> takes one change after the other, records it in the
  replicator and calls every registered hook. What hooks do is their own business: a hook is a
  record of functions on a world type \<open>'w\<close>, which the two hooks of the crate
  instantiate (one does nothing, the other appends to the log). The trait \<open>QueryHook\<close>
  is neither implemented nor called in the crate.
\<close>

record ('id, 'w) storage_hook =
  on_change :: "change \<Rightarrow> 'w \<Rightarrow> 'w"
  on_sync_request :: "'id \<Rightarrow> 'w \<Rightarrow> 'w"
  on_sync_complete :: "'id \<Rightarrow> nat \<Rightarrow> 'w \<Rightarrow> 'w"

record ('id, 'addr, 'ep, 'ch, 'w) replicator_runner =
  rr_replicator :: "('id, 'addr, 'ep, 'ch) replicator"
  rr_hooks :: "('id, 'w) storage_hook list"
  rr_queue :: "change list"

definition RUNNER_CAPACITY :: nat where
  "RUNNER_CAPACITY = 1000"

definition runner_new ::
  "(nat \<Rightarrow> 'ch) \<Rightarrow> 'addr replicator_config \<Rightarrow> ('id, 'addr, 'ep, 'ch, 'w) replicator_runner" where
  "runner_new closed_channel config =
     \<lparr>rr_replicator = replicator_new closed_channel config, rr_hooks = [], rr_queue = []\<rparr>"

text \<open>A full queue refuses the change, and \<open>record_change\<close> ignores that.\<close>

definition runner_record_change ::
  "change \<Rightarrow> ('id, 'addr, 'ep, 'ch, 'w) replicator_runner \<Rightarrow> ('id, 'addr, 'ep, 'ch, 'w) replicator_runner" where
  "runner_record_change c r =
     (if length (rr_queue r) < RUNNER_CAPACITY then r\<lparr>rr_queue := rr_queue r @ [c]\<rparr> else r)"

definition notify_hooks :: "('id, 'w) storage_hook list \<Rightarrow> change \<Rightarrow> 'w \<Rightarrow> 'w" where
  "notify_hooks hooks c w = fold (\<lambda>h. on_change h c) hooks w"

text \<open>One turn of the forwarding task; without a queued change it waits.\<close>

definition runner_forward ::
  "'ch change_send \<Rightarrow> ('id, 'addr, 'ep, 'ch, 'w) replicator_runner \<times> 'w
     \<Rightarrow> ('id, 'addr, 'ep, 'ch, 'w) replicator_runner \<times> 'w" where
  "runner_forward try_send s =
     (case rr_queue (fst s) of
        [] \<Rightarrow> s
      | c # q \<Rightarrow>
          ((fst s)\<lparr>rr_queue := q, rr_replicator := replicator_record_change try_send c (rr_replicator (fst s))\<rparr>,
           notify_hooks (rr_hooks (fst s)) c (snd s)))"

definition register_hook ::
  "('id, 'w) storage_hook \<Rightarrow> ('id, 'addr, 'ep, 'ch, 'w) replicator_runner
     \<Rightarrow> ('id, 'addr, 'ep, 'ch, 'w) replicator_runner" where
  "register_hook h r = r\<lparr>rr_hooks := rr_hooks r @ [h]\<rparr>"

definition runner_start ::
  "'ep result \<Rightarrow> ('id, 'addr, 'ep, 'ch, 'w) replicator_runner
     \<Rightarrow> unit result \<times> ('id, 'addr, 'ep, 'ch, 'w) replicator_runner" where
  "runner_start built r =
     (let (res, rp) = replicator_start built (rr_replicator r) in (res, r\<lparr>rr_replicator := rp\<rparr>))"

definition runner_shutdown ::
  "('id, 'addr, 'ep, 'ch, 'w) replicator_runner \<Rightarrow> unit result \<times> ('id, 'addr, 'ep, 'ch, 'w) replicator_runner" where
  "runner_shutdown r =
     (let (res, rp) = replicator_shutdown (rr_replicator r) in (res, r\<lparr>rr_replicator := rp\<rparr>))"

definition runner_connect_ticket ::
  "'id proto_lib \<Rightarrow> (bytes \<Rightarrow> string + ('id, 'addr) ticket_data) \<Rightarrow> ('id \<Rightarrow> string) \<Rightarrow> ('addr \<Rightarrow> 'id \<times> link)
     \<Rightarrow> string \<Rightarrow> ('id, 'addr, 'ep, 'ch, 'w) replicator_runner
     \<Rightarrow> unit result \<times> ('id, 'addr, 'ep, 'ch, 'w) replicator_runner" where
  "runner_connect_ticket lib from_json id_text conns ticket r =
     (let (res, rp) = connect_ticket lib from_json id_text conns ticket (rr_replicator r)
      in (res, r\<lparr>rr_replicator := rp\<rparr>))"

definition runner_generate_ticket ::
  "('ep \<Rightarrow> 'id) \<Rightarrow> (('id, 'addr) ticket_data \<Rightarrow> string + bytes)
     \<Rightarrow> ('id, 'addr, 'ep, 'ch, 'w) replicator_runner \<Rightarrow> string result" where
  "runner_generate_ticket ep_id to_json r = replicator_generate_ticket ep_id to_json (rr_replicator r)"

definition runner_endpoint_id :: "('ep \<Rightarrow> 'id) \<Rightarrow> ('id, 'addr, 'ep, 'ch, 'w) replicator_runner \<Rightarrow> 'id option" where
  "runner_endpoint_id ep_id r = replicator_endpoint_id ep_id (rr_replicator r)"

subsection \<open>The sync context and the hooks of the crate\<close>

definition record_db_change ::
  "'ch change_send \<Rightarrow> uuid \<Rightarrow> int \<Rightarrow> string \<Rightarrow> string \<Rightarrow> bytes \<Rightarrow> bytes option
     \<Rightarrow> ('id, 'addr, 'ep, 'ch) replicator \<Rightarrow> ('id, 'addr, 'ep, 'ch) replicator" where
  "record_db_change try_send new_id now ns db k v r =
     (let c = (case v of Some v \<Rightarrow> change_set new_id now ns db k v | None \<Rightarrow> change_delete new_id now ns db k)
      in replicator_record_change try_send c r)"

definition noop_hook :: "('id, 'w) storage_hook" where
  "noop_hook = \<lparr>on_change = (\<lambda>c w. w), on_sync_request = (\<lambda>p w. w), on_sync_complete = (\<lambda>p n w. w)\<rparr>"

datatype 'id log_line =
    ChangeRecorded string string "bytes option" change_operation
  | SyncRequested 'id
  | SyncCompleted 'id nat

definition logging_hook :: "('id, 'id log_line list) storage_hook" where
  "logging_hook =
     \<lparr>on_change = (\<lambda>c w. w @ [ChangeRecorded (ch_namespace c) (ch_database c) (ch_key c) (ch_operation c)]),
      on_sync_request = (\<lambda>p w. w @ [SyncRequested p]),
      on_sync_complete = (\<lambda>p n w. w @ [SyncCompleted p n])\<rparr>"

subsection \<open>The runner as a state machine\<close>

datatype 'ep runner_op = RunRecord change | RunForward | RunStart "'ep result" | RunShutdown

fun runner_step ::
  "'ch change_send \<Rightarrow> ('id, 'addr, 'ep, 'ch, 'w) replicator_runner \<times> 'w \<Rightarrow> 'ep runner_op
     \<Rightarrow> ('id, 'addr, 'ep, 'ch, 'w) replicator_runner \<times> 'w" where
  "runner_step try_send (r, w) (RunRecord c) = (runner_record_change c r, w)"
| "runner_step try_send (r, w) RunForward = runner_forward try_send (r, w)"
| "runner_step try_send (r, w) (RunStart built) = (snd (runner_start built r), w)"
| "runner_step try_send (r, w) RunShutdown = (snd (runner_shutdown r), w)"

fun recorded :: "'ep runner_op list \<Rightarrow> change list" where
  "recorded [] = []"
| "recorded (RunRecord c # ops) = c # recorded ops"
| "recorded (op # ops) = recorded ops"

lemma recorded_append [simp]: "recorded (xs @ ys) = recorded xs @ recorded ys"
  by (induction xs rule: recorded.induct) simp_all

lemma start_frame:
  "rp_sync_manager (snd (replicator_start built r)) = rp_sync_manager r
   \<and> rp_change_tx (snd (replicator_start built r)) = rp_change_tx r"
  by (simp add: replicator_start_def Let_def split: outcome.split)

lemma shutdown_frame:
  "rp_sync_manager (snd (replicator_shutdown r)) = rp_sync_manager r
   \<and> rp_change_tx (snd (replicator_shutdown r)) = rp_change_tx r"
  by (simp add: replicator_shutdown_def)

text \<open>
  The invariant: \<open>delivered\<close> went through the hooks in order, what is queued follows,
  nothing else was accepted, and the replicator has gained nothing.
\<close>

definition runner_inv ::
  "('id, 'addr, 'ep, 'ch, 'w) replicator_runner \<Rightarrow> 'w \<Rightarrow> ('id, 'addr, 'ep, 'ch, 'w) replicator_runner \<times> 'w
     \<Rightarrow> change list \<Rightarrow> change list \<Rightarrow> bool" where
  "runner_inv r0 w0 s delivered cs \<longleftrightarrow>
     rr_hooks (fst s) = rr_hooks r0
     \<and> snd s = fold (notify_hooks (rr_hooks r0)) delivered w0
     \<and> subseq (delivered @ rr_queue (fst s)) cs
     \<and> (length cs \<le> RUNNER_CAPACITY \<longrightarrow> delivered @ rr_queue (fst s) = cs)
     \<and> length (rr_queue (fst s)) \<le> RUNNER_CAPACITY
     \<and> rp_sync_manager (rr_replicator (fst s)) = rp_sync_manager (rr_replicator r0)
     \<and> rp_change_tx (rr_replicator (fst s)) = rp_change_tx (rr_replicator r0)"

lemma runner_inv_step:
  assumes inv: "runner_inv r0 w0 s delivered cs"
    and closed: "\<And>c. try_send (rp_change_tx (rr_replicator r0)) c = (False, rp_change_tx (rr_replicator r0))"
  shows "\<exists>delivered'. runner_inv r0 w0 (runner_step try_send s op) delivered' (cs @ recorded [op])"
proof (cases op)
  case (RunRecord c)
  have "subseq (delivered @ rr_queue (fst s) @ [c]) (cs @ [c])"
    using inv list_emb_append_mono [of "(=)" "delivered @ rr_queue (fst s)" cs "[c]" "[c]"]
    by (simp add: runner_inv_def)
  moreover have "subseq (delivered @ rr_queue (fst s)) (cs @ [c])"
    using inv by (simp add: runner_inv_def list_emb_prefix)
  moreover have "length (rr_queue (fst s)) \<le> length cs"
    using inv list_emb_length [of "(=)" "delivered @ rr_queue (fst s)" cs] by (simp add: runner_inv_def)
  ultimately show ?thesis
    using inv RunRecord
    by (intro exI [of _ delivered], cases s) (simp add: runner_inv_def runner_record_change_def)
next
  case RunForward
  show ?thesis
  proof (cases "rr_queue (fst s)")
    case Nil
    then have "runner_step try_send s op = s" using RunForward by (cases s) (simp add: runner_forward_def)
    then show ?thesis using inv RunForward by (intro exI [of _ delivered]) simp
  next
    case (Cons c q)
    then show ?thesis
      using inv closed RunForward
      by (intro exI [of _ "delivered @ [c]"], cases s)
         (simp add: runner_inv_def runner_forward_def replicator_record_change_def)
  qed
next
  case (RunStart built)
  then show ?thesis
    using inv start_frame [of built "rr_replicator (fst s)"]
    by (intro exI [of _ delivered], cases s) (simp add: runner_inv_def runner_start_def split_beta Let_def)
next
  case RunShutdown
  then show ?thesis
    using inv shutdown_frame [of "rr_replicator (fst s)"]
    by (intro exI [of _ delivered], cases s) (simp add: runner_inv_def runner_shutdown_def split_beta Let_def)
qed

interpretation forwarding: simulation "runner_step try_send" "\<lambda>cs op. cs @ recorded [op]"
    "\<lambda>s cs. (\<forall>c. try_send (rp_change_tx (rr_replicator r0)) c = (False, rp_change_tx (rr_replicator r0)))
       \<and> (\<exists>delivered. runner_inv r0 w0 s delivered cs)" "\<lambda>op. True"
  by unfold_locales (metis runner_inv_step)

lemma recorded_run: "foldl (\<lambda>cs op. cs @ recorded [op]) cs ops = cs @ recorded ops"
  by (induction ops arbitrary: cs) (simp_all flip: recorded_append)

lemma runner_inv_run:
  assumes "\<And>c. try_send (rp_change_tx (rr_replicator r0)) c = (False, rp_change_tx (rr_replicator r0))"
    and "rr_queue r0 = []"
  shows "\<exists>delivered. runner_inv r0 w0 (foldl (runner_step try_send) (r0, w0) ops) delivered (recorded ops)"
proof -
  have "runner_inv r0 w0 (r0, w0) [] []" using assms(2) by (simp add: runner_inv_def)
  then have "\<exists>delivered. runner_inv r0 w0 (foldl (runner_step try_send) (r0, w0) ops) delivered
      (foldl (\<lambda>cs op. cs @ recorded [op]) [] ops)"
    using forwarding.sim_run [of try_send r0 w0 "(r0, w0)" "[]" ops] assms(1) by (auto simp: list_all_iff)
  then show ?thesis by (simp only: recorded_run append_Nil)
qed

subsection \<open>Properties\<close>

text \<open>
  C23. Hooks see every change, peers see none: along any sequence of records, forwarding turns,
  starts and shutdowns from an empty queue on, the hooks have been called, in order, with a prefix
  of a subsequence of the recorded changes, the rest of which is still queued; nothing is left out
  while at most 1000 changes have been recorded. But the replicator's channel has no receiver, so
  its sync manager is the same as before.
\<close>

theorem hooks_see_changes_peers_do_not:
  assumes "\<And>c. try_send (rp_change_tx (rr_replicator r0)) c = (False, rp_change_tx (rr_replicator r0))"
    and "rr_queue r0 = []"
  shows "\<exists>delivered. let (r, w) = foldl (runner_step try_send) (r0, w0) ops
     in w = fold (\<lambda>c. fold (\<lambda>h. on_change h c) (rr_hooks r0)) delivered w0
        \<and> subseq (delivered @ rr_queue r) (recorded ops)
        \<and> (length (recorded ops) \<le> 1000 \<longrightarrow> delivered @ rr_queue r = recorded ops)
        \<and> rp_sync_manager (rr_replicator r) = rp_sync_manager (rr_replicator r0)"
  using runner_inv_run [of try_send r0 w0 ops, OF assms]
  by (fastforce simp: runner_inv_def notify_hooks_def [abs_def] RUNNER_CAPACITY_def split_beta Let_def)

theorem hooks_see_changes_peers_do_not_witness:
  "let r0 = register_hook logging_hook (register_hook noop_hook
        (runner_new (\<lambda>n. ()) default_config :: (nat, nat, unit, unit, nat log_line list) replicator_runner));
       c = change_set 1 0 ''ns'' ''db'' [1] [2]
   in foldl (runner_step (\<lambda>ch c. (False, ch))) (r0, []) [RunRecord c, RunForward]
        = (r0, [ChangeRecorded ''ns'' ''db'' (Some [1]) OpSet])"
proof -
  let ?r0 = "register_hook logging_hook (register_hook noop_hook
        (runner_new (\<lambda>n. ()) default_config :: (nat, nat, unit, unit, nat log_line list) replicator_runner))"
  let ?c = "change_set 1 0 ''ns'' ''db'' [1] [2]"
  let ?s = "foldl (runner_step (\<lambda>ch c. (False, ch))) (?r0, []) [RunRecord ?c, RunForward]"
  have q: "rr_queue ?r0 = []" by (simp add: register_hook_def runner_new_def)
  then have fin: "fst ?s = ?r0"
    by (simp add: runner_record_change_def RUNNER_CAPACITY_def runner_forward_def replicator_record_change_def
        register_hook_def runner_new_def replicator_new_def)
  have "snd ?s = fold (\<lambda>c. fold (\<lambda>h. on_change h c) (rr_hooks ?r0)) [?c] []"
    using hooks_see_changes_peers_do_not [of "\<lambda>ch c. (False, ch)" ?r0 "[]" "[RunRecord ?c, RunForward]"] q fin
    by (auto simp: split_beta Let_def)
  then have "snd ?s = [ChangeRecorded ''ns'' ''db'' (Some [1]) OpSet]"
    by (simp add: register_hook_def runner_new_def logging_hook_def noop_hook_def change_set_def)
  then show ?thesis using fin by (simp add: Let_def prod_eq_iff)
qed

text \<open>
  A full queue drops silently: of the changes recorded between two forwarding turns only the
  first thousand are queued, the others are lost to the hooks as well.
\<close>

theorem full_queue_drops:
  assumes "rr_queue r0 = []"
  shows "rr_queue (fold runner_record_change cs r0) = take 1000 cs"
proof -
  have "rr_queue (fold runner_record_change xs r) = rr_queue r @ take (1000 - length (rr_queue r)) xs"
    if "length (rr_queue r) \<le> 1000" for xs and r :: "('a, 'b, 'c, 'd, 'e) replicator_runner"
    using that
  proof (induction xs arbitrary: r)
    case (Cons x xs)
    show ?case
    proof (cases "length (rr_queue r) < 1000")
      case True
      then have "1000 - length (rr_queue r) = Suc (1000 - Suc (length (rr_queue r)))" by simp
      then show ?thesis
        using Cons.IH [of "runner_record_change x r"] True by (simp add: runner_record_change_def RUNNER_CAPACITY_def)
    next
      case False
      then show ?thesis
        using Cons by (simp add: runner_record_change_def RUNNER_CAPACITY_def)
    qed
  qed simp
  then show ?thesis using assms(1) by simp
qed

theorem full_queue_drops_witness:
  "let cs = replicate 1001 (change_delete 1 0 ''ns'' ''db'' [7])
   in length (rr_queue (fold runner_record_change cs
        (runner_new (\<lambda>n. ()) default_config :: (nat, nat, unit, unit, unit) replicator_runner))) = 1000"
  using full_queue_drops [of "runner_new (\<lambda>n. ()) default_config :: (nat, nat, unit, unit, unit) replicator_runner"
      "replicate 1001 (change_delete 1 0 ''ns'' ''db'' [7])"]
  by (simp add: runner_new_def Let_def)

text \<open>A context records nothing either: the change is built and handed to the dead channel.\<close>

lemma record_db_change_lost:
  "try_send (rp_change_tx r) = (\<lambda>c. (False, rp_change_tx r)) \<Longrightarrow>
     record_db_change try_send new_id now ns db k v r = r"
  by (simp add: record_db_change_def replicator_record_change_def Let_def)

end
