(* ===== verification/Float64.thy ===== *)
theory Float64
  imports Prelude "HOL-Library.Log_Nat" "HOL-Library.Option_ord"
begin

section \<open>The \<open>f64\<close> arithmetic the crate uses\<close>

text \<open>
  IEEE 754 binary64 over rationals: a finite number is a \<open>rat\<close>, an operation computes
  exactly and rounds to the nearest representable number, ties to even, and overflows to an
  infinity. The sign of zero is left out: the crate never divides by zero, and comparisons,
  \<open>min\<close>, \<open>max\<close> and \<open>as u64\<close> do not see it.
\<close>

subsection \<open>Rounding\<close>

text \<open>The binary exponent of a positive rational: \<open>2 powi bexp x \<le> x < 2 powi (bexp x + 1)\<close>.\<close>

definition bexp :: "rat \<Rightarrow> int" where
  "bexp x = (let (p, q) = quotient_of x; d = bitlen p - bitlen q
             in if 2 powi d \<le> x then d else d - 1)"

text \<open>The exponent of the last place of a number.\<close>

definition fexp :: "rat \<Rightarrow> int" where
  "fexp x = max (bexp \<bar>x\<bar> - 52) (- 1074)"

text \<open>Rounding to the nearest integer, ties to even.\<close>

definition rne :: "rat \<Rightarrow> int" where
  "rne m = (let f = \<lfloor>m\<rfloor>; r = m - of_int f
            in if r < 1 / 2 then f else if 1 / 2 < r then f + 1 else if even f then f else f + 1)"

definition rnd :: "rat \<Rightarrow> rat" where
  "rnd x = (if x = 0 then 0 else of_int (rne (x / 2 powi fexp x)) * 2 powi fexp x)"

lemma bexp_bounds:
  assumes "0 < x" shows "2 powi bexp x \<le> x" "x < 2 powi (bexp x + 1)"
proof -
  obtain p q where pq: "quotient_of x = (p, q)" by force
  have q: "0 < q" using quotient_of_denom_pos [OF pq] .
  have x: "x = of_int p / of_int q" using quotient_of_div [OF pq] .
  with assms q have p: "0 < p" by (simp add: zero_less_divide_iff)
  have pow: "(of_int (2 ^ nat k) :: rat) = 2 powi k" if "0 \<le> k" for k
    using that by (simp add: power_int_def)
  have len: "1 \<le> bitlen p" "1 \<le> bitlen q"
    using p q by (simp_all add: bitlen_alt_def)
  have P: "2 powi (bitlen p - 1) \<le> (of_int p :: rat)" "(of_int p :: rat) < 2 powi bitlen p"
    using bitlen_bounds [OF p] len pow [of "bitlen p - 1"] pow [of "bitlen p"]
    by (metis of_int_le_iff of_int_less_iff diff_ge_0_iff_ge, metis of_int_less_iff order.trans zero_le_one)
  have Q: "2 powi (bitlen q - 1) \<le> (of_int q :: rat)" "(of_int q :: rat) < 2 powi bitlen q"
    using bitlen_bounds [OF q] len pow [of "bitlen q - 1"] pow [of "bitlen q"]
    by (metis of_int_le_iff of_int_less_iff diff_ge_0_iff_ge, metis of_int_less_iff order.trans zero_le_one)
  let ?d = "bitlen p - bitlen q"
  have qpos: "(0 :: rat) < of_int q" using q by simp
  have "2 powi (?d - 1) * (of_int q :: rat) \<le> 2 powi (?d - 1) * 2 powi bitlen q"
    using Q(2) by (intro mult_left_mono) simp_all
  also have "\<dots> = 2 powi (bitlen p - 1)"
    by (simp flip: power_int_add)
  also have "\<dots> \<le> of_int p" by (rule P)
  finally have lo: "2 powi (?d - 1) \<le> x" using qpos x by (simp add: pos_le_divide_eq)
  have "of_int p < (2 :: rat) powi bitlen p" by (rule P)
  also have "\<dots> = 2 powi (?d + 1) * 2 powi (bitlen q - 1)"
    by (simp flip: power_int_add)
  also have "\<dots> \<le> 2 powi (?d + 1) * of_int q"
    using Q(1) by (intro mult_left_mono) simp_all
  finally have hi: "x < 2 powi (?d + 1)" using qpos x by (simp add: pos_divide_less_eq)
  show "2 powi bexp x \<le> x" "x < 2 powi (bexp x + 1)"
    using lo hi by (auto simp: bexp_def pq Let_def)
qed

lemma powi_mono: "m \<le> n \<Longrightarrow> (2 :: rat) powi m \<le> 2 powi n"
  by (rule power_int_increasing) simp_all

lemma powi_less_iff: "(2 :: rat) powi m < 2 powi n \<longleftrightarrow> m < n"
  by (metis linorder_not_less one_less_numeral_iff powi_mono power_int_strict_increasing semiring_norm(76))

lemma bexp_mono: "0 < x \<Longrightarrow> x \<le> y \<Longrightarrow> bexp x \<le> bexp y"
  using bexp_bounds [of x] bexp_bounds [of y] powi_less_iff [of "bexp x" "bexp y + 1"] by linarith

lemma rne_of_int [simp]: "rne (of_int k) = k"
  by (simp add: rne_def)

lemma rne_bounds: "\<lfloor>m\<rfloor> \<le> rne m" "rne m \<le> \<lfloor>m\<rfloor> + 1"
  by (simp_all add: rne_def Let_def)

lemma rne_mono: "m \<le> n \<Longrightarrow> rne m \<le> rne n"
proof (cases "\<lfloor>m\<rfloor> = \<lfloor>n\<rfloor>")
  case True
  assume "m \<le> n"
  with True show ?thesis by (auto simp: rne_def Let_def)
next
  case False
  assume "m \<le> n"
  with False have "\<lfloor>m\<rfloor> + 1 \<le> \<lfloor>n\<rfloor>" using floor_mono [of m n] by linarith
  then show ?thesis using rne_bounds(2) [of m] rne_bounds(1) [of n] by linarith
qed

lemma rne_minus: "rne (- m) = - rne m"
proof (cases "m = of_int \<lfloor>m\<rfloor>")
  case True
  then show ?thesis by (metis of_int_minus rne_of_int)
next
  case False
  have "\<lfloor>- m\<rfloor> = - \<lfloor>m\<rfloor> - 1"
  proof (rule floor_unique)
    show "of_int (- \<lfloor>m\<rfloor> - 1) \<le> - m" using floor_correct [of m] by simp
    show "- m < of_int (- \<lfloor>m\<rfloor> - 1) + 1" using le_neq_trans [OF of_int_floor_le False [symmetric]] by simp
  qed
  then show ?thesis by (auto simp: rne_def Let_def)
qed

lemma rnd_minus: "rnd (- x) = - rnd x"
  by (simp add: rnd_def fexp_def rne_minus)

lemma rnd_0 [simp]: "rnd 0 = 0"
  by (simp add: rnd_def)

lemma rnd_nonneg: "0 \<le> x \<Longrightarrow> 0 \<le> rnd x"
  using rne_mono [of 0 "x / 2 powi fexp x"] rne_of_int [of 0] by (simp add: rnd_def)

lemma bexp_le: "0 < x \<Longrightarrow> x < 2 powi n \<Longrightarrow> bexp x < n"
  using bexp_bounds(1) [of x] powi_less_iff [of "bexp x" n] by linarith

lemma rnd_multiple: "x = of_int j * 2 powi fexp x \<Longrightarrow> rnd x = x"
  by (metis nonzero_mult_div_cancel_right power_int_not_zero rnd_def rne_of_int zero_neq_numeral)

lemma rnd_exact_less:
  assumes "\<bar>k\<bar> < 2 ^ 53" "- 1074 \<le> e" shows "rnd (of_int k * 2 powi e) = of_int k * 2 powi e"
proof (cases "k = 0")
  case False
  let ?x = "of_int k * 2 powi e :: rat"
  have "\<bar>?x\<bar> = of_int \<bar>k\<bar> * 2 powi e" by (simp add: abs_mult)
  also have "of_int \<bar>k\<bar> < (2 ^ 53 :: rat)" using assms(1) by (simp flip: of_int_less_iff [where 'a = rat])
  then have "of_int \<bar>k\<bar> * (2 :: rat) powi e < 2 powi 53 * 2 powi e"
    by (simp add: power_int_def)
  also have "\<dots> = 2 powi (53 + e)" by (simp add: power_int_add)
  finally have "bexp \<bar>?x\<bar> < 53 + e" using False by (intro bexp_le) simp_all
  then have le: "fexp ?x \<le> e" using assms(2) by (simp add: fexp_def)
  have "2 powi e = of_int (2 ^ nat (e - fexp ?x)) * (2 :: rat) powi fexp ?x"
    using le by (simp add: power_int_add [symmetric] flip: power_int_of_nat)
  then have "?x = of_int (k * 2 ^ nat (e - fexp ?x)) * 2 powi fexp ?x"
    by (simp only: of_int_mult mult.assoc)
  then show ?thesis by (rule rnd_multiple)
qed simp

lemma rnd_exact:
  assumes "\<bar>k\<bar> \<le> 2 ^ 53" "- 1074 \<le> e" shows "rnd (of_int k * 2 powi e) = of_int k * 2 powi e"
proof (cases "\<bar>k\<bar> < 2 ^ 53")
  case False
  then have "k = 2 ^ 52 * 2 \<or> k = - (2 ^ 52) * 2" using assms(1) by auto
  then obtain j :: int where j: "k = j * 2" "\<bar>j\<bar> < 2 ^ 53" by auto
  then have "of_int k * 2 powi e = of_int j * (2 :: rat) powi (e + 1)" by (simp add: power_int_add)
  then show ?thesis using rnd_exact_less [OF j(2), of "e + 1"] assms(2) by simp
qed (use assms in \<open>simp add: rnd_exact_less\<close>)

lemma rnd_of_int: "\<bar>k\<bar> \<le> 2 ^ 53 \<Longrightarrow> rnd (of_int k) = of_int k"
  using rnd_exact [of k 0] by simp

lemma rne_abs_le: "\<bar>m\<bar> \<le> of_int k \<Longrightarrow> \<bar>rne m\<bar> \<le> k"
  using rne_mono [of m "of_int k"] rne_mono [of "- of_int k" m] rne_minus [of "of_int k"]
  by (simp add: abs_le_iff)

lemma rnd_form: "\<exists>k e. rnd x = of_int k * 2 powi e \<and> \<bar>k\<bar> \<le> 2 ^ 53 \<and> - 1074 \<le> e"
proof (cases "x = 0")
  case True
  then show ?thesis by (intro exI [of _ 0]) simp
next
  case False
  have "\<bar>x\<bar> < 2 powi (bexp \<bar>x\<bar> + 1)" using False bexp_bounds(2) [of "\<bar>x\<bar>"] by simp
  also have "\<dots> \<le> 2 powi (53 + fexp x)" by (rule powi_mono) (simp add: fexp_def)
  finally have "\<bar>x / 2 powi fexp x\<bar> \<le> of_int (2 ^ 53)"
    by (simp add: power_int_add pos_divide_le_eq power_int_def [of _ 53])
  then have "\<bar>rne (x / 2 powi fexp x)\<bar> \<le> 2 ^ 53" by (rule rne_abs_le)
  then show ?thesis
    using False by (intro exI [of _ "rne (x / 2 powi fexp x)"] exI [of _ "fexp x"]) (simp add: rnd_def fexp_def)
qed

lemma rnd_rnd [simp]: "rnd (rnd x) = rnd x"
  using rnd_form [of x] rnd_exact by metis

lemma rnd_mono_pos:
  assumes "0 < x" "x \<le> y" shows "rnd x \<le> rnd y"
proof -
  have b: "bexp x \<le> bexp y" using assms by (rule bexp_mono)
  show ?thesis
  proof (cases "fexp x = fexp y")
    case True
    then show ?thesis
      using assms rne_mono [of "x / 2 powi fexp y" "y / 2 powi fexp y"] by (simp add: rnd_def divide_right_mono)
  next
    case False
    then have e: "fexp x < fexp y" "fexp y = bexp y - 52" using b assms by (auto simp: fexp_def)
    have x: "fexp x \<ge> bexp x - 52" using assms by (simp add: fexp_def)
    let ?n = "nat (bexp y - fexp x)"
    have n: "2 powi bexp y = of_int (2 ^ ?n) * (2 :: rat) powi fexp x"
      using e by (simp add: power_int_add [symmetric] flip: power_int_of_nat)
    have "x < 2 powi (bexp x + 1)" using assms by (intro bexp_bounds)
    also have "\<dots> \<le> 2 powi bexp y" using x e by (intro powi_mono) simp
    finally have "x / 2 powi fexp x \<le> of_int (2 ^ ?n)" unfolding n by (simp add: pos_divide_le_eq)
    then have "rne (x / 2 powi fexp x) \<le> 2 ^ ?n" using rne_mono rne_of_int by metis
    then have "(of_int (rne (x / 2 powi fexp x)) :: rat) \<le> of_int (2 ^ ?n)" by (simp only: of_int_le_iff)
    then have "rnd x \<le> 2 powi bexp y" unfolding n using assms by (simp add: rnd_def)
    moreover
    have m: "2 powi bexp y = of_int (2 ^ 52) * (2 :: rat) powi fexp y"
      using power_int_add [of "2 :: rat" 52 "bexp y - 52"] e by (simp add: power_int_def [of _ 52])
    have "2 powi bexp y \<le> y" using assms by (intro bexp_bounds) simp
    then have "of_int (2 ^ 52) \<le> y / 2 powi fexp y" unfolding m by (simp add: pos_le_divide_eq)
    then have "2 ^ 52 \<le> rne (y / 2 powi fexp y)" using rne_mono rne_of_int by metis
    then have "of_int (2 ^ 52) \<le> (of_int (rne (y / 2 powi fexp y)) :: rat)" by (simp only: of_int_le_iff)
    then have "2 powi bexp y \<le> rnd y" unfolding m using assms by (simp add: rnd_def)
    ultimately show ?thesis by linarith
  qed
qed

lemma rnd_mono: "x \<le> y \<Longrightarrow> rnd x \<le> rnd y"
proof -
  assume le: "x \<le> y"
  consider "0 < x" | "x \<le> 0" "0 \<le> y" | "y < 0" using le by linarith
  then show ?thesis
  proof cases
    case 1 then show ?thesis using le by (rule rnd_mono_pos)
  next
    case 2 then show ?thesis using rnd_nonneg [of y] rnd_nonneg [of "- x"] rnd_minus [of x] by simp
  next
    case 3 then show ?thesis using rnd_mono_pos [of "- y" "- x"] le rnd_minus by simp
  qed
qed

subsection \<open>Numbers and operations\<close>

datatype f64 = NaN | Inf bool | Fin rat

text \<open>The first power of two that is too large.\<close>

definition f64_huge :: rat where
  "f64_huge = 2 ^ 1024"

text \<open>\<open>Inf True\<close> is the positive infinity. The result of an operation, rounded:\<close>

definition f64_of :: "rat \<Rightarrow> f64" where
  "f64_of x = (let r = rnd x
               in if f64_huge \<le> r then Inf True else if r \<le> - f64_huge then Inf False else Fin r)"

fun f64_ok :: "f64 \<Rightarrow> bool" where
  "f64_ok (Fin x) \<longleftrightarrow> rnd x = x \<and> \<bar>x\<bar> < f64_huge"
| "f64_ok _ \<longleftrightarrow> True"

fun f64_neg :: "f64 \<Rightarrow> f64" where
  "f64_neg NaN = NaN"
| "f64_neg (Inf s) = Inf (\<not> s)"
| "f64_neg (Fin x) = Fin (- x)"

fun f64_add :: "f64 \<Rightarrow> f64 \<Rightarrow> f64" where
  "f64_add (Fin x) (Fin y) = f64_of (x + y)"
| "f64_add NaN _ = NaN"
| "f64_add _ NaN = NaN"
| "f64_add (Inf s) (Inf t) = (if s = t then Inf s else NaN)"
| "f64_add (Inf s) (Fin y) = Inf s"
| "f64_add (Fin x) (Inf t) = Inf t"

definition f64_sub :: "f64 \<Rightarrow> f64 \<Rightarrow> f64" where
  "f64_sub x y = f64_add x (f64_neg y)"

fun f64_mul :: "f64 \<Rightarrow> f64 \<Rightarrow> f64" where
  "f64_mul (Fin x) (Fin y) = f64_of (x * y)"
| "f64_mul NaN _ = NaN"
| "f64_mul _ NaN = NaN"
| "f64_mul (Inf s) (Inf t) = Inf (s = t)"
| "f64_mul (Inf s) (Fin y) = (if y = 0 then NaN else Inf (s = (0 < y)))"
| "f64_mul (Fin x) (Inf t) = (if x = 0 then NaN else Inf (t = (0 < x)))"

text \<open>A zero divisor counts as the positive zero.\<close>

fun f64_div :: "f64 \<Rightarrow> f64 \<Rightarrow> f64" where
  "f64_div (Fin x) (Fin y) =
     (if y = 0 then (if x = 0 then NaN else Inf (0 < x)) else f64_of (x / y))"
| "f64_div NaN _ = NaN"
| "f64_div _ NaN = NaN"
| "f64_div (Inf s) (Inf t) = NaN"
| "f64_div (Inf s) (Fin y) = Inf (s = (0 \<le> y))"
| "f64_div (Fin x) (Inf t) = Fin 0"

fun f64_less :: "f64 \<Rightarrow> f64 \<Rightarrow> bool" where
  "f64_less (Fin x) (Fin y) \<longleftrightarrow> x < y"
| "f64_less (Inf s) (Inf t) \<longleftrightarrow> \<not> s \<and> t"
| "f64_less (Inf s) (Fin y) \<longleftrightarrow> \<not> s"
| "f64_less (Fin x) (Inf t) \<longleftrightarrow> t"
| "f64_less _ _ \<longleftrightarrow> False"

definition f64_le :: "f64 \<Rightarrow> f64 \<Rightarrow> bool" where
  "f64_le x y \<longleftrightarrow> x \<noteq> NaN \<and> y \<noteq> NaN \<and> \<not> f64_less y x"

text \<open>A NaN argument is ignored.\<close>

definition f64_min :: "f64 \<Rightarrow> f64 \<Rightarrow> f64" where
  "f64_min x y = (if x = NaN then y else if y = NaN then x else if f64_less y x then y else x)"

definition f64_max :: "f64 \<Rightarrow> f64 \<Rightarrow> f64" where
  "f64_max x y = (if x = NaN then y else if y = NaN then x else if f64_less x y then y else x)"

definition f64_of_nat :: "nat \<Rightarrow> f64" where
  "f64_of_nat n = f64_of (of_nat n)"

text \<open>\<open>as u64\<close>: towards zero, saturating.\<close>

fun f64_to_u64 :: "f64 \<Rightarrow> u64" where
  "f64_to_u64 NaN = 0"
| "f64_to_u64 (Inf s) = (if s then - 1 else 0)"
| "f64_to_u64 (Fin x) = (if x \<le> 0 then 0 else if 2 ^ 64 \<le> x then - 1 else of_int \<lfloor>x\<rfloor>)"

definition f64_clamp :: "f64 \<Rightarrow> f64 \<Rightarrow> f64 \<Rightarrow> f64" where
  "f64_clamp lo hi x = (if f64_less x lo then lo else if f64_less hi x then hi else x)"

subsection \<open>Lemmas\<close>

lemma f64_huge_gt: "n < 1024 \<Longrightarrow> 2 ^ n < f64_huge"
  unfolding f64_huge_def by (rule power_strict_increasing) simp_all

lemma f64_huge_pos [simp]: "0 < f64_huge"
  by (simp add: f64_huge_def)

lemma f64_of_ok [simp]: "f64_ok (f64_of x)"
  by (auto simp: f64_of_def Let_def abs_less_iff not_le)

lemma f64_of_0 [simp]: "f64_of 0 = Fin 0"
  by (simp add: f64_of_def not_le)

lemma f64_of_not_NaN [simp]: "f64_of x \<noteq> NaN"
  by (simp add: f64_of_def Let_def)

lemma f64_of_ok_eq: "f64_ok (Fin x) \<Longrightarrow> f64_of x = Fin x"
  by (auto simp: f64_of_def Let_def)

lemma f64_ok_neg [simp]: "f64_ok (f64_neg x) = f64_ok x"
  by (cases x) (simp_all add: rnd_minus)

lemma f64_ok_add [simp]: "f64_ok (f64_add x y)"
  by (cases "(x, y)" rule: f64_add.cases) simp_all

lemma f64_ok_sub [simp]: "f64_ok (f64_sub x y)"
  by (simp add: f64_sub_def)

lemma f64_ok_min [simp]: "f64_ok x \<Longrightarrow> f64_ok y \<Longrightarrow> f64_ok (f64_min x y)"
  by (simp add: f64_min_def)

lemma f64_ok_max [simp]: "f64_ok x \<Longrightarrow> f64_ok y \<Longrightarrow> f64_ok (f64_max x y)"
  by (simp add: f64_max_def)

lemma f64_le_refl [simp]: "f64_le x x \<longleftrightarrow> x \<noteq> NaN"
  by (cases x) (auto simp: f64_le_def)

lemma f64_le_trans: "f64_le x y \<Longrightarrow> f64_le y z \<Longrightarrow> f64_le x z"
  by (cases x; cases y; cases z) (auto simp: f64_le_def)

lemma f64_le_total: "x \<noteq> NaN \<Longrightarrow> y \<noteq> NaN \<Longrightarrow> f64_le x y \<or> f64_le y x"
  by (cases x; cases y) (auto simp: f64_le_def)

lemma f64_less_iff: "f64_less x y \<longleftrightarrow> f64_le x y \<and> \<not> f64_le y x"
  by (cases x; cases y) (auto simp: f64_le_def)

text \<open>
  The numbers in order, with NaN below: a linear order for the library's sorting functions.
\<close>

instantiation f64 :: linorder
begin

definition less_eq_f64 :: "f64 \<Rightarrow> f64 \<Rightarrow> bool" where
  "less_eq_f64 x y \<longleftrightarrow> x = NaN \<or> f64_le x y"

definition less_f64 :: "f64 \<Rightarrow> f64 \<Rightarrow> bool" where
  "less_f64 x y \<longleftrightarrow> x = NaN \<and> y \<noteq> NaN \<or> f64_less x y"

instance
proof
  fix x y z :: f64
  show "x < y \<longleftrightarrow> x \<le> y \<and> \<not> y \<le> x"
    by (cases x; cases y) (auto simp: less_eq_f64_def less_f64_def f64_le_def)
  show "x \<le> x" by (simp add: less_eq_f64_def)
  show "x \<le> y \<Longrightarrow> y \<le> z \<Longrightarrow> x \<le> z"
    by (auto simp: less_eq_f64_def f64_le_def [of _ NaN] intro: f64_le_trans)
  show "x \<le> y \<Longrightarrow> y \<le> x \<Longrightarrow> x = y"
    by (cases x; cases y) (auto simp: less_eq_f64_def f64_le_def)
  show "x \<le> y \<or> y \<le> x"
    using f64_le_total [of x y] by (auto simp: less_eq_f64_def)
qed

end

lemma f64_le_iff: "f64_le x y \<longleftrightarrow> x \<le> y \<and> x \<noteq> NaN"
  by (auto simp: less_eq_f64_def f64_le_def)

lemma f64_min_le: "y \<noteq> NaN \<Longrightarrow> f64_le (f64_min x y) y"
  using f64_le_total [of x y] by (auto simp: f64_min_def f64_less_iff)

lemma f64_max_ge: "y \<noteq> NaN \<Longrightarrow> f64_le y (f64_max x y)"
  using f64_le_total [of x y] by (auto simp: f64_max_def f64_less_iff)

lemma f64_min_ge: "f64_le z x \<Longrightarrow> f64_le z y \<Longrightarrow> f64_le z (f64_min x y)"
  by (simp add: f64_min_def)

lemma f64_max_least: "f64_le x z \<or> x = NaN \<Longrightarrow> f64_le y z \<Longrightarrow> f64_le (f64_max x y) z"
  by (auto simp: f64_max_def f64_le_def)

lemma f64_of_mono: "x \<le> y \<Longrightarrow> f64_le (f64_of x) (f64_of y)"
  using rnd_mono [of x y] by (auto simp: f64_of_def Let_def f64_le_def)

text \<open>Adding something non-negative never lowers a number, subtracting it never raises it.\<close>

lemma f64_add_ge:
  assumes "f64_ok x" "f64_le (Fin 0) y" "x \<noteq> NaN"
  shows "f64_le x (f64_add x y) \<or> f64_add x y = NaN"
proof (cases "(x, y)" rule: f64_add.cases)
  case (1 a b)
  then show ?thesis
    using assms f64_of_mono [of a "a + b"] f64_of_ok_eq [of a] by (simp add: f64_le_def)
qed (use assms in \<open>auto simp: f64_le_def\<close>)

lemma f64_sub_le:
  assumes "f64_ok x" "f64_le (Fin 0) y" "x \<noteq> NaN"
  shows "f64_le (f64_sub x y) x \<or> f64_sub x y = NaN"
proof (cases "(x, y)" rule: f64_add.cases)
  case (1 a b)
  then show ?thesis
    using assms f64_of_mono [of "a - b" a] f64_of_ok_eq [of a] by (simp add: f64_le_def f64_sub_def)
qed (use assms in \<open>auto simp: f64_le_def f64_sub_def\<close>)

lemma f64_of_nat_nonneg: "f64_le (Fin 0) (f64_of_nat n)"
  using f64_of_mono [of 0 "of_nat n"] by (simp add: f64_of_nat_def)

lemma rnd_of_nat: "n \<le> 2 ^ 53 \<Longrightarrow> rnd (of_nat n) = of_nat n"
proof -
  assume "n \<le> 2 ^ 53"
  then have "\<bar>int n\<bar> \<le> 2 ^ 53" by simp
  from rnd_of_int [OF this] show ?thesis by simp
qed

lemma f64_of_nat_exact: "n \<le> 2 ^ 53 \<Longrightarrow> f64_of_nat n = Fin (of_nat n)"
proof -
  assume n: "n \<le> 2 ^ 53"
  then have "(of_nat n :: rat) \<le> 2 ^ 53" by (metis of_nat_le_iff of_nat_numeral of_nat_power)
  also have "\<dots> < f64_huge" by (rule f64_huge_gt) simp
  finally have "f64_ok (Fin (of_nat n))" using rnd_of_nat [OF n] by simp
  then show ?thesis by (simp add: f64_of_nat_def f64_of_ok_eq)
qed

lemma f64_to_u64_mono: "f64_le x y \<Longrightarrow> f64_to_u64 x \<le> f64_to_u64 y"
proof (cases x; cases y)
  fix a b assume le: "f64_le x y" and xy: "x = Fin a" "y = Fin b"
  then have ab: "a \<le> b" by (simp add: f64_le_def)
  show ?thesis
  proof (cases "0 < a \<and> b < 2 ^ 64")
    case True
    have ub: "0 \<le> \<lfloor>a\<rfloor>" "\<lfloor>a\<rfloor> \<le> \<lfloor>b\<rfloor>" "\<lfloor>b\<rfloor> < 2 ^ 64"
      using True ab by (simp_all add: floor_mono floor_less_iff)
    then have "take_bit 64 \<lfloor>a\<rfloor> = \<lfloor>a\<rfloor>" "take_bit 64 \<lfloor>b\<rfloor> = \<lfloor>b\<rfloor>"
      by (intro take_bit_int_eq_self; linarith)+
    then have "uint (of_int \<lfloor>a\<rfloor> :: u64) = \<lfloor>a\<rfloor>" "uint (of_int \<lfloor>b\<rfloor> :: u64) = \<lfloor>b\<rfloor>"
      by (simp_all add: uint_word_of_int_eq)
    then show ?thesis using ub True ab xy by (simp add: word_le_def)
  next
    case False
    then show ?thesis using ab xy by auto
  qed
qed (auto simp: f64_le_def)

lemma f64_to_u64_nat: "n < 2 ^ 64 \<Longrightarrow> f64_to_u64 (Fin (of_nat n)) = of_nat n"
proof -
  assume "n < 2 ^ 64"
  then have "(of_nat n :: rat) < 2 ^ 64" by (metis of_nat_less_iff of_nat_numeral of_nat_power)
  then show ?thesis by simp
qed

text \<open>Products and quotients of non-negative numbers.\<close>

lemma f64_of_nonneg: "0 \<le> x \<Longrightarrow> f64_le (Fin 0) (f64_of x)"
  using f64_of_mono [of 0 x] by simp

lemma f64_mul_nonneg: "f64_le (Fin 0) x \<Longrightarrow> f64_le (Fin 0) y \<Longrightarrow> f64_le (Fin 0) (f64_mul x y) \<or> f64_mul x y = NaN"
  by (cases "(x, y)" rule: f64_mul.cases) (auto simp: f64_le_def not_less f64_of_nonneg [unfolded f64_le_def, simplified])

lemma f64_div_nonneg: "f64_le (Fin 0) x \<Longrightarrow> f64_le (Fin 0) y \<Longrightarrow> f64_le (Fin 0) (f64_div x y) \<or> f64_div x y = NaN"
  by (cases "(x, y)" rule: f64_div.cases) (auto simp: f64_le_def not_less f64_of_nonneg [unfolded f64_le_def, simplified])

lemma f64_ok_mul [simp]: "f64_ok (f64_mul x y)"
  by (cases "(x, y)" rule: f64_mul.cases) simp_all

lemma f64_ok_div [simp]: "f64_ok (f64_div x y)"
  by (cases "(x, y)" rule: f64_div.cases) simp_all

lemma f64_of_int_exact: "\<bar>k\<bar> \<le> 2 ^ 53 \<Longrightarrow> f64_of (of_int k) = Fin (of_int k)"
proof -
  assume k: "\<bar>k\<bar> \<le> 2 ^ 53"
  then have "(of_int \<bar>k\<bar> :: rat) \<le> of_int (2 ^ 53)" by (simp only: of_int_le_iff)
  then have "\<bar>of_int k :: rat\<bar> \<le> 2 ^ 53" by simp
  also have "\<dots> < f64_huge" by (rule f64_huge_gt) simp
  finally show ?thesis using rnd_of_int [OF k] by (intro f64_of_ok_eq) simp
qed

text \<open>The quotient of a number by one at least as large lies between zero and one.\<close>

lemma f64_ratio_bounds:
  assumes "a \<le> b" "0 < b" "b \<le> 2 ^ 64"
  shows "f64_le (Fin 0) (f64_div (f64_of_nat a) (f64_of_nat b)) \<and> f64_le (f64_div (f64_of_nat a) (f64_of_nat b)) (Fin 1)"
proof -
  have fin: "\<exists>x. f64_of_nat n = Fin x \<and> x = rnd (of_nat n)" if "n \<le> 2 ^ 64" for n
  proof -
    have "(of_nat n :: rat) \<le> of_int 1 * 2 powi 64"
      using that of_nat_le_iff [of n "2 ^ 64", where 'a = rat] by (simp add: power_int_def)
    then have "rnd (of_nat n) \<le> rnd (of_int 1 * 2 powi 64)" by (rule rnd_mono)
    also have "\<dots> = 2 powi 64" by (subst rnd_exact) simp_all
    also have "\<dots> < f64_huge" using f64_huge_gt [of 64] by (simp add: power_int_def)
    finally have "rnd (of_nat n) < f64_huge" .
    moreover have "0 \<le> rnd (of_nat n)" by (rule rnd_nonneg) simp
    moreover have "- f64_huge < 0" by simp
    ultimately have "\<not> f64_huge \<le> rnd (of_nat n)" "\<not> rnd (of_nat n) \<le> - f64_huge" by linarith+
    then show ?thesis by (simp add: f64_of_nat_def f64_of_def Let_def)
  qed
  have le: "0 \<le> rnd (of_nat a)" "rnd (of_nat a) \<le> rnd (of_nat b)"
    using assms(1) by (simp_all add: rnd_nonneg rnd_mono)
  have "rnd (of_nat 1) \<le> rnd (of_nat b)" using assms(2) by (intro rnd_mono) simp
  then have pos: "0 < rnd (of_nat b)" using rnd_of_nat [of 1] by simp
  have "rnd (of_nat a) / rnd (of_nat b) \<le> of_int 1" using le pos by simp
  from f64_of_mono [OF this] f64_of_int_exact [of 1]
  have "f64_le (f64_of (rnd (of_nat a) / rnd (of_nat b))) (Fin 1)" by simp
  moreover have "f64_le (Fin 0) (f64_of (rnd (of_nat a) / rnd (of_nat b)))"
    using le pos by (intro f64_of_nonneg) simp
  ultimately show ?thesis
    using fin [of a] fin [of b] assms pos by auto
qed

end
