(* ===== verification/Retry.thy ===== *)
theory Retry
  imports Float64 Common Error_Types
begin

section \<open>Retry and backoff (\<open>src/retry.rs\<close>)\<close>

text \<open>
  The policy, the loop that executes an operation with retries, and the retry budget. The
  operation is the sequence of its outcomes, call by call; the loop answers, beside its result,
  the delays it slept, and may not return at all (\<open>None\<close>). The precision of
  \<open>f64::powi\<close> is unspecified, so it is an argument.
\<close>

record retry_config =
  rc_initial_delay :: duration
  rc_max_delay :: duration
  rc_max_retries :: nat
  rc_backoff_multiplier :: f64
  rc_jitter :: f64

definition retry_config_default :: retry_config where
  "retry_config_default =
     \<lparr>rc_initial_delay = 100 * 10 ^ 6, rc_max_delay = 30 * 10 ^ 9, rc_max_retries = 5,
      rc_backoff_multiplier = Fin 2, rc_jitter = f64_of (1 / 10)\<rparr>"

definition with_initial_delay :: "duration \<Rightarrow> retry_config \<Rightarrow> retry_config" where
  "with_initial_delay d c = c\<lparr>rc_initial_delay := d\<rparr>"

definition with_max_delay :: "duration \<Rightarrow> retry_config \<Rightarrow> retry_config" where
  "with_max_delay d c = c\<lparr>rc_max_delay := d\<rparr>"

definition with_max_retries :: "nat \<Rightarrow> retry_config \<Rightarrow> retry_config" where
  "with_max_retries n c = c\<lparr>rc_max_retries := n\<rparr>"

definition with_backoff_multiplier :: "f64 \<Rightarrow> retry_config \<Rightarrow> retry_config" where
  "with_backoff_multiplier x c = c\<lparr>rc_backoff_multiplier := x\<rparr>"

definition with_jitter :: "f64 \<Rightarrow> retry_config \<Rightarrow> retry_config" where
  "with_jitter x c = c\<lparr>rc_jitter := f64_clamp (Fin 0) (Fin 1) x\<rparr>"

subsection \<open>The policy\<close>

record retry_policy =
  ry_config :: retry_config
  ry_attempts :: nat

definition retry_policy_new :: "retry_config \<Rightarrow> retry_policy" where
  "retry_policy_new c = \<lparr>ry_config = c, ry_attempts = 0\<rparr>"

definition should_retry :: "retry_policy \<Rightarrow> bool" where
  "should_retry p \<longleftrightarrow>
     (if rc_max_retries (ry_config p) = 0 then True
      else ry_attempts p < rc_max_retries (ry_config p))"

text \<open>The exponent is the number of attempts cut to an \<open>i32\<close>.\<close>

definition next_delay :: "(f64 \<Rightarrow> int \<Rightarrow> f64) \<Rightarrow> retry_policy \<Rightarrow> duration option" where
  "next_delay powi_fn p =
     (if \<not> should_retry p then None
      else let base_delay = f64_of_nat (rc_initial_delay (ry_config p) div 10 ^ 6);
               multiplier = rc_backoff_multiplier (ry_config p);
               delay_ms = f64_mul base_delay (powi_fn multiplier (sint (of_nat (ry_attempts p) :: u32)));
               max_ms = f64_of_nat (rc_max_delay (ry_config p) div 10 ^ 6)
           in Some (unat (f64_to_u64 (f64_min delay_ms max_ms)) * 10 ^ 6))"

definition record_attempt :: "retry_policy \<Rightarrow> retry_policy" where
  "record_attempt p = p\<lparr>ry_attempts := ry_attempts p + 1\<rparr>"

definition record_success :: "retry_policy \<Rightarrow> retry_policy" where
  "record_success p = p\<lparr>ry_attempts := 0\<rparr>"

definition retry_reset :: "retry_policy \<Rightarrow> retry_policy" where
  "retry_reset p = p\<lparr>ry_attempts := 0\<rparr>"

subsection \<open>The loop\<close>

datatype 'e retry_error = MaxRetriesExceeded nat 'e | Cancelled

fun retry_error_display :: "'e retry_error \<Rightarrow> string" where
  "retry_error_display (MaxRetriesExceeded attempts e) = ''max retries ('' @ show_nat attempts @ '') exceeded''"
| "retry_error_display Cancelled = ''operation cancelled''"

partial_function (option) execute_loop ::
  "(f64 \<Rightarrow> int \<Rightarrow> f64) \<Rightarrow> (nat \<Rightarrow> 'e + 'a) \<Rightarrow> nat \<Rightarrow> retry_policy \<Rightarrow> duration list
     \<Rightarrow> (('e retry_error, 'a) outcome \<times> retry_policy \<times> duration list) option" where
  "execute_loop powi_fn operation k p slept =
     (case operation k of
        Inr v \<Rightarrow> Some (Ok v, record_success p, slept)
      | Inl e \<Rightarrow>
          if \<not> should_retry p then Some (Err (MaxRetriesExceeded (ry_attempts p) e), p, slept)
          else execute_loop powi_fn operation (k + 1) (record_attempt p)
                 (slept @ (case next_delay powi_fn p of None \<Rightarrow> [] | Some d \<Rightarrow> [d])))"

definition execute ::
  "(f64 \<Rightarrow> int \<Rightarrow> f64) \<Rightarrow> (nat \<Rightarrow> 'e + 'a) \<Rightarrow> retry_policy
     \<Rightarrow> (('e retry_error, 'a) outcome \<times> retry_policy \<times> duration list) option" where
  "execute powi_fn operation p = execute_loop powi_fn operation 0 p []"

subsection \<open>The budget\<close>

record retry_budget =
  rb_max_retries :: nat
  rb_window :: duration
  rb_attempts :: nat

definition retry_budget_new :: "nat \<Rightarrow> duration \<Rightarrow> retry_budget" where
  "retry_budget_new n window = \<lparr>rb_max_retries = n, rb_window = window, rb_attempts = 0\<rparr>"

definition can_retry :: "retry_budget \<Rightarrow> bool" where
  "can_retry b \<longleftrightarrow> rb_attempts b < rb_max_retries b"

definition budget_record_attempt :: "retry_budget \<Rightarrow> retry_budget" where
  "budget_record_attempt b = b\<lparr>rb_attempts := rb_attempts b + 1\<rparr>"

definition remaining :: "retry_budget \<Rightarrow> nat" where
  "remaining b = rb_max_retries b - rb_attempts b"

definition budget_reset :: "retry_budget \<Rightarrow> retry_budget" where
  "budget_reset b = b\<lparr>rb_attempts := 0\<rparr>"

subsection \<open>Lemmas\<close>

lemma next_delay_Some: "should_retry p \<Longrightarrow> \<exists>d. next_delay powi_fn p = Some d"
  by (simp add: next_delay_def Let_def)

text \<open>The delays of the next \<open>n\<close> attempts.\<close>

definition delays :: "(f64 \<Rightarrow> int \<Rightarrow> f64) \<Rightarrow> retry_policy \<Rightarrow> nat \<Rightarrow> duration list" where
  "delays powi_fn p n = map (\<lambda>i. the (next_delay powi_fn (p\<lparr>ry_attempts := ry_attempts p + i\<rparr>))) [0..<n]"

lemma length_delays [simp]: "length (delays powi_fn p n) = n"
  by (simp add: delays_def)

lemma delays_0 [simp]: "delays powi_fn p 0 = []"
  by (simp add: delays_def)

lemma delays_Suc: "delays powi_fn p (Suc n) = the (next_delay powi_fn p) # delays powi_fn (record_attempt p) n"
proof -
  have "p\<lparr>ry_attempts := ry_attempts p\<rparr> = p" by (cases p) simp
  then show ?thesis
    by (simp add: delays_def record_attempt_def upt_conv_Cons map_Suc_upt [symmetric] del: upt_Suc)
qed

text \<open>What the loop does with a bounded number of retries.\<close>

definition retry_outcome ::
  "(f64 \<Rightarrow> int \<Rightarrow> f64) \<Rightarrow> (nat \<Rightarrow> 'e + 'a) \<Rightarrow> nat \<Rightarrow> retry_policy \<Rightarrow> duration list
     \<Rightarrow> ('e retry_error, 'a) outcome \<times> retry_policy \<times> duration list \<Rightarrow> bool" where
  "retry_outcome powi_fn operation k p slept r \<longleftrightarrow>
     (\<exists>n \<le> rc_max_retries (ry_config p) - ry_attempts p.
        (\<forall>i < n. isl (operation (k + i)))
        \<and> (case operation (k + n) of
             Inr v \<Rightarrow> r = (Ok v, p\<lparr>ry_attempts := 0\<rparr>, slept @ delays powi_fn p n)
           | Inl e \<Rightarrow> n = rc_max_retries (ry_config p) - ry_attempts p
               \<and> r = (Err (MaxRetriesExceeded (ry_attempts p + n) e),
                      p\<lparr>ry_attempts := ry_attempts p + n\<rparr>, slept @ delays powi_fn p n)))"

lemma execute_loop_outcome:
  assumes "0 < rc_max_retries (ry_config p)"
  shows "\<exists>r. execute_loop powi_fn operation k p slept = Some r \<and> retry_outcome powi_fn operation k p slept r"
  using assms
proof (induction "rc_max_retries (ry_config p) - ry_attempts p" arbitrary: k p slept)
  case 0
  then have "\<not> should_retry p" by (simp add: should_retry_def)
  moreover have "p\<lparr>ry_attempts := ry_attempts p\<rparr> = p" by (cases p) simp
  ultimately show ?case
    using 0 by (subst execute_loop.simps) (auto simp: retry_outcome_def record_success_def split: sum.split)
next
  case (Suc budget)
  then have retry: "should_retry p" by (simp add: should_retry_def)
  then obtain d where d: "next_delay powi_fn p = Some d" using next_delay_Some by blast
  show ?case
  proof (cases "operation k")
    case (Inr v)
    then show ?thesis
      by (subst execute_loop.simps) (auto simp: retry_outcome_def record_success_def intro!: exI [of _ 0])
  next
    case (Inl e)
    have budget: "rc_max_retries (ry_config (record_attempt p)) - ry_attempts (record_attempt p) = budget"
      "0 < rc_max_retries (ry_config (record_attempt p))"
      using Suc.hyps(2) Suc.prems by (simp_all add: record_attempt_def)
    then obtain r n where r: "execute_loop powi_fn operation (k + 1) (record_attempt p) (slept @ [d]) = Some r"
      and n: "n \<le> budget" "\<forall>i < n. isl (operation (k + 1 + i))"
      and out: "case operation (k + 1 + n) of
             Inr v \<Rightarrow> r = (Ok v, (record_attempt p)\<lparr>ry_attempts := 0\<rparr>, (slept @ [d]) @ delays powi_fn (record_attempt p) n)
           | Inl e \<Rightarrow> n = budget
               \<and> r = (Err (MaxRetriesExceeded (ry_attempts (record_attempt p) + n) e),
                      (record_attempt p)\<lparr>ry_attempts := ry_attempts (record_attempt p) + n\<rparr>,
                      (slept @ [d]) @ delays powi_fn (record_attempt p) n)"
      using Suc.hyps(1) [OF budget(1) [symmetric] budget(2), of "k + 1" "slept @ [d]"]
      unfolding retry_outcome_def budget(1) by blast
    have fails: "isl (operation (k + i))" if "i < Suc n" for i
      using that n(2) Inl by (cases i) auto
    have "retry_outcome powi_fn operation k p slept r"
      unfolding retry_outcome_def
      using n(1) fails out Suc.hyps(2) d
      by (intro exI [of _ "Suc n"])
         (auto simp: delays_Suc record_attempt_def split: sum.splits)
    then show ?thesis
      using r Inl retry d by (subst execute_loop.simps) simp
  qed
qed

text \<open>Without a bound, an operation that always fails is retried forever.\<close>

lemma execute_loop_diverges:
  assumes "rc_max_retries (ry_config p) = 0" "\<And>i. isl (operation i)"
  shows "execute_loop powi_fn operation k p slept = None"
proof (rule ccontr)
  assume "execute_loop powi_fn operation k p slept \<noteq> None"
  then obtain r where ret: "execute_loop powi_fn operation k p slept = Some r" by blast
  have "(\<forall>i. isl (operation i)) \<and> rc_max_retries (ry_config p) = 0 \<longrightarrow> False"
  proof (rule execute_loop.raw_induct
      [where P = "\<lambda>powi_fn operation k p slept r. (\<forall>i. isl (operation i)) \<and> rc_max_retries (ry_config p) = 0 \<longrightarrow> False",
       OF _ ret])
    fix f :: "(f64 \<Rightarrow> int \<Rightarrow> f64) \<Rightarrow> (nat \<Rightarrow> 'a + 'b) \<Rightarrow> nat \<Rightarrow> retry_policy \<Rightarrow> duration list
       \<Rightarrow> (('a retry_error, 'b) outcome \<times> retry_policy \<times> duration list) option"
    fix powi_fn :: "f64 \<Rightarrow> int \<Rightarrow> f64" and operation :: "nat \<Rightarrow> 'a + 'b" and k p slept r
    assume IH: "\<And>powi_fn operation k p slept r. f powi_fn operation k p slept = Some r \<Longrightarrow>
        (\<forall>i. isl (operation i)) \<and> rc_max_retries (ry_config p) = 0 \<longrightarrow> False"
      and eq: "(case operation k of
          Inl e \<Rightarrow> if \<not> should_retry p then Some (Err (MaxRetriesExceeded (ry_attempts p) e), p, slept)
            else f powi_fn operation (k + 1) (record_attempt p)
                   (slept @ (case next_delay powi_fn p of None \<Rightarrow> [] | Some d \<Rightarrow> [d]))
        | Inr v \<Rightarrow> Some (Ok v, record_success p, slept)) = Some r"
    show "(\<forall>i. isl (operation i)) \<and> rc_max_retries (ry_config p) = 0 \<longrightarrow> False"
    proof
      assume a: "(\<forall>i. isl (operation i)) \<and> rc_max_retries (ry_config p) = 0"
      then obtain e where "operation k = Inl e" by (metis isl_def)
      with eq a have "\<exists>s. f powi_fn operation (k + 1) (record_attempt p) s = Some r"
        by (auto simp: should_retry_def)
      then obtain s where "f powi_fn operation (k + 1) (record_attempt p) s = Some r" by blast
      from IH [OF this] a show False by (simp add: record_attempt_def)
    qed
  qed
  with assms show False by simp
qed

text \<open>Whatever \<open>powi\<close> yields, the delay is at most the maximum, as milliseconds.\<close>

lemma next_delay_le:
  assumes "next_delay powi_fn p = Some d" "rc_max_delay (ry_config p) div 10 ^ 6 \<le> 2 ^ 53"
  shows "d \<le> rc_max_delay (ry_config p) div 10 ^ 6 * 10 ^ 6"
proof -
  let ?ms = "rc_max_delay (ry_config p) div 10 ^ 6"
  have lt: "?ms < 2 ^ 64" using assms(2) by (rule order.strict_trans1) simp
  obtain x where d: "d = unat (f64_to_u64 (f64_min x (f64_of_nat ?ms))) * 10 ^ 6"
    using assms(1) by (auto simp: next_delay_def Let_def split: if_splits)
  have "f64_to_u64 (f64_min x (f64_of_nat ?ms)) \<le> f64_to_u64 (f64_of_nat ?ms)"
    using f64_min_le [of "f64_of_nat ?ms" x] by (intro f64_to_u64_mono) (simp add: f64_of_nat_def)
  also have "f64_to_u64 (f64_of_nat ?ms) = of_nat ?ms"
    using f64_of_nat_exact [OF assms(2)] f64_to_u64_nat [OF lt] by (simp del: f64_to_u64.simps)
  finally have "unat (f64_to_u64 (f64_min x (f64_of_nat ?ms))) \<le> ?ms"
    using unat_of_nat_u64 [OF lt] by (simp add: word_le_nat_alt)
  then show ?thesis using d by simp
qed

text \<open>Multiplying by two never rounds: any sequence of operations \<open>powi\<close> uses gives the power.\<close>

definition powi_doubles :: "(f64 \<Rightarrow> int \<Rightarrow> f64) \<Rightarrow> bool" where
  "powi_doubles powi_fn \<longleftrightarrow> (\<forall>k < 1024. powi_fn (Fin 2) (int k) = Fin (2 ^ k))"

lemma next_delay_doubles:
  assumes "powi_doubles powi_fn" "rc_backoff_multiplier (ry_config p) = Fin 2" "should_retry p"
    and "rc_initial_delay (ry_config p) div 10 ^ 6 \<le> 2 ^ 53" "rc_max_delay (ry_config p) div 10 ^ 6 \<le> 2 ^ 53"
    and "ry_attempts p \<le> 900"
  shows "next_delay powi_fn p = Some (min (rc_initial_delay (ry_config p) div 10 ^ 6 * 2 ^ ry_attempts p)
           (rc_max_delay (ry_config p) div 10 ^ 6) * 10 ^ 6)"
proof -
  let ?ini = "rc_initial_delay (ry_config p) div 10 ^ 6" and ?ms = "rc_max_delay (ry_config p) div 10 ^ 6"
  let ?k = "ry_attempts p"
  have "sint (of_nat ?k :: u32) = int ?k"
    using assms(6) by (simp add: sint_uint uint_nat unat_of_nat take_bit_nat_eq_self signed_take_bit_int_eq_self)
  then have powi: "powi_fn (Fin 2) (sint (of_nat ?k :: u32)) = Fin (2 ^ ?k)"
    using assms(1,6) by (simp add: powi_doubles_def)
  have ini: "(of_nat ?ini :: rat) \<le> 2 ^ 53"
    using assms(4) by (metis of_nat_le_iff of_nat_numeral of_nat_power)
  have "(of_nat ?ini :: rat) * 2 ^ ?k \<le> 2 ^ 53 * 2 ^ ?k" using ini by (rule mult_right_mono) simp
  also have "\<dots> = 2 ^ (53 + ?k)" by (simp only: power_add)
  also have "\<dots> < f64_huge" using assms(6) by (intro f64_huge_gt) simp
  finally have "\<bar>of_nat ?ini * 2 ^ ?k\<bar> < f64_huge" by simp
  moreover have "rnd (of_int (int ?ini) * 2 powi int ?k) = of_int (int ?ini) * 2 powi int ?k"
    using assms(4) by (intro rnd_exact) simp_all
  ultimately have "f64_ok (Fin (of_nat ?ini * 2 ^ ?k))" by simp
  then have mul: "f64_mul (f64_of_nat ?ini) (Fin (2 ^ ?k)) = Fin (of_nat (?ini * 2 ^ ?k))"
    using f64_of_nat_exact [OF assms(4)] f64_of_ok_eq by simp
  have ms: "f64_of_nat ?ms = Fin (of_nat ?ms)" by (rule f64_of_nat_exact [OF assms(5)])
  have "f64_min (Fin (of_nat a)) (Fin (of_nat b)) = Fin (of_nat (min a b))" for a b
    by (auto simp: f64_min_def)
  then have mn: "f64_min (Fin (of_nat (?ini * 2 ^ ?k))) (Fin (of_nat ?ms)) = Fin (of_nat (min (?ini * 2 ^ ?k) ?ms))" .
  have "min (?ini * 2 ^ ?k) ?ms < 2 ^ 64" using assms(5) by (rule le_less_trans [OF min.coboundedI2]) simp
  then have "unat (f64_to_u64 (Fin (of_nat (min (?ini * 2 ^ ?k) ?ms)))) = min (?ini * 2 ^ ?k) ?ms"
    using f64_to_u64_nat unat_of_nat_u64 by metis
  then show ?thesis
    using assms(2,3) unfolding next_delay_def by (simp only: Let_def powi mul ms mn if_False not_not simp_thms)
qed

subsection \<open>Properties\<close>

text \<open>
  C34. Executing with a bounded number of retries always returns: with \<open>max_retries > 0\<close> the
  operation is called until it first succeeds, but at most once more than the retries that
  remain; success resets the attempts and returns its value, otherwise the error of the last
  call is returned with the number of attempts; between two calls the loop sleeps the delay of
  the policy at that attempt.
\<close>

theorem execute_bounded:
  assumes "0 < rc_max_retries (ry_config p)"
  shows "\<exists>n \<le> rc_max_retries (ry_config p) - ry_attempts p.
     (\<forall>i < n. isl (operation i))
     \<and> (case operation n of
          Inr v \<Rightarrow> execute powi_fn operation p = Some (Ok v, p\<lparr>ry_attempts := 0\<rparr>, delays powi_fn p n)
        | Inl e \<Rightarrow> n = rc_max_retries (ry_config p) - ry_attempts p
            \<and> execute powi_fn operation p =
                Some (Err (MaxRetriesExceeded (ry_attempts p + n) e),
                      p\<lparr>ry_attempts := ry_attempts p + n\<rparr>, delays powi_fn p n))"
proof -
  obtain r where r: "execute powi_fn operation p = Some r" "retry_outcome powi_fn operation 0 p [] r"
    using execute_loop_outcome [OF assms, of powi_fn operation 0 "[]"] by (auto simp: execute_def)
  from r(2) show ?thesis
    unfolding retry_outcome_def r(1) by (auto split: sum.splits)
qed

theorem execute_bounded_witness:
  "\<exists>ds. execute (\<lambda>x k. Fin (2 ^ nat k)) (\<lambda>i. if i < 2 then Inl ''busy'' else Inr (7 :: nat))
     (retry_policy_new retry_config_default) = Some (Ok 7, retry_policy_new retry_config_default, ds) \<and> length ds = 2"
proof -
  let ?p = "retry_policy_new retry_config_default"
  let ?op = "\<lambda>i. if i < 2 then Inl ''busy'' else Inr (7 :: nat)"
  have max: "rc_max_retries (ry_config ?p) = 5" "ry_attempts ?p = 0" "?p\<lparr>ry_attempts := 0\<rparr> = ?p"
    by (simp_all add: retry_policy_new_def retry_config_default_def)
  let ?out = "\<lambda>n. case ?op n of
          Inr v \<Rightarrow> execute (\<lambda>x k. Fin (2 ^ nat k)) ?op ?p = Some (Ok v, ?p\<lparr>ry_attempts := 0\<rparr>, delays (\<lambda>x k. Fin (2 ^ nat k)) ?p n)
        | Inl e \<Rightarrow> n = rc_max_retries (ry_config ?p) - ry_attempts ?p \<and> execute (\<lambda>x k. Fin (2 ^ nat k)) ?op ?p =
                Some (Err (MaxRetriesExceeded (ry_attempts ?p + n) e),
                      ?p\<lparr>ry_attempts := ry_attempts ?p + n\<rparr>, delays (\<lambda>x k. Fin (2 ^ nat k)) ?p n)"
  have "0 < rc_max_retries (ry_config ?p)" using max by simp
  from execute_bounded [OF this, of ?op "\<lambda>x k. Fin (2 ^ nat k)"]
  obtain n where n: "\<forall>i < n. isl (?op i)" "?out n" by (elim exE conjE) (rule that)
  have "n = 2"
  proof (rule ccontr)
    assume "n \<noteq> 2"
    then have "n < 2 \<or> 2 < n" by linarith
    then show False using n max by auto
  qed
  with n(2) max(3) show ?thesis by simp
qed

text \<open>
  With \<open>max_retries = 0\<close> there is no bound: an operation that always fails is retried
  forever, the loop never returns.
\<close>

theorem execute_unbounded:
  assumes "rc_max_retries (ry_config p) = 0" "\<And>i. isl (operation i)"
  shows "execute powi_fn operation p = None"
  by (simp add: execute_def execute_loop_diverges [OF assms])

theorem execute_unbounded_witness:
  "execute (\<lambda>x k. x) (\<lambda>i. Inl ''down'' :: string + nat)
     (retry_policy_new (with_max_retries 0 retry_config_default)) = None"
  by (rule execute_unbounded) (simp_all add: retry_policy_new_def with_max_retries_def)

text \<open>
  C35. The backoff is bounded and doubles. For a policy whose \<open>max_delay\<close> is at most
  \<open>2 ^ 53\<close> milliseconds (so that it is exact as a double): a delay is given exactly
  while a retry is allowed and never exceeds \<open>max_delay\<close>, whatever the multiplier and
  the precision of \<open>powi\<close>, also for infinite and NaN intermediate results. If
  moreover the multiplier is 2 (the default), \<open>powi\<close> is exact on powers of two,
  \<open>initial_delay\<close> is at most \<open>2 ^ 53\<close> milliseconds too and at most 900
  attempts were made, the delay after \<open>n\<close> attempts, where a retry is allowed, is
  \<open>initial_delay\<close> times \<open>2 ^ n\<close>, in whole milliseconds, cut at
  \<open>max_delay\<close>.
\<close>

theorem backoff_bounded_doubling:
  assumes "rc_max_delay (ry_config p) div 10 ^ 6 \<le> 2 ^ 53"
  shows "(next_delay powi_fn p \<noteq> None \<longleftrightarrow> should_retry p)
    \<and> (\<forall>d. next_delay powi_fn p = Some d \<longrightarrow> d \<le> rc_max_delay (ry_config p))
    \<and> (powi_doubles powi_fn \<and> rc_backoff_multiplier (ry_config p) = Fin 2 \<and> should_retry p
        \<and> rc_initial_delay (ry_config p) div 10 ^ 6 \<le> 2 ^ 53 \<and> ry_attempts p \<le> 900 \<longrightarrow>
       next_delay powi_fn p = Some (min (rc_initial_delay (ry_config p) div 10 ^ 6 * 2 ^ ry_attempts p)
           (rc_max_delay (ry_config p) div 10 ^ 6) * 10 ^ 6))"
proof (intro conjI allI impI)
  show "next_delay powi_fn p \<noteq> None \<longleftrightarrow> should_retry p" by (simp add: next_delay_def Let_def)
next
  fix d assume "next_delay powi_fn p = Some d"
  from next_delay_le [OF this assms] show "d \<le> rc_max_delay (ry_config p)"
    by (rule order.trans) (rule div_times_less_eq_dividend)
qed (use next_delay_doubles assms in blast)

theorem backoff_bounded_doubling_witness:
  "next_delay (\<lambda>x k. Fin (2 ^ nat k)) ((retry_policy_new retry_config_default)\<lparr>ry_attempts := 3\<rparr>)
     = Some (800 * 10 ^ 6)"
proof -
  let ?p = "(retry_policy_new retry_config_default)\<lparr>ry_attempts := 3\<rparr>"
  have "powi_doubles (\<lambda>x k. Fin (2 ^ nat k))" by (simp add: powi_doubles_def)
  then show ?thesis
    using backoff_bounded_doubling [of ?p "\<lambda>x k. Fin (2 ^ nat k)"]
    by (simp add: retry_policy_new_def retry_config_default_def should_retry_def)
qed

text \<open>The budget: recording attempts uses it up; the window is never looked at.\<close>

lemma budget_remaining:
  "can_retry b \<longleftrightarrow> 0 < remaining b"
  "remaining ((budget_record_attempt ^^ n) (retry_budget_new m window)) = m - n"
proof -
  have "rb_attempts ((budget_record_attempt ^^ n) b) = rb_attempts b + n
      \<and> rb_max_retries ((budget_record_attempt ^^ n) b) = rb_max_retries b" for b :: retry_budget
    by (induction n) (simp_all add: budget_record_attempt_def)
  then show "remaining ((budget_record_attempt ^^ n) (retry_budget_new m window)) = m - n"
    by (simp add: remaining_def retry_budget_new_def)
qed (auto simp: can_retry_def remaining_def)

end
