(* ===== verification/Reputation.thy ===== *)
theory Reputation
  imports Float64 Common Error_Types "HOL-Library.Multiset"
begin

section \<open>Peer reputation (\<open>src/reputation.rs\<close>)\<close>

text \<open>
  Scores per peer, kept in a hash map by the text of the identifier, and the start times of open
  connections. The clock is read by \<open>now_secs\<close>; the operations take its values as
  arguments. Where a hash map is iterated, its order is an argument. \<open>sort_by\<close> is a
  stable sort; scores that are NaN, for which its comparison is no order and Rust leaves the
  result open, are excluded where the order matters.
\<close>

record reputation_config =
  pq_initial_score :: f64
  pq_sync_success_bonus :: f64
  pq_sync_failure_penalty :: f64
  pq_connection_stability_bonus :: f64
  pq_disconnection_penalty :: f64
  pq_decay_rate :: f64
  pq_min_score :: f64
  pq_max_score :: f64

definition reputation_config_default :: reputation_config where
  "reputation_config_default =
     \<lparr>pq_initial_score = Fin 50, pq_sync_success_bonus = Fin 5, pq_sync_failure_penalty = Fin 10,
      pq_connection_stability_bonus = Fin (1 / 2), pq_disconnection_penalty = Fin 5, pq_decay_rate = Fin 1,
      pq_min_score = Fin 0, pq_max_score = Fin 100\<rparr>"

definition with_initial_score :: "f64 \<Rightarrow> reputation_config \<Rightarrow> reputation_config" where
  "with_initial_score s c = c\<lparr>pq_initial_score := s\<rparr>"

definition with_sync_results :: "f64 \<Rightarrow> f64 \<Rightarrow> reputation_config \<Rightarrow> reputation_config" where
  "with_sync_results bonus penalty c = c\<lparr>pq_sync_success_bonus := bonus, pq_sync_failure_penalty := penalty\<rparr>"

definition with_decay_rate :: "f64 \<Rightarrow> reputation_config \<Rightarrow> reputation_config" where
  "with_decay_rate r c = c\<lparr>pq_decay_rate := r\<rparr>"

subsection \<open>One peer\<close>

record 'id peer_reputation =
  pr_peer_id :: 'id
  pr_score :: f64
  pr_sync_successes :: u64
  pr_sync_failures :: u64
  pr_connection_time_secs :: u64
  pr_disconnections :: u64
  pr_first_seen_secs :: u64
  pr_last_updated_secs :: u64

definition peer_reputation_new :: "u64 \<Rightarrow> 'id \<Rightarrow> f64 \<Rightarrow> 'id peer_reputation" where
  "peer_reputation_new now pid initial_score =
     \<lparr>pr_peer_id = pid, pr_score = initial_score, pr_sync_successes = 0, pr_sync_failures = 0,
      pr_connection_time_secs = 0, pr_disconnections = 0, pr_first_seen_secs = now, pr_last_updated_secs = now\<rparr>"

definition reputation_age :: "u64 \<Rightarrow> 'id peer_reputation \<Rightarrow> duration" where
  "reputation_age now r = unat (saturating_sub now (pr_last_updated_secs r)) * 10 ^ 9"

definition is_reliable :: "f64 \<Rightarrow> 'id peer_reputation \<Rightarrow> bool" where
  "is_reliable threshold r \<longleftrightarrow> f64_le threshold (pr_score r)"

record 'id reputation_summary =
  su_peer_id :: 'id
  su_score :: f64
  su_sync_success_rate :: f64
  su_avg_connection_secs :: f64

definition f64_of_u64 :: "u64 \<Rightarrow> f64" where
  "f64_of_u64 w = f64_of_nat (unat w)"

definition reputation_summarize :: "'id peer_reputation \<Rightarrow> 'id reputation_summary" where
  "reputation_summarize r =
     \<lparr>su_peer_id = pr_peer_id r, su_score = pr_score r,
      su_sync_success_rate =
        (if 0 < pr_sync_successes r + pr_sync_failures r
         then f64_div (f64_of_u64 (pr_sync_successes r)) (f64_of_u64 (pr_sync_successes r + pr_sync_failures r))
         else Fin 0),
      su_avg_connection_secs =
        (if 0 < pr_disconnections r
         then f64_div (f64_of_u64 (pr_connection_time_secs r)) (f64_of_u64 (pr_disconnections r))
         else Fin 0)\<rparr>"

subsection \<open>The manager\<close>

record 'id reputation_manager =
  rm_config :: reputation_config
  rm_reputations :: "(string, 'id peer_reputation) fmap"
  rm_starts :: "(string, u64) fmap"

definition reputation_manager_new :: "reputation_config \<Rightarrow> 'id reputation_manager" where
  "reputation_manager_new c = \<lparr>rm_config = c, rm_reputations = fmempty, rm_starts = fmempty\<rparr>"

text \<open>The seconds since 1970; before that the \<open>unwrap\<close> panics.\<close>

definition now_secs :: "int \<Rightarrow> u64 result" where
  "now_secs now = (if 0 \<le> now then Ok (of_int (now div 10 ^ 9)) else Panic)"

text \<open>\<open>if let Some(rep) = reputations.get_mut(&key)\<close>.\<close>

definition update_reputation ::
  "string \<Rightarrow> ('id peer_reputation \<Rightarrow> 'id peer_reputation) \<Rightarrow> 'id reputation_manager \<Rightarrow> 'id reputation_manager" where
  "update_reputation key f m =
     (case fmlookup (rm_reputations m) key of
        Some r \<Rightarrow> m\<lparr>rm_reputations := fmupd key (f r) (rm_reputations m)\<rparr>
      | None \<Rightarrow> m)"

definition success_update :: "reputation_config \<Rightarrow> u64 \<Rightarrow> 'id peer_reputation \<Rightarrow> 'id peer_reputation" where
  "success_update c now r =
     r\<lparr>pr_sync_successes := pr_sync_successes r + 1,
       pr_score := f64_min (f64_add (pr_score r) (pq_sync_success_bonus c)) (pq_max_score c),
       pr_last_updated_secs := now\<rparr>"

definition failure_update :: "reputation_config \<Rightarrow> u64 \<Rightarrow> 'id peer_reputation \<Rightarrow> 'id peer_reputation" where
  "failure_update c now r =
     r\<lparr>pr_sync_failures := pr_sync_failures r + 1,
       pr_score := f64_max (f64_sub (pr_score r) (pq_sync_failure_penalty c)) (pq_min_score c),
       pr_last_updated_secs := now\<rparr>"

definition disconnection_update :: "reputation_config \<Rightarrow> u64 \<Rightarrow> u64 \<Rightarrow> 'id peer_reputation \<Rightarrow> 'id peer_reputation" where
  "disconnection_update c d now r =
     r\<lparr>pr_connection_time_secs := pr_connection_time_secs r + d,
       pr_disconnections := pr_disconnections r + 1,
       pr_score := f64_max (f64_sub (pr_score r) (pq_disconnection_penalty c)) (pq_min_score c),
       pr_last_updated_secs := now\<rparr>"

definition decay_update :: "reputation_config \<Rightarrow> u64 \<Rightarrow> 'id peer_reputation \<Rightarrow> 'id peer_reputation" where
  "decay_update c now r =
     (let hours = f64_div (f64_of_u64 (saturating_sub now (pr_last_updated_secs r))) (Fin 3600);
          decay = f64_mul hours (pq_decay_rate c)
      in r\<lparr>pr_score := f64_max (f64_sub (pr_score r) decay) (pq_min_score c), pr_last_updated_secs := now\<rparr>)"

definition record_sync_success :: "('id \<Rightarrow> string) \<Rightarrow> u64 \<Rightarrow> 'id \<Rightarrow> 'id reputation_manager \<Rightarrow> 'id reputation_manager" where
  "record_sync_success id_text now pid m = update_reputation (id_text pid) (success_update (rm_config m) now) m"

definition record_sync_failure :: "('id \<Rightarrow> string) \<Rightarrow> u64 \<Rightarrow> 'id \<Rightarrow> 'id reputation_manager \<Rightarrow> 'id reputation_manager" where
  "record_sync_failure id_text now pid m = update_reputation (id_text pid) (failure_update (rm_config m) now) m"

text \<open>Two readings of the clock.\<close>

definition record_connection ::
  "('id \<Rightarrow> string) \<Rightarrow> u64 \<Rightarrow> u64 \<Rightarrow> 'id \<Rightarrow> 'id reputation_manager \<Rightarrow> 'id reputation_manager" where
  "record_connection id_text now now' pid m =
     update_reputation (id_text pid) (\<lambda>r. r\<lparr>pr_last_updated_secs := now'\<rparr>)
       (m\<lparr>rm_starts := fmupd (id_text pid) now (rm_starts m)\<rparr>)"

definition record_disconnection ::
  "('id \<Rightarrow> string) \<Rightarrow> u64 \<Rightarrow> u64 \<Rightarrow> 'id \<Rightarrow> 'id reputation_manager \<Rightarrow> 'id reputation_manager" where
  "record_disconnection id_text now now' pid m =
     (let d = (case fmlookup (rm_starts m) (id_text pid) of
                 Some start \<Rightarrow> saturating_sub now start | None \<Rightarrow> 0)
      in update_reputation (id_text pid) (disconnection_update (rm_config m) d now')
           (m\<lparr>rm_starts := fmdrop (id_text pid) (rm_starts m)\<rparr>))"

definition get_reputation :: "('id \<Rightarrow> string) \<Rightarrow> 'id \<Rightarrow> 'id reputation_manager \<Rightarrow> 'id peer_reputation option" where
  "get_reputation id_text pid m = fmlookup (rm_reputations m) (id_text pid)"

definition apply_decay :: "u64 \<Rightarrow> 'id reputation_manager \<Rightarrow> 'id reputation_manager" where
  "apply_decay now m = m\<lparr>rm_reputations := fmmap (decay_update (rm_config m) now) (rm_reputations m)\<rparr>"

definition reputation_remove :: "('id \<Rightarrow> string) \<Rightarrow> 'id \<Rightarrow> 'id reputation_manager \<Rightarrow> 'id reputation_manager" where
  "reputation_remove id_text pid m =
     m\<lparr>rm_reputations := fmdrop (id_text pid) (rm_reputations m), rm_starts := fmdrop (id_text pid) (rm_starts m)\<rparr>"

subsection \<open>Ranking\<close>

text \<open>The stable sort by descending score: an element stays before those that are not greater.\<close>

fun score_insert :: "'id peer_reputation \<Rightarrow> 'id peer_reputation list \<Rightarrow> 'id peer_reputation list" where
  "score_insert x [] = [x]"
| "score_insert x (y # ys) =
     (if f64_less (pr_score x) (pr_score y) then y # score_insert x ys else x # y # ys)"

definition sort_by_score :: "'id peer_reputation list \<Rightarrow> 'id peer_reputation list" where
  "sort_by_score xs = foldr score_insert xs []"

text \<open>\<open>kvs\<close> is the table in iteration order.\<close>

definition get_all_reputations :: "(string \<times> 'id peer_reputation) list \<Rightarrow> 'id peer_reputation list" where
  "get_all_reputations kvs = sort_by_score (map snd kvs)"

definition get_best_peers :: "(string \<times> 'id peer_reputation) list \<Rightarrow> nat \<Rightarrow> 'id peer_reputation list" where
  "get_best_peers kvs cnt = filter (is_reliable (Fin 30)) (take cnt (get_all_reputations kvs))"

record reputation_stats =
  rs_peer_count :: nat
  rs_avg_score :: f64
  rs_max_score :: f64
  rs_min_score :: f64

definition F64_MAX :: f64 where
  "F64_MAX = Fin (2 ^ 1024 - 2 ^ 971)"

definition reputation_statistics :: "(string \<times> 'id peer_reputation) list \<Rightarrow> reputation_stats" where
  "reputation_statistics kvs =
     (let cnt = length kvs; scores = map (pr_score \<circ> snd) kvs
      in if cnt = 0 then
           \<lparr>rs_peer_count = 0, rs_avg_score = Fin 0, rs_max_score = Fin 0, rs_min_score = Fin 0\<rparr>
         else
           \<lparr>rs_peer_count = cnt,
            rs_avg_score = f64_div (foldl f64_add (Fin 0) scores) (f64_of_nat cnt),
            rs_max_score = foldl f64_max (f64_neg F64_MAX) scores,
            rs_min_score = foldl f64_min F64_MAX scores\<rparr>)"

subsection \<open>Filters\<close>

record reputation_filter =
  rf_min_score :: "f64 option"
  rf_max_score :: "f64 option"
  rf_min_sync_successes :: "u64 option"
  rf_max_failures :: "u64 option"

definition reputation_filter_new :: reputation_filter where
  "reputation_filter_new =
     \<lparr>rf_min_score = None, rf_max_score = None, rf_min_sync_successes = None, rf_max_failures = None\<rparr>"

definition filter_with_min_score :: "f64 \<Rightarrow> reputation_filter \<Rightarrow> reputation_filter" where
  "filter_with_min_score s f = f\<lparr>rf_min_score := Some s\<rparr>"

definition filter_with_max_score :: "f64 \<Rightarrow> reputation_filter \<Rightarrow> reputation_filter" where
  "filter_with_max_score s f = f\<lparr>rf_max_score := Some s\<rparr>"

definition filter_with_min_sync_successes :: "u64 \<Rightarrow> reputation_filter \<Rightarrow> reputation_filter" where
  "filter_with_min_sync_successes n f = f\<lparr>rf_min_sync_successes := Some n\<rparr>"

definition filter_with_max_failures :: "u64 \<Rightarrow> reputation_filter \<Rightarrow> reputation_filter" where
  "filter_with_max_failures n f = f\<lparr>rf_max_failures := Some n\<rparr>"

definition filter_passes :: "reputation_filter \<Rightarrow> 'id peer_reputation \<Rightarrow> bool" where
  "filter_passes f r =
     (if (case rf_min_score f of Some s \<Rightarrow> f64_less (pr_score r) s | None \<Rightarrow> False) then False
      else if (case rf_max_score f of Some s \<Rightarrow> f64_less s (pr_score r) | None \<Rightarrow> False) then False
      else if (case rf_min_sync_successes f of Some n \<Rightarrow> pr_sync_successes r < n | None \<Rightarrow> False) then False
      else if (case rf_max_failures f of Some n \<Rightarrow> n < pr_sync_failures r | None \<Rightarrow> False) then False
      else True)"

definition filter_apply :: "reputation_filter \<Rightarrow> 'id peer_reputation list \<Rightarrow> 'id peer_reputation list" where
  "filter_apply f rs = filter (filter_passes f) rs"

subsection \<open>The operations as steps\<close>

datatype 'id reputation_op =
    SyncSuccess u64 'id | SyncFailure u64 'id | Connected u64 u64 'id | Disconnected u64 u64 'id
  | Decay u64 | Forget 'id

fun reputation_step :: "('id \<Rightarrow> string) \<Rightarrow> 'id reputation_manager \<Rightarrow> 'id reputation_op \<Rightarrow> 'id reputation_manager" where
  "reputation_step id_text m (SyncSuccess now pid) = record_sync_success id_text now pid m"
| "reputation_step id_text m (SyncFailure now pid) = record_sync_failure id_text now pid m"
| "reputation_step id_text m (Connected now now' pid) = record_connection id_text now now' pid m"
| "reputation_step id_text m (Disconnected now now' pid) = record_disconnection id_text now now' pid m"
| "reputation_step id_text m (Decay now) = apply_decay now m"
| "reputation_step id_text m (Forget pid) = reputation_remove id_text pid m"

lemmas reputation_ops = record_sync_success_def record_sync_failure_def record_connection_def
  record_disconnection_def apply_decay_def reputation_remove_def update_reputation_def Let_def

lemma rm_config_step [simp]: "rm_config (reputation_step id_text m op) = rm_config m"
  by (cases op) (simp_all add: reputation_ops split: option.split)

lemma rm_config_steps [simp]: "rm_config (foldl (reputation_step id_text) m ops) = rm_config m"
  by (induction ops arbitrary: m) simp_all

text \<open>When the connection with a given key was opened, read off the history, latest step first.\<close>

fun open_since :: "('id \<Rightarrow> string) \<Rightarrow> string \<Rightarrow> 'id reputation_op list \<Rightarrow> u64 option" where
  "open_since id_text key [] = None"
| "open_since id_text key (Connected now now' pid # ops) =
     (if id_text pid = key then Some now else open_since id_text key ops)"
| "open_since id_text key (Disconnected now now' pid # ops) =
     (if id_text pid = key then None else open_since id_text key ops)"
| "open_since id_text key (Forget pid # ops) =
     (if id_text pid = key then None else open_since id_text key ops)"
| "open_since id_text key (op # ops) = open_since id_text key ops"

text \<open>The start times follow the history, and nothing is ever put in the table.\<close>

definition starts_follow ::
  "('id \<Rightarrow> string) \<Rightarrow> 'id reputation_manager \<Rightarrow> 'id reputation_op list \<Rightarrow> bool" where
  "starts_follow id_text m h \<longleftrightarrow>
     rm_reputations m = fmempty \<and> (\<forall>key. fmlookup (rm_starts m) key = open_since id_text key h)"

interpretation history: simulation "reputation_step id_text" "\<lambda>h op. op # h" "starts_follow id_text" "\<lambda>op. True"
  by (unfold_locales, rename_tac m h op, case_tac op) (auto simp: starts_follow_def reputation_ops)

lemma starts_follow_run:
  "starts_follow id_text (foldl (reputation_step id_text) (reputation_manager_new c) ops) (rev ops)"
proof -
  have "starts_follow id_text (reputation_manager_new c) []"
    by (simp add: starts_follow_def reputation_manager_new_def)
  moreover have "foldl (\<lambda>h op. op # h) h ops = rev ops @ h" for h by (induction ops arbitrary: h) simp_all
  ultimately show ?thesis
    using history.sim_run [of id_text "reputation_manager_new c" "[]" ops] by (simp add: list_all_iff)
qed

lemma starts_history:
  "fmlookup (rm_starts (foldl (reputation_step id_text) (reputation_manager_new c) ops)) key
     = open_since id_text key (rev ops)"
  using starts_follow_run unfolding starts_follow_def by blast

lemma never_tracked:
  "rm_reputations (foldl (reputation_step id_text) (reputation_manager_new c) ops) = fmempty"
  using starts_follow_run unfolding starts_follow_def by blast

subsection \<open>Scores stay in their range\<close>

definition config_sane :: "reputation_config \<Rightarrow> bool" where
  "config_sane c \<longleftrightarrow>
     f64_ok (pq_min_score c) \<and> f64_ok (pq_max_score c) \<and> f64_le (pq_min_score c) (pq_max_score c)
     \<and> f64_le (Fin 0) (pq_sync_success_bonus c) \<and> f64_le (Fin 0) (pq_sync_failure_penalty c)
     \<and> f64_le (Fin 0) (pq_disconnection_penalty c) \<and> f64_le (Fin 0) (pq_decay_rate c)"

definition score_ok :: "reputation_config \<Rightarrow> f64 \<Rightarrow> bool" where
  "score_ok c s \<longleftrightarrow> f64_ok s \<and> f64_le (pq_min_score c) s \<and> f64_le s (pq_max_score c)"

lemma score_ok_not_NaN: "score_ok c s \<Longrightarrow> s \<noteq> NaN"
  by (simp add: score_ok_def f64_le_def)

lemma score_ok_raise:
  assumes "config_sane c" "score_ok c s" "f64_le (Fin 0) b"
  shows "score_ok c (f64_min (f64_add s b) (pq_max_score c))"
proof -
  have nn: "pq_max_score c \<noteq> NaN" using assms(1) by (simp add: config_sane_def f64_le_def)
  have "f64_le s (f64_add s b) \<or> f64_add s b = NaN"
    using assms score_ok_not_NaN [OF assms(2)] by (intro f64_add_ge) (simp_all add: score_ok_def)
  then have "f64_le (pq_min_score c) (f64_add s b) \<or> f64_add s b = NaN"
    using assms(2) f64_le_trans unfolding score_ok_def by blast
  then have "f64_le (pq_min_score c) (f64_min (f64_add s b) (pq_max_score c))"
    using assms(1) by (auto simp: f64_min_def config_sane_def)
  then show ?thesis
    using assms(1) f64_min_le [OF nn, of "f64_add s b"] by (simp add: score_ok_def config_sane_def)
qed

lemma score_ok_lower:
  assumes "config_sane c" "score_ok c s" "f64_le (Fin 0) b \<or> b = NaN"
  shows "score_ok c (f64_max (f64_sub s b) (pq_min_score c))"
proof -
  have nn: "pq_min_score c \<noteq> NaN" using assms(1) by (simp add: config_sane_def f64_le_def)
  have "f64_le (f64_sub s b) s \<or> f64_sub s b = NaN"
  proof (cases "b = NaN")
    case True
    then show ?thesis by (cases s) (simp_all add: f64_sub_def)
  next
    case False
    then show ?thesis
      using assms score_ok_not_NaN [OF assms(2)] by (intro f64_sub_le) (auto simp: score_ok_def)
  qed
  then have "f64_le (f64_sub s b) (pq_max_score c) \<or> f64_sub s b = NaN"
    using assms(2) f64_le_trans unfolding score_ok_def by blast
  then have "f64_le (f64_max (f64_sub s b) (pq_min_score c)) (pq_max_score c)"
    using assms(1) by (intro f64_max_least) (simp_all add: config_sane_def)
  then show ?thesis
    using assms(1) f64_max_ge [OF nn, of "f64_sub s b"] by (simp add: score_ok_def config_sane_def)
qed

lemma decay_nonneg:
  "f64_le (Fin 0) rate \<Longrightarrow> f64_le (Fin 0) (f64_mul (f64_div (f64_of_u64 w) (Fin 3600)) rate)
     \<or> f64_mul (f64_div (f64_of_u64 w) (Fin 3600)) rate = NaN"
  using f64_div_nonneg [of "f64_of_u64 w" "Fin 3600"] f64_of_nat_nonneg [of "unat w"] f64_mul_nonneg
  by (auto simp: f64_of_u64_def f64_le_def)

lemma score_ok_updates [wf_intros]:
  assumes "config_sane c" "score_ok c (pr_score r)"
  shows "score_ok c (pr_score (success_update c now r))"
    and "score_ok c (pr_score (failure_update c now r))"
    and "score_ok c (pr_score (disconnection_update c d now r))"
    and "score_ok c (pr_score (decay_update c now r))"
  using assms score_ok_raise [OF assms] score_ok_lower [OF assms] decay_nonneg
  by (simp_all add: success_update_def failure_update_def disconnection_update_def decay_update_def Let_def
      config_sane_def)

definition scores_ok :: "'id reputation_manager \<Rightarrow> bool" where
  "scores_ok m \<longleftrightarrow> (\<forall>k r. fmlookup (rm_reputations m) k = Some r \<longrightarrow> score_ok (rm_config m) (pr_score r))"

lemma scores_ok_update:
  assumes "scores_ok m" "\<And>r. score_ok (rm_config m) (pr_score r) \<Longrightarrow> score_ok (rm_config m) (pr_score (f r))"
  shows "scores_ok (update_reputation key f m)"
  using assms by (auto simp: scores_ok_def update_reputation_def split: option.split)

lemma scores_ok_step [wf_intros]:
  assumes "config_sane (rm_config m)" "scores_ok m" shows "scores_ok (reputation_step id_text m op)"
proof (cases op)
  case (Decay now)
  then show ?thesis
    using assms score_ok_updates(4) by (fastforce simp: scores_ok_def apply_decay_def)
next
  case (Forget pid)
  then show ?thesis using assms by (auto simp: scores_ok_def reputation_remove_def)
next
  case (Connected now now' pid)
  have "scores_ok (m\<lparr>rm_starts := x\<rparr>)" for x using assms(2) by (simp add: scores_ok_def)
  then show ?thesis using Connected by (simp add: record_connection_def) (rule scores_ok_update, simp_all)
next
  case (Disconnected now now' pid)
  have "scores_ok (m\<lparr>rm_starts := x\<rparr>)" for x using assms(2) by (simp add: scores_ok_def)
  then show ?thesis
    using Disconnected assms(1)
    by (simp add: record_disconnection_def Let_def) (rule scores_ok_update, simp_all add: score_ok_updates)
qed (use assms in \<open>simp_all add: record_sync_success_def record_sync_failure_def scores_ok_update score_ok_updates\<close>)

interpretation scoring: machine "reputation_step id_text" "\<lambda>m. config_sane (rm_config m) \<and> scores_ok m" "\<lambda>op. True"
  by unfold_locales (simp add: scores_ok_step)

subsection \<open>The ranking is a stable sort\<close>

definition no_NaN :: "'id peer_reputation list \<Rightarrow> bool" where
  "no_NaN rs \<longleftrightarrow> (\<forall>r \<in> set rs. pr_score r \<noteq> NaN)"

definition descending :: "'id peer_reputation list \<Rightarrow> bool" where
  "descending rs \<longleftrightarrow> sorted_wrt (\<lambda>x y. f64_le (pr_score y) (pr_score x)) rs"

lemma set_score_insert [simp]: "set (score_insert x ys) = insert x (set ys)"
  by (induction ys) auto

lemma mset_score_insert: "mset (score_insert x ys) = add_mset x (mset ys)"
  by (induction ys) auto

lemma mset_sort_by_score: "mset (sort_by_score xs) = mset xs"
  by (induction xs) (simp_all add: sort_by_score_def mset_score_insert)

lemma set_sort_by_score [simp]: "set (sort_by_score xs) = set xs"
  by (metis mset_sort_by_score set_mset_mset)

lemma descending_insert:
  "descending ys \<Longrightarrow> no_NaN (x # ys) \<Longrightarrow> descending (score_insert x ys)"
proof (induction ys)
  case (Cons y ys)
  show ?case
  proof (cases "f64_less (pr_score x) (pr_score y)")
    case True
    then show ?thesis
      using Cons by (auto simp: descending_def no_NaN_def f64_less_iff)
  next
    case False
    then have "f64_le (pr_score y) (pr_score x)"
      using Cons.prems(2) f64_le_total [of "pr_score x" "pr_score y"] by (auto simp: f64_less_iff no_NaN_def)
    then show ?thesis
      using False Cons.prems f64_le_trans by (auto simp: descending_def)
  qed
qed (simp add: descending_def)

lemma descending_sort: "no_NaN xs \<Longrightarrow> descending (sort_by_score xs)"
proof (induction xs)
  case (Cons x xs)
  have "set (foldr score_insert xs []) = set xs" using set_sort_by_score [of xs] by (simp add: sort_by_score_def)
  then show ?case
    using Cons by (simp add: sort_by_score_def descending_insert no_NaN_def)
qed (simp add: sort_by_score_def descending_def)

lemma filter_score_insert:
  "descending ys \<Longrightarrow> no_NaN (x # ys) \<Longrightarrow>
     filter (\<lambda>r. pr_score r = s) (score_insert x ys) = filter (\<lambda>r. pr_score r = s) (x # ys)"
  by (induction ys) (auto simp: descending_def no_NaN_def f64_less_iff)

lemma sort_by_score_stable:
  "no_NaN xs \<Longrightarrow> filter (\<lambda>r. pr_score r = s) (sort_by_score xs) = filter (\<lambda>r. pr_score r = s) xs"
proof (induction xs)
  case (Cons x xs)
  let ?ys = "foldr score_insert xs []"
  have set: "set ?ys = set xs" using set_sort_by_score [of xs] by (simp add: sort_by_score_def)
  have ys: "descending ?ys" "no_NaN (x # ?ys)"
    using descending_sort [of xs] Cons.prems set by (simp_all add: sort_by_score_def no_NaN_def)
  from filter_score_insert [OF ys] show ?case using Cons by (simp add: sort_by_score_def no_NaN_def)
qed (simp add: sort_by_score_def)

text \<open>So it is the library's stable sort, backwards on a reversed list.\<close>

lemma sort_by_score_key:
  assumes "no_NaN xs"
  shows "sort_by_score xs = rev (sort_key pr_score (rev xs))"
proof -
  have "sorted (map pr_score (rev (sort_by_score xs)))"
    using descending_sort [OF assms]
    by (simp add: descending_def sorted_map sorted_wrt_rev f64_le_iff sorted_wrt_mono_rel)
      (auto elim: sorted_wrt_mono_rel [rotated])
  moreover have "filter (\<lambda>x. pr_score k = pr_score x) (rev (sort_by_score xs))
      = filter (\<lambda>x. pr_score k = pr_score x) (rev xs)" for k
    using sort_by_score_stable [OF assms, of "pr_score k"] by (simp add: rev_filter [symmetric] eq_commute)
  ultimately have "sort_key pr_score (rev xs) = rev (sort_by_score xs)"
    by (intro properties_for_sort_key) (simp_all add: mset_sort_by_score)
  then show ?thesis by simp
qed

text \<open>In a descending list the reliable ones come first.\<close>

lemma reliable_prefix:
  "descending rs \<Longrightarrow> filter (is_reliable t) (take n rs) = take n (filter (is_reliable t) rs)"
proof (induction rs arbitrary: n)
  case (Cons r rs)
  show ?case
  proof (cases "is_reliable t r")
    case True
    then show ?thesis using Cons by (cases n) (simp_all add: descending_def)
  next
    case False
    have "\<not> is_reliable t q" if "q \<in> set rs" for q
    proof
      assume "is_reliable t q"
      moreover have "f64_le (pr_score q) (pr_score r)" using Cons.prems that by (simp add: descending_def)
      ultimately have "is_reliable t r" unfolding is_reliable_def by (rule f64_le_trans)
      with False show False by simp
    qed
    then have "filter (is_reliable t) rs = []" "filter (is_reliable t) (take m rs) = []" for m
      by (auto simp: filter_empty_conv dest: in_set_takeD)
    then show ?thesis using False by (cases n) simp_all
  qed
qed simp

subsection \<open>Properties\<close>

text \<open>
  Scores stay in range, in a table that already holds some (no operation creates one, see
  \<open>reputation_never_tracked\<close>): under a sane configuration (ordered finite or infinite
  bounds, non-negative bonuses, penalties and decay rate) no sequence of operations takes a score
  of the table out of \<open>[min_score, max_score]\<close>, rounding, overflow and NaN
  intermediate results included; a score never becomes NaN.
\<close>

theorem reputation_scores_bounded:
  assumes "config_sane (rm_config m)" "scores_ok m"
    and "get_reputation id_text pid (foldl (reputation_step id_text) m ops) = Some r"
  shows "f64_le (pq_min_score (rm_config m)) (pr_score r) \<and> f64_le (pr_score r) (pq_max_score (rm_config m))
     \<and> pr_score r \<noteq> NaN"
proof -
  have "scores_ok (foldl (reputation_step id_text) m ops)"
    using scoring.inv_run [of m ops id_text] assms(1,2) by (simp add: list_all_iff)
  then show ?thesis
    using assms(3) score_ok_not_NaN by (fastforce simp: scores_ok_def get_reputation_def score_ok_def)
qed

theorem reputation_scores_bounded_witness:
  "\<exists>r. get_reputation (\<lambda>i. ''p'') (1 :: nat) (foldl (reputation_step (\<lambda>i. ''p''))
        ((reputation_manager_new reputation_config_default)
           \<lparr>rm_reputations := fmupd ''p'' (peer_reputation_new 0 1 (Fin 50)) fmempty\<rparr>)
        [SyncSuccess 1 1, SyncFailure 2 1, Decay 3]) = Some r
     \<and> f64_le (Fin 0) (pr_score r) \<and> f64_le (pr_score r) (Fin 100)"
proof -
  let ?m = "(reputation_manager_new reputation_config_default)
           \<lparr>rm_reputations := fmupd ''p'' (peer_reputation_new 0 (1 :: nat) (Fin 50)) fmempty\<rparr>"
  let ?m' = "foldl (reputation_step (\<lambda>i. ''p'')) ?m [SyncSuccess 1 1, SyncFailure 2 1, Decay 3]"
  have fin: "f64_ok (Fin 0)" "f64_ok (Fin 100)" "f64_ok (Fin 50)"
    using rnd_of_int [of 100] rnd_of_int [of 50] f64_huge_gt [of 7] by simp_all
  then have sane: "config_sane (rm_config ?m)"
    by (simp add: config_sane_def reputation_manager_new_def reputation_config_default_def f64_le_def)
  have ok: "scores_ok ?m"
    using fin by (auto simp: scores_ok_def score_ok_def reputation_manager_new_def reputation_config_default_def
        peer_reputation_new_def f64_le_def split: if_splits)
  have "\<exists>r. get_reputation (\<lambda>i. ''p'') 1 ?m' = Some r"
    by (simp add: get_reputation_def reputation_ops reputation_manager_new_def)
  then obtain r where r: "get_reputation (\<lambda>i. ''p'') 1 ?m' = Some r" by blast
  from reputation_scores_bounded [OF sane ok r] r show ?thesis
    by (auto simp: reputation_manager_new_def reputation_config_default_def)
qed

text \<open>
  C39. Nobody is ever tracked: no operation inserts a reputation, so after any sequence of
  operations on a new manager no peer has one, the ranking, the best peers and the statistics
  are empty; only the start times of open connections are kept, and those are exactly the ones
  the history says are open.
\<close>

theorem reputation_never_tracked:
  assumes "lists_entries kvs (rm_reputations (foldl (reputation_step id_text) (reputation_manager_new c) ops))"
  shows "get_reputation id_text pid (foldl (reputation_step id_text) (reputation_manager_new c) ops) = None
     \<and> get_all_reputations kvs = [] \<and> get_best_peers kvs n = []
     \<and> rs_peer_count (reputation_statistics kvs) = 0
     \<and> fmlookup (rm_starts (foldl (reputation_step id_text) (reputation_manager_new c) ops)) key
         = open_since id_text key (rev ops)"
proof -
  have "kvs = []"
    using lists_entries_iff [OF assms] unfolding never_tracked by (cases kvs) fastforce+
  then show ?thesis
    by (simp add: get_reputation_def never_tracked starts_history get_best_peers_def get_all_reputations_def
        sort_by_score_def reputation_statistics_def)
qed

theorem reputation_never_tracked_witness:
  "get_reputation (\<lambda>i. ''p'') (1 :: nat) (foldl (reputation_step (\<lambda>i. ''p''))
      (reputation_manager_new reputation_config_default) [Connected 7 7 1, SyncSuccess 8 1]) = None
   \<and> fmlookup (rm_starts (foldl (reputation_step (\<lambda>i. ''p''))
      (reputation_manager_new reputation_config_default) [Connected 7 7 (1 :: nat), SyncSuccess 8 1])) ''p'' = Some 7"
proof -
  let ?ops = "[Connected 7 7 (1 :: nat), SyncSuccess 8 1]"
  have "lists_entries [] (rm_reputations (foldl (reputation_step (\<lambda>i. ''p''))
      (reputation_manager_new reputation_config_default) ?ops))"
    unfolding never_tracked by (simp add: lists_entries_def)
  from reputation_never_tracked [OF this, of 1 _ "''p''"] show ?thesis by simp
qed

text \<open>
  The ranking: \<open>get_all_reputations\<close> is the stable sort of the table by descending
  score, the same as the library's ascending sort of the reversed table read backwards; so taking
  \<open>count\<close> of it first and dropping the unreliable ones after, as
  \<open>get_best_peers\<close> does, gives the first \<open>count\<close> reliable peers.
\<close>

theorem best_peers_ranking:
  assumes "list_all (\<lambda>(k, r). pr_score r \<noteq> NaN) kvs"
  shows "get_all_reputations kvs = rev (sort_key pr_score (rev (map snd kvs)))
    \<and> sorted_wrt (\<lambda>x y. f64_le (pr_score y) (pr_score x)) (get_all_reputations kvs)
    \<and> get_best_peers kvs cnt = take cnt (filter (is_reliable (Fin 30)) (get_all_reputations kvs))"
proof -
  have "no_NaN (map snd kvs)" using assms by (auto simp: no_NaN_def list_all_iff)
  from descending_sort [OF this] sort_by_score_key [OF this] show ?thesis
    by (simp add: get_all_reputations_def get_best_peers_def reliable_prefix descending_def)
qed

theorem best_peers_ranking_witness:
  "let r = (\<lambda>i s. peer_reputation_new 0 (i :: nat) (Fin s)); kvs = [(''a'', r 1 10), (''b'', r 2 40), (''c'', r 3 90)]
   in get_best_peers kvs 5 = [r 3 90, r 2 40]"
proof -
  let ?r = "\<lambda>i s. peer_reputation_new 0 (i :: nat) (Fin s)"
  let ?kvs = "[(''a'', ?r 1 10), (''b'', ?r 2 40), (''c'', ?r 3 90)]"
  have "list_all (\<lambda>(k, r). pr_score r \<noteq> NaN) ?kvs" by (simp add: peer_reputation_new_def)
  from best_peers_ranking [OF this, THEN conjunct2, THEN conjunct2]
  have "get_best_peers ?kvs 5 = take 5 (filter (is_reliable (Fin 30)) (get_all_reputations ?kvs))" .
  then show ?thesis
    by (simp add: Let_def get_all_reputations_def sort_by_score_def peer_reputation_new_def is_reliable_def f64_le_def)
qed

text \<open>
  A summary's success rate lies between zero and one, rounding included, as long as the two
  counters do not wrap together.
\<close>

theorem success_rate_bounds:
  assumes "unat (pr_sync_successes r) + unat (pr_sync_failures r) < 2 ^ 64"
  shows "f64_le (Fin 0) (su_sync_success_rate (reputation_summarize r))
     \<and> f64_le (su_sync_success_rate (reputation_summarize r)) (Fin 1)"
proof (cases "0 < pr_sync_successes r + pr_sync_failures r")
  case True
  have sum: "unat (pr_sync_successes r + pr_sync_failures r) = unat (pr_sync_successes r) + unat (pr_sync_failures r)"
    using assms by (simp add: unat_add_lem [THEN iffD1])
  have "0 < unat (pr_sync_successes r + pr_sync_failures r)" using True by (simp add: word_less_nat_alt)
  then show ?thesis
    using True f64_ratio_bounds [of "unat (pr_sync_successes r)" "unat (pr_sync_successes r + pr_sync_failures r)"]
      assms sum by (simp add: reputation_summarize_def f64_of_u64_def)
next
  case False
  then show ?thesis by (simp add: reputation_summarize_def f64_le_def)
qed

theorem success_rate_bounds_witness:
  "f64_le (su_sync_success_rate (reputation_summarize ((peer_reputation_new 0 (1 :: nat) (Fin 50))
      \<lparr>pr_sync_successes := 1, pr_sync_failures := 2\<rparr>))) (Fin 1)"
  by (rule success_rate_bounds [THEN conjunct2]) simp

text \<open>Filters keep the order and exactly the reputations within the limits.\<close>

lemma filter_passes_iff:
  "filter_passes f r \<longleftrightarrow>
     (\<forall>s. rf_min_score f = Some s \<longrightarrow> \<not> f64_less (pr_score r) s)
     \<and> (\<forall>s. rf_max_score f = Some s \<longrightarrow> \<not> f64_less s (pr_score r))
     \<and> (\<forall>n. rf_min_sync_successes f = Some n \<longrightarrow> n \<le> pr_sync_successes r)
     \<and> (\<forall>n. rf_max_failures f = Some n \<longrightarrow> pr_sync_failures r \<le> n)"
  by (auto simp: filter_passes_def not_less split: option.splits)

end
