(* ===== verification/Base64_Reference.thy ===== *)
theory Base64_Reference
  imports Common
begin

section \<open>The base64url of RFC 4648\<close>

text \<open>
  The encoding as the standard words it: the bits of the bytes, most significant first, are cut
  into groups of six, the last one filled with zeros, and each group, read as a number, selects a
  character of the alphabet; no padding characters. The encoder of \<open>src/common.rs\<close>,
  which packs three bytes at a time into a \<open>u32\<close>, is compared with it.
\<close>

definition byte_bits :: "u8 \<Rightarrow> bool list" where
  "byte_bits b = map (bit b) [7, 6, 5, 4, 3, 2, 1, 0]"

fun groups_of_six :: "bool list \<Rightarrow> bool list list" where
  "groups_of_six (a # b # c # d # e # f # bs) = [a, b, c, d, e, f] # groups_of_six bs"
| "groups_of_six [] = []"
| "groups_of_six bs = [take 6 (bs @ [False, False, False, False, False])]"

definition group_value :: "bool list \<Rightarrow> nat" where
  "group_value bs = foldl (\<lambda>n b. 2 * n + of_bool b) 0 bs"

definition rfc4648_alphabet :: string where
  "rfc4648_alphabet = ''ABCDEFGHIJKLMNOPQRSTUVWXYZabcdefghijklmnopqrstuvwxyz0123456789-_''"

definition rfc4648_encode :: "bytes \<Rightarrow> string" where
  "rfc4648_encode bs =
     map (\<lambda>g. rfc4648_alphabet ! group_value g) (groups_of_six (concat (map byte_bits bs)))"

lemma char_index_group:
  "char_index n i = group_value (map (\<lambda>k. bit n (18 - i * 6 + k)) [5, 4, 3, 2, 1, 0])"
proof -
  let ?w = "drop_bit (18 - i * 6) n"
  have "char_index n i = take_bit 6 (unat ?w)"
    by (simp add: char_index_def and_3F unsigned_take_bit_eq)
  also have "\<dots> = horner_sum of_bool 2 (map (bit (unat ?w)) [0..<6])"
    by (rule horner_sum_bit_eq_take_bit [symmetric])
  also have "map (bit (unat ?w)) [0..<6] = map (\<lambda>k. bit n (18 - i * 6 + k)) [0, 1, 2, 3, 4, 5]"
  proof -
    have "[0..<6] = [0, 1, 2, 3, 4, 5 :: nat]" by code_simp
    then show ?thesis by (simp add: bit_unsigned_iff bit_simps)
  qed
  finally show ?thesis by (simp add: group_value_def)
qed

text \<open>The characters of a chunk are those of the groups its bits fall into.\<close>

lemma chunk_bits [simp]:
  "bit (pack_chunk [a]) k \<longleftrightarrow> 16 \<le> k \<and> k < 24 \<and> bit a (k - 16)"
  "bit (pack_chunk [a, b]) k \<longleftrightarrow> 16 \<le> k \<and> k < 24 \<and> bit a (k - 16) \<or> 8 \<le> k \<and> k < 16 \<and> bit b (k - 8)"
  "bit (pack_chunk [a, b, c]) k \<longleftrightarrow>
     16 \<le> k \<and> k < 24 \<and> bit a (k - 16) \<or> 8 \<le> k \<and> k < 16 \<and> bit b (k - 8) \<or> k < 8 \<and> bit c k"
  by (fact bit_pack_chunk)+

lemma encode_chunk_groups:
  "encode_chunk [a, b, c] = map (\<lambda>g. alphabet ! group_value g) (groups_of_six (byte_bits a @ byte_bits b @ byte_bits c))"
  "encode_chunk [a, b] = map (\<lambda>g. alphabet ! group_value g) (groups_of_six (byte_bits a @ byte_bits b))"
  "encode_chunk [a] = map (\<lambda>g. alphabet ! group_value g) (groups_of_six (byte_bits a))"
  by (simp_all add: encode_chunk_eqs char_index_group byte_bits_def flip: numeral_2_eq_2)

lemma groups_of_three_bytes:
  "groups_of_six (byte_bits a @ byte_bits b @ byte_bits c @ bs)
     = groups_of_six (byte_bits a @ byte_bits b @ byte_bits c) @ groups_of_six bs"
  by (simp add: byte_bits_def)

lemma encode_groups:
  "concat (map encode_chunk (chunks 3 bs))
     = map (\<lambda>g. alphabet ! group_value g) (groups_of_six (concat (map byte_bits bs)))"
proof (induction bs rule: length_induct)
  case (1 bs)
  consider "bs = []" | a where "bs = [a]" | a b where "bs = [a, b]"
    | a b c bs' where "bs = [a, b, c] @ bs'"
    by (cases bs rule: remdups_adj.cases) (auto, metis neq_Nil_conv)
  then show ?case
  proof cases
    case 4
    moreover have "chunks 3 bs = [a, b, c] # chunks 3 bs'"
      unfolding 4 by (rule chunks_append) simp_all
    ultimately show ?thesis
      using "1.IH" by (simp add: encode_chunk_groups groups_of_three_bytes)
  qed (simp_all add: chunks_step encode_chunk_groups)
qed

lemma group_value_less: "g \<in> set (groups_of_six bs) \<Longrightarrow> group_value g < 64"
  by (induction bs rule: groups_of_six.induct) (auto simp: group_value_def of_bool_def)

subsection \<open>Property\<close>

text \<open>
  C29. The encoder is the base64url encoding of RFC 4648 without padding, on every byte string:
  packing three bytes into a word and shifting sextets out of it gives the same text as
  cutting the bits of the whole string into groups of six.
\<close>

theorem base64_is_rfc4648:
  "base64_url_encode bs = rfc4648_encode bs"
proof -
  have alpha: "of_bytes alphabet = rfc4648_alphabet"
    unfolding alphabet_def rfc4648_alphabet_def by (rule of_bytes_as_bytes)
  have "char_of (unat (alphabet ! k)) = rfc4648_alphabet ! k" if "k < 64" for k
    using that by (simp add: of_bytes_def flip: alpha)
  then show ?thesis
    by (simp add: base64_url_encode_def encode_groups rfc4648_encode_def of_bytes_def group_value_less)
qed

end
