(* ===== verification/Concurrent_Log.thy ===== *)
theory Concurrent_Log
  imports Protocol Persist
begin

section \<open>Concurrent recording\<close>

text \<open>
  \<open>SyncManager::record_change\<close> counts the offset up first and pushes the change under
  the lock of the log afterwards. Threads that record at the same time interleave these two
  sections, and a reader may come between them. The memory store has the same gap between reading
  its length and appending.
\<close>

definition record_claim :: "'id sync_manager \<Rightarrow> u64 \<times> 'id sync_manager" where
  "record_claim m = (sm_offset m, m\<lparr>sm_offset := sm_offset m + 1\<rparr>)"

definition record_push :: "change \<Rightarrow> 'id sync_manager \<Rightarrow> 'id sync_manager" where
  "record_push c m =
     (let changes = sm_changes m @ [c]
      in m\<lparr>sm_changes := (if length changes > sm_max_changes m then drop 1 changes else changes)\<rparr>)"

lemma record_change_sections:
  "record_change m c = (fst (record_claim m), record_push c (snd (record_claim m)))"
  by (simp add: record_change_def record_claim_def record_push_def Let_def)

subsection \<open>Recording threads\<close>

text \<open>
  The calls in flight by thread, with the offset each will return, and the finished calls in the
  order of their pushes.
\<close>

datatype 'tid log_op = Claim 'tid | Push 'tid change

type_synonym ('tid, 'id) log_state = "'id sync_manager \<times> ('tid, u64) fmap \<times> (u64 \<times> change) list"

fun log_step :: "('tid, 'id) log_state \<Rightarrow> 'tid log_op \<Rightarrow> ('tid, 'id) log_state" where
  "log_step (m, flight, finished) (Claim t) =
     (case fmlookup flight t of
        Some off \<Rightarrow> (m, flight, finished)
      | None \<Rightarrow> let (off, m') = record_claim m in (m', fmupd t off flight, finished))"
| "log_step (m, flight, finished) (Push t c) =
     (case fmlookup flight t of
        Some off \<Rightarrow> (record_push c m, fmdrop t flight, finished @ [(off, c)])
      | None \<Rightarrow> (m, flight, finished))"

text \<open>The offsets given out are the first ones, and the log holds the pushed changes.\<close>

fun log_inv :: "nat \<Rightarrow> ('tid, 'id) log_state \<Rightarrow> nat \<Rightarrow> bool" where
  "log_inv cap (m, flight, finished) steps \<longleftrightarrow>
     sm_max_changes m = cap \<and> sm_changes m = last_n cap (map snd finished)
     \<and> sm_offset m = of_nat (length finished + fmsize flight)
     \<and> fst ` set finished \<union> ran (fmlookup flight) = of_nat ` {..< length finished + fmsize flight}
     \<and> length finished + fmsize flight \<le> steps"

lemma ran_fmempty [simp]: "ran (fmlookup fmempty) = {}"
  by (simp add: ran_def)

lemma record_push_simps:
  "sm_offset (record_push c m) = sm_offset m" "sm_max_changes (record_push c m) = sm_max_changes m"
  by (simp_all add: record_push_def Let_def)

lemma record_push_changes:
  "sm_changes m = last_n (sm_max_changes m) h \<Longrightarrow> sm_changes (record_push c m) = last_n (sm_max_changes m) (h @ [c])"
  using record_change_changes [of "m\<lparr>sm_offset := 0\<rparr>" h c]
  by (simp add: record_change_sections record_claim_def record_push_def Let_def)

lemma log_inv_claim:
  assumes "log_inv cap (m, flight, finished) steps" "fmlookup flight t = None"
  shows "log_inv cap (log_step (m, flight, finished) (Claim t)) (Suc steps)"
proof -
  let ?k = "length finished + fmsize flight"
  let ?flight = "fmupd t (sm_offset m) flight"
  have k: "length finished + fmsize ?flight = Suc ?k" using assms(2) by simp
  have inv: "sm_max_changes m = cap" "sm_changes m = last_n cap (map snd finished)" "sm_offset m = of_nat ?k"
      "fst ` set finished \<union> ran (fmlookup flight) = of_nat ` {..< ?k}" "Suc ?k \<le> Suc steps"
    using assms(1) by auto
  have "ran (fmlookup ?flight) = insert (of_nat ?k) (ran (fmlookup flight))"
    using assms(2) inv(3) by (simp add: fmupd.rep_eq map_upd_def)
  then have offs: "fst ` set finished \<union> ran (fmlookup ?flight) = of_nat ` {..< Suc ?k}"
    using inv(4) by (simp only: lessThan_Suc image_insert Un_insert_right)
  have "sm_offset m + 1 = of_nat (Suc ?k)" using inv(3) by simp
  then show ?thesis
    using inv(1,2,5) assms(2)
    by (simp only: log_step.simps option.case record_claim_def prod.case Let_def log_inv.simps k offs sync_manager.simps)
       simp
qed

lemma log_inv_push:
  assumes "log_inv cap (m, flight, finished) steps" "fmlookup flight t = Some off"
  shows "log_inv cap (log_step (m, flight, finished) (Push t c)) (Suc steps)"
proof -
  let ?flight = "fmdrop t flight" and ?finished = "finished @ [(off, c)]"
  have "fmsize flight \<noteq> 0" using assms(2) fmdomI [OF assms(2)] by (auto simp: fmsize_def)
  then have k: "length ?finished + fmsize ?flight = length finished + fmsize flight"
    using assms(2) by simp
  have "fmlookup flight = (fmlookup ?flight)(t \<mapsto> off)" using assms(2) by (intro ext) simp
  then have "ran (fmlookup flight) = insert off (ran (fmlookup ?flight))"
    using ran_map_upd [of "fmlookup ?flight" t off] by simp
  then have offs: "fst ` set ?finished \<union> ran (fmlookup ?flight) = fst ` set finished \<union> ran (fmlookup flight)"
    by simp
  have inv: "sm_max_changes m = cap" "sm_changes m = last_n cap (map snd finished)"
      "sm_offset m = of_nat (length finished + fmsize flight)"
      "fst ` set finished \<union> ran (fmlookup flight) = of_nat ` {..< length finished + fmsize flight}"
      "length finished + fmsize flight \<le> Suc steps"
    using assms(1) by auto
  then have "sm_changes (record_push c m) = last_n cap (map snd ?finished)"
    using record_push_changes [of m "map snd finished" c] by simp
  then show ?thesis
    unfolding log_step.simps assms(2) option.case log_inv.simps k offs record_push_simps by (intro conjI inv)
qed

lemma log_inv_step: "log_inv cap s steps \<Longrightarrow> log_inv cap (log_step s op) (Suc steps)"
proof (cases s)
  case (fields m flight finished)
  assume inv: "log_inv cap s steps"
  show ?thesis
  proof (cases op)
    case (Claim t)
    then show ?thesis using inv fields log_inv_claim [of cap m flight finished steps t] by (cases "fmlookup flight t") simp_all
  next
    case (Push t c)
    then show ?thesis
      using inv fields log_inv_push [of cap m flight finished steps t _ c] by (cases "fmlookup flight t") simp_all
  qed
qed

interpretation recording: simulation log_step "\<lambda>steps op. Suc steps" "log_inv cap" "\<lambda>op. True"
  by unfold_locales (rule log_inv_step)

lemma recording_run:
  "log_inv cap (foldl log_step (sync_manager_new cap, fmempty, []) ops) (length ops)"
proof -
  have "log_inv cap (sync_manager_new cap, fmempty, []) 0"
    by (simp add: sync_manager_new_def)
  moreover have "foldl (\<lambda>steps op. Suc steps) n ops = n + length ops" for n
    by (induction ops arbitrary: n) simp_all
  ultimately show ?thesis
    using recording.sim_run [of cap "(sync_manager_new cap, fmempty, [])" 0 ops] by (simp add: list_all_iff)
qed

subsection \<open>Properties\<close>

text \<open>
  C11. Concurrent recording is a log once it is quiet: whatever the interleaving of the sections
  of any number of threads, when no call is in flight the manager represents the changes in the
  order of their pushes, and the returned offsets are \<open>0 \<dots> n - 1\<close>, each
  returned once (for fewer than \<open>2 ^ 64\<close> sections).
\<close>

theorem concurrent_recording:
  fixes ops :: "'tid log_op list"
  assumes "length ops < 2 ^ 64"
    and "foldl log_step (sync_manager_new cap, fmempty, []) ops = (m, fmempty, finished)"
  shows "represents m (map snd finished) \<and> sm_max_changes m = cap
     \<and> distinct (map fst finished) \<and> set (map fst finished) = of_nat ` {..< length finished}"
proof -
  have inv: "log_inv cap (m, fmempty :: ('tid, u64) fmap, finished) (length ops)"
    by (subst assms(2) [symmetric]) (rule recording_run)
  then have len: "length finished < 2 ^ 64" using assms(1) by simp
  have offs: "set (map fst finished) = of_nat ` {..< length finished}" using inv by simp
  have "inj_on (of_nat :: nat \<Rightarrow> u64) {..< length finished}"
    by (rule inj_on_subset [OF of_nat_u64_inj]) (use len in auto)
  then have "card (set (map fst finished)) = length (map fst finished)"
    unfolding offs by (simp add: card_image)
  then have "distinct (map fst finished)" by (rule card_distinct)
  with inv len offs show ?thesis by (simp add: represents_def del: set_map)
qed

theorem concurrent_recording_witness:
  "let c = (\<lambda>k. change_set k 0 ''n'' ''d'' [1] [2]);
       (m, flight, finished) = foldl log_step (sync_manager_new 9 :: nat sync_manager, fmempty, [])
         [Claim ''s'', Claim ''t'', Push ''t'' (c 1), Push ''s'' (c 2)]
   in represents m [c 1, c 2] \<and> finished = [(1, c 1), (0, c 2)]"
proof -
  let ?c = "\<lambda>k. change_set k 0 ''n'' ''d'' [1] [2]"
  let ?ops = "[Claim ''s'', Claim ''t'', Push ''t'' (?c 1), Push ''s'' (?c 2)]"
  have "snd (foldl log_step (sync_manager_new 9 :: nat sync_manager, fmempty, []) ?ops) = (fmempty, [(1, ?c 1), (0, ?c 2)])"
    by (simp add: record_claim_def record_push_def sync_manager_new_def fmap_ext)
  then obtain m where run: "foldl log_step (sync_manager_new 9 :: nat sync_manager, fmempty, []) ?ops = (m, fmempty, [(1, ?c 1), (0, ?c 2)])"
    by (metis prod.collapse)
  have "represents m [?c 1, ?c 2]"
    using concurrent_recording [OF _ run] by simp
  with run show ?thesis by (simp only: Let_def prod.case)
qed

lemma last_n_1: "h \<noteq> [] \<Longrightarrow> last_n 1 h = [last h]"
  by (induction h rule: rev_induct) (simp_all add: last_n_def)

text \<open>
  C27. A reader can miss a change for good: a request answered between the two sections of
  \<open>record_change\<close>, for a reader that has the whole log, repeats the last change under
  the offset of the new one and calls itself final; after the push the reader is told that it is
  up to date, although a request from its old offset would be answered with the new change.
\<close>

theorem claimed_change_skipped:
  assumes "represents m h" "h \<noteq> []" "0 < sm_max_changes m" "length h + 1 < 2 ^ 64" "limit \<noteq> Some 0"
  shows "let off = sm_offset m; m1 = snd (record_claim m); m2 = record_push c m1
     in fst (process_message m1 (Request off limit) lo)
          = Ok (Response \<lparr>cb_offset = off + 1, cb_changes = [last h], cb_is_final = True\<rparr>)
        \<and> fst (process_message m2 (Request (off + 1) limit) lo)
          = Ok (Response \<lparr>cb_offset = off + 1, cb_changes = [], cb_is_final = True\<rparr>)
        \<and> get_changes_since m2 off = [c]"
proof -
  let ?off = "sm_offset m"
  have off: "unat ?off = length h" "\<not> ?off + 1 \<le> ?off"
    using assms(4) represents_tail [OF assms(1)] by (simp_all add: word_le_nat_alt unat_word_ariths)
  let ?m1 = "snd (record_claim m)" let ?m2 = "record_push c ?m1"
  have ch: "sm_changes m = last_n (sm_max_changes m) h" using assms(1) by (simp add: represents_def)
  have "get_changes_since ?m1 ?off = last_n 1 (sm_changes m)"
    using off(2) by (simp add: get_changes_since_def record_claim_def last_n_def)
  also have "\<dots> = [last h]"
    using assms(2,3) last_n_1 [OF assms(2)] by (simp add: ch min_def)
  finally have p1: "page ?m1 ?off limit = [last h]"
    using assms(5) by (cases limit) (simp_all add: page_def take_Cons')
  have "represents ?m2 (h @ [c])"
    using represents_record [OF assms(1,4), of c] by (simp add: record_change_sections)
  moreover have "sm_max_changes ?m2 = sm_max_changes m"
    by (simp add: record_push_simps record_claim_def)
  ultimately have since2: "get_changes_since ?m2 ?off = [c]" "get_changes_since ?m2 (?off + 1) = []"
    using sync_log.since_complete [of ?m2 "h @ [c]" ?off] assms(3,4) off
      sync_log.since_tail [of ?m2 "h @ [c]"]
    by (simp_all add: record_push_simps record_claim_def)
  then have "page ?m2 (?off + 1) limit = []" by (cases limit) (simp_all add: page_def)
  with p1 since2(1) show ?thesis
    by (simp add: process_request Let_def) (simp add: record_claim_def)
qed

theorem claimed_change_skipped_witness:
  "let c = (\<lambda>k. change_set k 0 ''n'' ''d'' [1] [2]);
       m = snd (record_change (sync_manager_new 9 :: nat sync_manager) (c 1))
   in fst (process_message (snd (record_claim m)) (Request 1 None) 0)
        = Ok (Response \<lparr>cb_offset = 2, cb_changes = [c 1], cb_is_final = True\<rparr>)"
proof -
  let ?c = "\<lambda>k. change_set k 0 ''n'' ''d'' [1] [2]"
  let ?m = "snd (record_change (sync_manager_new 9 :: nat sync_manager) (?c 1))"
  have "represents ?m ([] @ [?c 1])" by (rule represents_record) (simp_all add: represents_new)
  then have "represents ?m [?c 1]" "0 < sm_max_changes ?m" "sm_offset ?m = 1"
    by (simp_all add: sync_manager_new_def)
  from claimed_change_skipped [OF this(1) _ this(2), of None "?c 2" 0] this(3) show ?thesis
    by (simp add: Let_def)
qed

subsection \<open>Paging while others record\<close>

text \<open>
  A reader pages through a log that threads record into: their two sections interleave with each
  other and with the requests. \<open>pg_flights\<close> remembers how many recordings were
  between their sections when each request was answered. (An answer reads the changes and the
  offset under the lock of the log; the final flag, for which the offset is read again, is not
  looked at by this reader.)
\<close>

record ('tid, 'id) paging =
  pg_log :: "('tid, 'id) log_state"
  pg_offset :: u64
  pg_read :: "change list"
  pg_flights :: "nat list"

datatype 'tid paging_op = Recording "'tid log_op" | NextPage nat

definition next_page :: "nat \<Rightarrow> ('tid, 'id) paging \<Rightarrow> ('tid, 'id) paging" where
  "next_page l p =
     (case pg_log p of (m, flight, finished) \<Rightarrow>
        case process_message m (Request (pg_offset p) (Some l)) 0 of
          (Ok (Response b), m') \<Rightarrow>
            p\<lparr>pg_log := (m', flight, finished), pg_offset := cb_offset b, pg_read := pg_read p @ cb_changes b,
              pg_flights := pg_flights p @ [fmsize flight]\<rparr>
        | (_, m') \<Rightarrow> p\<lparr>pg_log := (m', flight, finished)\<rparr>)"

fun paging_step :: "('tid, 'id) paging \<Rightarrow> 'tid paging_op \<Rightarrow> ('tid, 'id) paging" where
  "paging_step p (Recording op) = p\<lparr>pg_log := log_step (pg_log p) op\<rparr>"
| "paging_step p (NextPage l) = next_page l p"

definition pushed :: "('tid, 'id) log_state \<Rightarrow> change list" where
  "pushed s = map snd (snd (snd s))"

lemma log_inv_represents:
  "log_inv cap (m, flight, finished) steps \<Longrightarrow> fmsize flight = 0 \<Longrightarrow> steps < 2 ^ 64 \<Longrightarrow>
     represents m (map snd finished) \<and> sm_max_changes m = cap"
  by (simp add: represents_def)

text \<open>What the reader has is the part of the history from its start up to its offset.\<close>

definition has_read :: "nat \<Rightarrow> u64 \<Rightarrow> change list \<Rightarrow> change list \<Rightarrow> bool" where
  "has_read r0 off acc h \<longleftrightarrow>
     r0 \<le> unat off \<and> unat off \<le> max r0 (length h) \<and> acc = take (unat off - r0) (drop r0 h)"

definition paging_inv :: "nat \<Rightarrow> nat \<Rightarrow> ('tid, 'id) paging \<Rightarrow> nat \<Rightarrow> bool" where
  "paging_inv cap r0 p steps \<longleftrightarrow>
     log_inv cap (pg_log p) steps
     \<and> (set (pg_flights p) \<subseteq> {0} \<and> length (pushed (pg_log p)) \<le> r0 + cap \<and> steps < 2 ^ 64 \<longrightarrow>
          has_read r0 (pg_offset p) (pg_read p) (pushed (pg_log p)))"

lemma has_read_append: "has_read r0 off acc h \<Longrightarrow> has_read r0 off acc (h @ h')"
  by (cases "unat off = r0") (auto simp: has_read_def)

lemma pushed_step: "\<exists>h. pushed (log_step s op) = pushed s @ h"
proof (cases s)
  case (fields m flight finished)
  then show ?thesis by (cases op) (auto simp: pushed_def record_claim_def Let_def split: option.split)
qed

lemma has_read_page:
  assumes "represents m h" "length h \<le> r0 + sm_max_changes m" "has_read r0 off acc h"
  shows "has_read r0 (off + of_nat (length (page m off (Some l)))) (acc @ page m off (Some l)) h"
proof -
  have off: "r0 \<le> unat off" "unat off \<le> max r0 (length h)" "acc = take (unat off - r0) (drop r0 h)"
    using assms(3) by (simp_all add: has_read_def)
  then have page: "page m off (Some l) = take l (drop (unat off) h)"
    using page_represents [OF assms(1), of off "Some l"] assms(2) by simp
  have off': "unat (off + of_nat (length (page m off (Some l)))) = unat off + min l (length h - unat off)"
    using page_offset [OF assms(1), of off "Some l"] by (simp add: page min.commute)
  have "drop (unat off) h = drop (unat off - r0) (drop r0 h)" using off(1) by simp
  then have "acc @ page m off (Some l) = take (unat off - r0 + l) (drop r0 h)"
    unfolding page off(3) by (simp only: take_add)
  also have "\<dots> = take (unat off + min l (length h - unat off) - r0) (drop r0 h)"
    using off(1,2) by (cases "l \<le> length h - unat off") (simp_all add: min_def)
  finally show ?thesis
    using off(1,2) unfolding has_read_def off' by auto
qed

lemma paging_inv_page:
  assumes "paging_inv cap r0 p steps"
  shows "paging_inv cap r0 (next_page l p) (Suc steps)"
proof -
  obtain m flight finished where log: "pg_log p = (m, flight, finished)" by (metis prod.collapse)
  let ?h = "map snd finished"
  have inv: "log_inv cap (m, flight, finished) steps" using assms log by (simp add: paging_inv_def)
  have "has_read r0 (pg_offset p + of_nat (length (page m (pg_offset p) (Some l))))
          (pg_read p @ page m (pg_offset p) (Some l)) ?h"
    if "set (pg_flights p) \<subseteq> {0}" "fmsize flight = 0" "length ?h \<le> r0 + cap" "Suc steps < 2 ^ 64"
    using log_inv_represents [OF inv that(2)] has_read_page [of m ?h r0 "pg_offset p" "pg_read p" l] assms that log
    by (simp add: paging_inv_def pushed_def)
  with inv log show ?thesis
    by (auto simp: paging_inv_def next_page_def pushed_def process_request)
qed

lemma paging_inv_step:
  assumes "paging_inv cap r0 p steps"
  shows "paging_inv cap r0 (paging_step p op) (Suc steps)"
proof (cases op)
  case (NextPage l)
  with paging_inv_page [OF assms] show ?thesis by simp
next
  case (Recording lop)
  obtain h where h: "pushed (log_step (pg_log p) lop) = pushed (pg_log p) @ h" using pushed_step by blast
  have "log_inv cap (pg_log p) steps" using assms by (simp add: paging_inv_def)
  then have "log_inv cap (log_step (pg_log p) lop) (Suc steps)" by (rule log_inv_step)
  with assms h show ?thesis
    by (auto simp: paging_inv_def Recording intro: has_read_append)
qed

interpretation paging: simulation paging_step "\<lambda>steps op. Suc steps" "paging_inv cap r0" "\<lambda>op. True"
  by unfold_locales (rule paging_inv_step)

definition paging_new :: "nat \<Rightarrow> u64 \<Rightarrow> ('tid, 'id) paging" where
  "paging_new cap off = \<lparr>pg_log = (sync_manager_new cap, fmempty, []), pg_offset = off, pg_read = [], pg_flights = []\<rparr>"

lemma paging_run: "paging_inv cap (unat off) (foldl paging_step (paging_new cap off) ops) (length ops)"
proof -
  have "paging_inv cap (unat off) (paging_new cap off) 0"
    by (simp add: paging_inv_def paging_new_def pushed_def has_read_def sync_manager_new_def)
  moreover have "foldl (\<lambda>steps op. Suc steps) n ops = n + length ops" for n
    by (induction ops arbitrary: n) simp_all
  ultimately show ?thesis
    using paging.sim_run [of cap "unat off" "paging_new cap off" 0 ops] by (simp add: list_all_iff)
qed

text \<open>
  C6. Paging while others record: threads record into a new manager of capacity
  \<open>cap\<close>, their sections interleaved in any way, and a reader that starts at the
  offset \<open>off\<close> requests page after page, of any sizes, each from the offset of the
  last response. If no request was answered while a recording was between its two sections (C28
  shows what happens otherwise), and no more than \<open>cap\<close> changes were pushed beyond
  the start of the reader (with fewer than \<open>2 ^ 64\<close> steps), then what it has read is
  at every moment exactly the changes from its start up to its offset, in the order of their
  pushes, none lost and none repeated; and if no recording is in flight, one more unlimited
  request would give it the rest.
\<close>

theorem paging_while_recording:
  fixes ops :: "'tid paging_op list"
  assumes "foldl paging_step (paging_new cap off) ops = p" "pg_log p = (m, flight, finished)"
    and "\<forall>k \<in> set (pg_flights p). k = 0"
    and "length finished \<le> unat off + cap" "length ops < 2 ^ 64"
  shows "unat off \<le> unat (pg_offset p) \<and> unat (pg_offset p) \<le> max (unat off) (length finished)
     \<and> pg_read p = take (unat (pg_offset p) - unat off) (drop (unat off) (map snd finished))
     \<and> (flight = fmempty \<longrightarrow>
          pg_read p @ get_changes_since m (pg_offset p) = drop (unat off) (map snd finished))"
proof -
  let ?h = "map snd finished" and ?r = "unat (pg_offset p)"
  have inv: "paging_inv cap (unat off) p (length ops)"
    by (subst assms(1) [symmetric]) (rule paging_run)
  then have log: "log_inv cap (m, flight, finished) (length ops)" using assms(2) by (simp add: paging_inv_def)
  have read: "has_read (unat off) (pg_offset p) (pg_read p) ?h"
    using inv assms(2-5) by (auto simp: paging_inv_def pushed_def)
  have "pg_read p @ get_changes_since m (pg_offset p) = drop (unat off) ?h" if "flight = fmempty"
  proof -
    have "represents m ?h" "sm_max_changes m = cap"
      using log_inv_represents [OF log] that assms(5) by simp_all
    moreover have "length ?h - ?r \<le> cap" using read assms(4) unfolding has_read_def length_map by arith
    ultimately have "get_changes_since m (pg_offset p) = drop ?r ?h"
      using sync_log.since_complete [of m ?h "pg_offset p"] by simp
    moreover have "take (?r - unat off) (drop (unat off) ?h) @ drop ?r ?h = drop (unat off) ?h"
      using append_take_drop_id [of "?r - unat off" "drop (unat off) ?h"] read
      by (simp only: drop_drop has_read_def) simp
    ultimately show ?thesis using read by (simp add: has_read_def)
  qed
  with read show ?thesis by (simp add: has_read_def)
qed

theorem paging_while_recording_witness:
  "let c = (\<lambda>k. change_set k 0 ''n'' ''d'' [1] [2]);
       p = (foldl paging_step (paging_new 9 0)
         [Recording (Claim ''s''), Recording (Claim ''t''), Recording (Push ''t'' (c 2)), Recording (Push ''s'' (c 1)),
          NextPage 1, Recording (Claim ''s''), Recording (Push ''s'' (c 3)), NextPage 5] :: (string, nat) paging)
   in pg_flights p = [0, 0] \<and> pg_read p = take (unat (pg_offset p)) [c 2, c 1, c 3]" (is "let c = _; p = ?run c in _")
proof -
  let ?c = "\<lambda>k. change_set k 0 ''n'' ''d'' [1] [2]"
  define p where "p = ?run ?c"
  obtain m where "pg_flights p = [0, 0]" "pg_log p = (m, fmempty, [(1, ?c 2), (0, ?c 1), (2, ?c 3)])"
    by (simp add: p_def paging_new_def next_page_def process_request record_claim_def record_push_def sync_manager_new_def fmap_ext)
  from paging_while_recording [OF p_def [symmetric] this(2)] this(1) show ?thesis
    unfolding Let_def p_def [symmetric] by simp
qed

text \<open>
  The memory store numbers by its length, read before the lock for appending is taken: two
  appends that both read first return the same offset.
\<close>

definition memory_append_push :: "change \<Rightarrow> change list \<Rightarrow> change list" where
  "memory_append_push c s = s @ [c]"

lemma memory_append_sections: "memory_append s c = (Ok (memory_tail_offset s), memory_append_push c s)"
  by (simp add: memory_append_def memory_tail_offset_def memory_append_push_def)

lemma memory_append_same_offset:
  "let off1 = memory_tail_offset s; off2 = memory_tail_offset s; s' = memory_append_push c2 (memory_append_push c1 s)
   in off1 = off2 \<and> (length s < 2 ^ 64 \<longrightarrow> memory_get_since s' off1 = Ok [c1, c2])"
  by (simp add: memory_append_push_def memory_get_since_def memory_tail_offset_def unat_of_nat_u64)

text \<open>
  \<open>SyncManager::snapshot\<close> copies the changes, gives up the lock, and reads the offset
  and the peers afterwards.
\<close>

definition snapshot_changes :: "'id sync_manager \<Rightarrow> change list" where
  "snapshot_changes m = sm_changes m"

definition snapshot_rest ::
  "(string \<times> 'id peer_sync_state) list \<Rightarrow> change list \<Rightarrow> 'id sync_manager \<Rightarrow> sync_snapshot" where
  "snapshot_rest kvs changes m =
     \<lparr>sn_offset = sm_offset m, sn_changes = changes,
      sn_peers = map (\<lambda>(k, p). (k, ps_last_offset p)) kvs\<rparr>"

lemma snapshot_sections: "snapshot kvs m = snapshot_rest kvs (snapshot_changes m) m"
  by (simp add: snapshot_def snapshot_rest_def snapshot_changes_def)

text \<open>
  A change that is recorded between the two is counted in the snapshot and is not in it: the
  restored manager answers a reader that lacks only this change with the one before it.
\<close>

lemma snapshot_counts_unsaved_change:
  assumes "represents m h" "h \<noteq> []" "0 < sm_max_changes m" "length h + 1 < 2 ^ 64"
    and "snd (restore id_from_bytes m2 (snapshot_rest kvs (snapshot_changes m) (snd (record_change m c)))) = m'"
  shows "sm_offset m' = sm_offset m + 1 \<and> sm_changes m' = sm_changes m
     \<and> get_changes_since m' (sm_offset m) = [last h]"
proof -
  have m': "sm_offset m' = sm_offset m + 1" "sm_changes m' = sm_changes m"
    using assms(5) by (auto simp: restore_def snapshot_rest_def snapshot_changes_def split_beta)
  have "\<not> sm_offset m + 1 \<le> sm_offset m"
    using assms(4) represents_tail [OF assms(1)] by (simp add: word_le_nat_alt unat_word_ariths)
  then have "get_changes_since m' (sm_offset m) = last_n 1 (sm_changes m)"
    by (simp add: m' get_changes_since_def last_n_def)
  moreover have "sm_changes m = last_n (sm_max_changes m) h" using assms(1) by (simp add: represents_def)
  ultimately show ?thesis
    using assms(2,3) last_n_1 [OF assms(2)] m' by (simp add: min_def)
qed

end
