(* ===== verification/Concurrent_Store.thy ===== *)
theory Concurrent_Store
  imports Persist "HOL-Library.Multiset"
begin

section \<open>Concurrent calls of one file store\<close>

text \<open>
  A \<open>FileChangeStore\<close> can be cloned and shared. \<open>append\<close> takes its locks
  one after the other: it numbers the change, pushes it into the buffer, and where the buffer is
  full takes the buffer and writes it to the file. Here these are sections, and the calls in
  flight interleave them in any order. What one call does alone is \<open>file_append\<close> and
  \<open>file_flush\<close> of \<open>Persist\<close>.
\<close>

subsection \<open>Sections of append and flush\<close>

definition append_claim :: "disk \<times> file_store \<Rightarrow> u64 \<times> disk \<times> file_store" where
  "append_claim s = (case s of (d, st) \<Rightarrow> (fs_tail st, d, st\<lparr>fs_tail := fs_tail st + 1\<rparr>))"

text \<open>Pushing tells whether the buffer has reached its threshold.\<close>

definition append_push :: "change \<Rightarrow> disk \<times> file_store \<Rightarrow> bool \<times> disk \<times> file_store" where
  "append_push c s =
     (case s of (d, st) \<Rightarrow>
        let st1 = st\<lparr>fs_buffer := fs_buffer st @ [c]\<rparr>
        in (fs_flush_threshold st1 \<le> length (fs_buffer st1), d, st1))"

definition flush_take :: "disk \<times> file_store \<Rightarrow> change list \<times> disk \<times> file_store" where
  "flush_take s = (case s of (d, st) \<Rightarrow> (fs_buffer st, d, st\<lparr>fs_buffer := []\<rparr>))"

definition flush_write ::
  "store_lib \<Rightarrow> change list \<Rightarrow> disk \<times> file_store \<Rightarrow> unit result \<times> disk \<times> file_store" where
  "flush_write lib changes s =
     (case s of (d, st) \<Rightarrow>
        case fs_file st of
          None \<Rightarrow> (Ok (), d, st)
        | Some i \<Rightarrow>
            (case write_records lib i changes d of
               (Ok _, d1) \<Rightarrow>
                 if \<not> dk_sync_ok d1 then
                   (Err (Other (''sync failed (disk full?): '' @ sl_io_text lib SyncFailed
                                @ '' - data may not be durable'')), d1, st)
                 else if fs_index_interval st \<le> length changes then
                   (Ok (), d1, st\<lparr>fs_index := fs_index st
                      @ flushed_entries (fs_index_interval st) (fs_tail st) (length changes)\<rparr>)
                 else (Ok (), d1, st)
             | (r, d1) \<Rightarrow> (r, d1, st)))"

lemma file_flush_sections:
  "file_flush lib s =
     (case flush_take s of (changes, s1) \<Rightarrow> if changes = [] then (Ok (), s1) else flush_write lib changes s1)"
  by (cases s)
     (auto simp: file_flush_def flush_take_def flush_write_def Let_def split: option.split outcome.split prod.split)

lemma file_append_sections:
  "file_append lib s c =
     (case append_claim s of (off, s1) \<Rightarrow>
        case append_push c s1 of (full, s2) \<Rightarrow>
          if full then (case file_flush lib s2 of (r, s3) \<Rightarrow> (and_then r (\<lambda>_. Ok off), s3)) else (Ok off, s2))"
  by (cases s) (auto simp: file_append_def append_claim_def append_push_def Let_def)

subsection \<open>Calls in flight\<close>

text \<open>
  A call in flight has numbered a change, is about to take the buffer, or holds changes it is
  about to write; an append carries its offset. \<open>pushed\<close> are the appended changes
  with their offsets, in the order of the pushes.
\<close>

datatype store_call = Pushing u64 | Taking "u64 option" | Writing "u64 option" "change list"

datatype store_op =
    BeginAppend | BeginFlush | PushChange u64 change | TakeBuffer "u64 option" | WriteOut "u64 option" "change list"

record store_race =
  rc_store :: "disk \<times> file_store"
  rc_flight :: "store_call multiset"
  rc_pushed :: "(u64 \<times> change) list"

fun race_step :: "store_lib \<Rightarrow> store_race \<Rightarrow> store_op \<Rightarrow> store_race" where
  "race_step lib r BeginAppend =
     (case append_claim (rc_store r) of (off, s) \<Rightarrow>
        r\<lparr>rc_store := s, rc_flight := add_mset (Pushing off) (rc_flight r)\<rparr>)"
| "race_step lib r BeginFlush = r\<lparr>rc_flight := add_mset (Taking None) (rc_flight r)\<rparr>"
| "race_step lib r (PushChange off c) =
     (if Pushing off \<in># rc_flight r then
        (case append_push c (rc_store r) of (full, s) \<Rightarrow>
           r\<lparr>rc_store := s,
             rc_flight := rc_flight r - {#Pushing off#} + (if full then {#Taking (Some off)#} else {#}),
             rc_pushed := rc_pushed r @ [(off, c)]\<rparr>)
      else r)"
| "race_step lib r (TakeBuffer off) =
     (if Taking off \<in># rc_flight r then
        (case flush_take (rc_store r) of (changes, s) \<Rightarrow>
           r\<lparr>rc_store := s,
             rc_flight := rc_flight r - {#Taking off#} + (if changes = [] then {#} else {#Writing off changes#})\<rparr>)
      else r)"
| "race_step lib r (WriteOut off changes) =
     (if Writing off changes \<in># rc_flight r then
        r\<lparr>rc_store := snd (flush_write lib changes (rc_store r)),
          rc_flight := rc_flight r - {#Writing off changes#}\<rparr>
      else r)"

text \<open>The offsets that have been given out, and the changes between buffer and file.\<close>

definition claimed :: "store_call multiset \<Rightarrow> u64 multiset" where
  "claimed flight = image_mset (\<lambda>call. case call of Pushing off \<Rightarrow> off | _ \<Rightarrow> 0)
     (filter_mset (\<lambda>call. case call of Pushing off \<Rightarrow> True | _ \<Rightarrow> False) flight)"

definition unwritten :: "store_call multiset \<Rightarrow> change multiset" where
  "unwritten flight = \<Sum>\<^sub># (image_mset (\<lambda>call. case call of Writing off changes \<Rightarrow> mset changes | _ \<Rightarrow> {#}) flight)"

lemma claimed_simps [simp]:
  "claimed {#} = {#}" "claimed (add_mset (Pushing off) F) = add_mset off (claimed F)"
  "claimed (add_mset (Taking o1) F) = claimed F" "claimed (add_mset (Writing o1 cs) F) = claimed F"
  by (simp_all add: claimed_def)

lemma unwritten_simps [simp]:
  "unwritten {#} = {#}" "unwritten (add_mset (Pushing off) F) = unwritten F"
  "unwritten (add_mset (Taking o1) F) = unwritten F"
  "unwritten (add_mset (Writing o1 cs) F) = mset cs + unwritten F"
  by (simp_all add: unwritten_def)

text \<open>
  The file holds what has been written, in some order; together with the buffer and the changes in
  flight that is what was pushed. The offsets given out are the first ones.
\<close>

definition store_open :: "disk \<Rightarrow> file_store \<Rightarrow> nat \<Rightarrow> bool" where
  "store_open d st i \<longleftrightarrow>
     dk_names d log_name = Some i \<and> fs_file st = Some i \<and> dk_room d = None \<and> dk_sync_ok d \<and> dk_open_ok d"

definition race_inv :: "store_lib \<Rightarrow> store_race \<Rightarrow> bool" where
  "race_inv lib r \<longleftrightarrow>
     (\<exists>d st i w. rc_store r = (d, st) \<and> store_open d st i
        \<and> dk_data d i = log_header @ log_bytes lib w
        \<and> (\<forall>c \<in> snd ` set (rc_pushed r). record_ok lib c)
        \<and> mset w + unwritten (rc_flight r) + mset (fs_buffer st) = mset (map snd (rc_pushed r))
        \<and> fs_tail st = of_nat (length (rc_pushed r) + size (claimed (rc_flight r)))
        \<and> mset (map fst (rc_pushed r)) + claimed (rc_flight r)
            = mset (map of_nat [0 ..< length (rc_pushed r) + size (claimed (rc_flight r))]))"

lemma race_invI:
  assumes "rc_store r = (d, st)" "store_open d st i" "dk_data d i = log_header @ log_bytes lib w"
    and "\<forall>c \<in> snd ` set (rc_pushed r). record_ok lib c"
    and "mset w + unwritten (rc_flight r) + mset (fs_buffer st) = mset (map snd (rc_pushed r))"
    and "n = length (rc_pushed r) + size (claimed (rc_flight r))" "fs_tail st = of_nat n"
    and "mset (map fst (rc_pushed r)) + claimed (rc_flight r) = mset (map of_nat [0 ..< n])"
  shows "race_inv lib r"
  using assms unfolding race_inv_def by blast

lemma race_invE:
  assumes "race_inv lib r"
  obtains d st i w n where "rc_store r = (d, st)" "store_open d st i" "dk_data d i = log_header @ log_bytes lib w"
    "\<forall>c \<in> snd ` set (rc_pushed r). record_ok lib c"
    "mset w + unwritten (rc_flight r) + mset (fs_buffer st) = mset (map snd (rc_pushed r))"
    "n = length (rc_pushed r) + size (claimed (rc_flight r))" "fs_tail st = of_nat n"
    "mset (map fst (rc_pushed r)) + claimed (rc_flight r) = mset (map of_nat [0 ..< n])"
  using assms unfolding race_inv_def by blast

lemma race_begin: "race_inv lib r \<Longrightarrow> race_inv lib (race_step lib r BeginAppend)"
proof (erule race_invE)
  fix d st i w n
  assume inv: "rc_store r = (d, st)" "store_open d st i" "dk_data d i = log_header @ log_bytes lib w"
    "\<forall>c \<in> snd ` set (rc_pushed r). record_ok lib c"
    "mset w + unwritten (rc_flight r) + mset (fs_buffer st) = mset (map snd (rc_pushed r))"
    "n = length (rc_pushed r) + size (claimed (rc_flight r))" "fs_tail st = of_nat n"
    "mset (map fst (rc_pushed r)) + claimed (rc_flight r) = mset (map of_nat [0 ..< n])"
  show ?thesis
    by (rule race_invI [of _ d "st\<lparr>fs_tail := fs_tail st + 1\<rparr>" i lib w "Suc n"])
       (use inv in \<open>simp_all add: append_claim_def store_open_def\<close>)
qed

lemma race_push:
  assumes "race_inv lib r" "record_ok lib c"
  shows "race_inv lib (race_step lib r (PushChange off c))"
proof (cases "Pushing off \<in># rc_flight r")
  case True
  then obtain F where F: "rc_flight r = add_mset (Pushing off) F" by (metis multi_member_split)
  from assms(1) show ?thesis
  proof (rule race_invE)
    fix d st i w n
    assume inv: "rc_store r = (d, st)" "store_open d st i" "dk_data d i = log_header @ log_bytes lib w"
      "\<forall>c \<in> snd ` set (rc_pushed r). record_ok lib c"
      "mset w + unwritten (rc_flight r) + mset (fs_buffer st) = mset (map snd (rc_pushed r))"
      "n = length (rc_pushed r) + size (claimed (rc_flight r))" "fs_tail st = of_nat n"
      "mset (map fst (rc_pushed r)) + claimed (rc_flight r) = mset (map of_nat [0 ..< n])"
    show ?thesis
      by (rule race_invI [of _ d "st\<lparr>fs_buffer := fs_buffer st @ [c]\<rparr>" i lib w n])
         (use inv F assms(2) in \<open>simp_all add: append_push_def store_open_def Let_def\<close>)
  qed
qed (use assms in simp)

lemma race_take: "race_inv lib r \<Longrightarrow> race_inv lib (race_step lib r (TakeBuffer off))"
proof (cases "Taking off \<in># rc_flight r")
  case True
  assume "race_inv lib r"
  obtain F where F: "rc_flight r = add_mset (Taking off) F" using True by (metis multi_member_split)
  from \<open>race_inv lib r\<close> show ?thesis
  proof (rule race_invE)
    fix d st i w n
    assume inv: "rc_store r = (d, st)" "store_open d st i" "dk_data d i = log_header @ log_bytes lib w"
      "\<forall>c \<in> snd ` set (rc_pushed r). record_ok lib c"
      "mset w + unwritten (rc_flight r) + mset (fs_buffer st) = mset (map snd (rc_pushed r))"
      "n = length (rc_pushed r) + size (claimed (rc_flight r))" "fs_tail st = of_nat n"
      "mset (map fst (rc_pushed r)) + claimed (rc_flight r) = mset (map of_nat [0 ..< n])"
    show ?thesis
      by (rule race_invI [of _ d "st\<lparr>fs_buffer := []\<rparr>" i lib w n])
         (use inv F in \<open>auto simp: flush_take_def store_open_def ac_simps\<close>)
  qed
qed simp

lemma flush_write_open:
  assumes "store_open d st i" "list_all (record_ok lib) changes"
  shows "\<exists>index. flush_write lib changes (d, st)
      = (Ok (), disk_put i (dk_data d i @ log_bytes lib changes) d, st\<lparr>fs_index := index\<rparr>)"
proof -
  have "\<exists>index. st = st\<lparr>fs_index := index\<rparr>" by (rule exI [of _ "fs_index st"]) simp
  then show ?thesis
    using assms by (auto simp: flush_write_def store_open_def write_records_room)
qed

lemma race_write: "race_inv lib r \<Longrightarrow> race_inv lib (race_step lib r (WriteOut off changes))"
proof (cases "Writing off changes \<in># rc_flight r")
  case True
  assume "race_inv lib r"
  obtain F where F: "rc_flight r = add_mset (Writing off changes) F" using True by (metis multi_member_split)
  from \<open>race_inv lib r\<close> show ?thesis
  proof (rule race_invE)
    fix d st i w n
    assume inv: "rc_store r = (d, st)" "store_open d st i" "dk_data d i = log_header @ log_bytes lib w"
      "\<forall>c \<in> snd ` set (rc_pushed r). record_ok lib c"
      "mset w + unwritten (rc_flight r) + mset (fs_buffer st) = mset (map snd (rc_pushed r))"
      "n = length (rc_pushed r) + size (claimed (rc_flight r))" "fs_tail st = of_nat n"
      "mset (map fst (rc_pushed r)) + claimed (rc_flight r) = mset (map of_nat [0 ..< n])"
    have "mset changes \<subseteq># mset (map snd (rc_pushed r))"
      unfolding inv(5) [symmetric] F by (simp add: subset_mset.add_increasing2 subset_mset.add_increasing)
    then have "set changes \<subseteq> snd ` set (rc_pushed r)"
      using set_mset_mono by fastforce
    then have "list_all (record_ok lib) changes" using inv(4) by (auto simp: list_all_iff)
    from flush_write_open [OF inv(2) this] obtain index where
      "flush_write lib changes (d, st)
         = (Ok (), disk_put i (dk_data d i @ log_bytes lib changes) d, st\<lparr>fs_index := index\<rparr>)" by blast
    then show ?thesis
      by (intro race_invI [of _ "disk_put i (dk_data d i @ log_bytes lib changes) d" "st\<lparr>fs_index := index\<rparr>" i lib "w @ changes" n])
         (use inv F in \<open>simp_all add: store_open_def ac_simps\<close>)
  qed
qed simp

fun storable :: "store_lib \<Rightarrow> store_op \<Rightarrow> bool" where
  "storable lib (PushChange off c) = record_ok lib c"
| "storable lib op = True"

interpretation store_races: machine "race_step lib" "race_inv lib" "storable lib"
proof (unfold_locales, goal_cases)
  case (1 r op)
  then show ?case
  proof (cases op)
    case BeginFlush
    with 1 show ?thesis by (simp add: race_inv_def)
  qed (simp_all only: race_begin race_push race_take race_write storable.simps)
qed

subsection \<open>Properties\<close>

text \<open>Reading from the start returns the whole file, whatever the index says.\<close>

lemma read_loop_all:
  "list_all (record_ok lib) cs \<Longrightarrow> read_loop lib 0 cur (log_bytes lib cs) acc = Ok (acc @ cs)"
proof (induction cs arbitrary: cur acc)
  case (Cons c cs)
  then have "read_loop lib 0 cur (log_bytes lib (c # cs)) acc = read_loop lib 0 (cur + 1) (log_bytes lib cs) (acc @ [c])"
    by (subst read_loop.simps) (simp add: next_record_put record_okD)
  with Cons show ?case by simp
qed simp

text \<open>A fresh store that flushes at every change.\<close>

definition eager_store :: "disk \<times> file_store" where
  "eager_store = (log_disk log_header,
     \<lparr>fs_tail = 0, fs_file = Some 0, fs_buffer = [], fs_flush_threshold = 1, fs_index = [], fs_index_interval = 1000\<rparr>)"

lemma eager_store_holds: "file_holds one_lib eager_store []"
  by (simp add: eager_store_def file_holds_def log_disk_def empty_disk_def)

text \<open>
  C16. Concurrent appends and flushes of one log file lose nothing and write nothing twice: on a
  disk with room, from an empty log on, for fewer than \<open>2 ^ 64\<close> changes that bincode
  reads back and that fit a record, when no call is in flight and the store is flushed,
  \<open>get_since 0\<close> returns a rearrangement of the appended changes, and the calls
  returned the offsets \<open>0 \<dots> n - 1\<close>, each once.
\<close>

theorem concurrent_appends_conserve:
  assumes "file_holds lib s0 []" "list_all (storable lib) ops" "length (rc_pushed r) < 2 ^ 64"
    and "foldl (race_step lib) \<lparr>rc_store = s0, rc_flight = {#}, rc_pushed = []\<rparr> ops = r" "rc_flight r = {#}"
  shows "\<exists>w. file_get_since lib (snd (file_flush lib (rc_store r))) 0 = Ok w
     \<and> mset w = mset (map snd (rc_pushed r))
     \<and> distinct (map fst (rc_pushed r)) \<and> set (map fst (rc_pushed r)) = of_nat ` {..< length (rc_pushed r)}"
proof -
  have "race_inv lib \<lparr>rc_store = s0, rc_flight = {#}, rc_pushed = []\<rparr>"
    using assms(1) unfolding race_inv_def file_holds_def store_open_def
    by (cases s0) (fastforce split: option.splits)
  from store_races.inv_run [OF this assms(2)] have "race_inv lib r" using assms(4) by simp
  then show ?thesis
  proof (rule race_invE)
    fix d st i w n
    assume inv: "rc_store r = (d, st)" "store_open d st i" "dk_data d i = log_header @ log_bytes lib w"
      "\<forall>c \<in> snd ` set (rc_pushed r). record_ok lib c"
      "mset w + unwritten (rc_flight r) + mset (fs_buffer st) = mset (map snd (rc_pushed r))"
      "n = length (rc_pushed r) + size (claimed (rc_flight r))" "fs_tail st = of_nat n"
      "mset (map fst (rc_pushed r)) + claimed (rc_flight r) = mset (map of_nat [0 ..< n])"
    have all: "mset (w @ fs_buffer st) = mset (map snd (rc_pushed r))" using inv(5) assms(5) by simp
    then have "set (w @ fs_buffer st) = snd ` set (rc_pushed r)" by (metis set_map set_mset_mset)
    with inv(4) have ok: "list_all (record_ok lib) (w @ fs_buffer st)"
      unfolding list_all_iff by blast
    then have buf: "list_all (record_ok lib) (fs_buffer st)" by simp
    obtain d' st' where fl: "snd (file_flush lib (d, st)) = (d', st')" "store_open d' st' i"
        "dk_data d' i = log_header @ log_bytes lib (w @ fs_buffer st)"
      using flush_write_open [of d "st\<lparr>fs_buffer := []\<rparr>" i lib "fs_buffer st"] inv(2,3) buf
      by (cases "fs_buffer st = []") (auto simp: file_flush_sections flush_take_def store_open_def)
    then have "file_get_since lib (d', st') 0 = Ok (w @ fs_buffer st)"
      using get_since_read_loop [of d' i "log_bytes lib (w @ fs_buffer st)" st' 0 lib] read_loop_all [OF ok]
      by (simp add: store_open_def)
    moreover have offs: "mset (map fst (rc_pushed r)) = mset (map of_nat [0 ..< length (rc_pushed r)])"
      using inv(6,8) assms(5) by simp
    moreover have "inj_on (of_nat :: nat \<Rightarrow> u64) {0 ..< length (rc_pushed r)}"
      by (rule inj_on_subset [OF of_nat_u64_inj]) (use assms(3) in auto)
    then have "distinct (map (of_nat :: nat \<Rightarrow> u64) [0 ..< length (rc_pushed r)])" by (simp add: distinct_map)
    then have "distinct (map fst (rc_pushed r))"
      using mset_eq_imp_distinct_iff [OF offs] by blast
    moreover have "set (map fst (rc_pushed r)) = of_nat ` {..< length (rc_pushed r)}"
      using mset_eq_setD [OF offs] by (simp add: atLeast0LessThan)
    ultimately show ?thesis using all inv(1) fl(1) by (intro exI [of _ "w @ fs_buffer st"]) simp
  qed
qed

theorem concurrent_appends_conserve_witness:
  "let r = foldl (race_step one_lib) \<lparr>rc_store = eager_store, rc_flight = {#}, rc_pushed = []\<rparr>
       [BeginAppend, BeginAppend, PushChange 1 one_change, PushChange 0 one_change,
        TakeBuffer (Some 1), TakeBuffer (Some 0), WriteOut (Some 1) [one_change, one_change]]
   in \<exists>w. file_get_since one_lib (snd (file_flush one_lib (rc_store r))) 0 = Ok w
        \<and> mset w = {#one_change, one_change#}"
proof -
  let ?ops = "[BeginAppend, BeginAppend, PushChange 1 one_change, PushChange 0 one_change,
        TakeBuffer (Some 1), TakeBuffer (Some 0), WriteOut (Some 1) [one_change, one_change]]"
  let ?r = "foldl (race_step one_lib) \<lparr>rc_store = eager_store, rc_flight = {#}, rc_pushed = []\<rparr> ?ops"
  have r: "rc_pushed ?r = [(1, one_change), (0, one_change)]" "rc_flight ?r = {#}"
    by (simp_all add: eager_store_def append_claim_def append_push_def flush_take_def)
  have ops: "list_all (storable one_lib) ?ops" by simp
  have len: "length (rc_pushed ?r) < 2 ^ 64" unfolding r by simp
  obtain w where "file_get_since one_lib (snd (file_flush one_lib (rc_store ?r))) 0 = Ok w"
      "mset w = mset (map snd (rc_pushed ?r))"
    using concurrent_appends_conserve [OF eager_store_holds ops len refl r(2)] by blast
  moreover have "mset (map snd (rc_pushed ?r)) = {#one_change, one_change#}" unfolding r by simp
  ultimately show ?thesis unfolding Let_def by metis
qed

text \<open>
  C17. The offsets of concurrent appends say nothing about the log: where every append flushes (a
  threshold of at most 1), from an empty log on and for changes that bincode reads back and that
  fit a record, two overlapping appends that numbered and pushed their changes in order, and
  returned the offsets 0 and 1, can leave a file in which the second change comes first.
\<close>

theorem concurrent_appends_reorder:
  assumes "file_holds lib (d, st) []" "fs_flush_threshold st \<le> 1" "record_ok lib c1" "record_ok lib c2"
  shows "let r = foldl (race_step lib) \<lparr>rc_store = (d, st), rc_flight = {#}, rc_pushed = []\<rparr>
       [BeginAppend, PushChange 0 c1, TakeBuffer (Some 0), BeginAppend, PushChange 1 c2, TakeBuffer (Some 1),
        WriteOut (Some 1) [c2], WriteOut (Some 0) [c1]]
     in rc_pushed r = [(0, c1), (1, c2)] \<and> rc_flight r = {#}
        \<and> file_get_since lib (rc_store r) 0 = Ok [c2, c1]"
proof -
  obtain i where st: "store_open d st i" "dk_data d i = log_header" "fs_tail st = 0" "fs_buffer st = []"
    using assms(1) unfolding file_holds_def store_open_def by (fastforce split: option.splits)
  let ?st2 = "st\<lparr>fs_tail := 2, fs_buffer := []\<rparr>"
  have open2: "store_open d ?st2 i" using st(1) by (simp add: store_open_def)
  have ok: "list_all (record_ok lib) [c1]" "list_all (record_ok lib) [c2]" using assms(3,4) by simp_all
  obtain index1 where w1: "flush_write lib [c2] (d, ?st2)
      = (Ok (), disk_put i (log_header @ log_bytes lib [c2]) d, ?st2\<lparr>fs_index := index1\<rparr>)"
    using flush_write_open [OF open2 ok(2)] st(2) by auto
  let ?d1 = "disk_put i (log_header @ log_bytes lib [c2]) d"
  have open3: "store_open ?d1 (?st2\<lparr>fs_index := index1\<rparr>) i" using open2 by (simp add: store_open_def)
  obtain index2 where w2: "flush_write lib [c1] (?d1, ?st2\<lparr>fs_index := index1\<rparr>)
      = (Ok (), disk_put i (log_header @ log_bytes lib [c2, c1]) ?d1, ?st2\<lparr>fs_index := index2\<rparr>)"
    using flush_write_open [OF open3 ok(1)] by auto
  let ?d2 = "disk_put i (log_header @ log_bytes lib [c2, c1]) ?d1"
  have "file_get_since lib (?d2, ?st2\<lparr>fs_index := index2\<rparr>) 0 = Ok [c2, c1]"
    using get_since_read_loop [of ?d2 i "log_bytes lib [c2, c1]" "?st2\<lparr>fs_index := index2\<rparr>" 0 lib]
      read_loop_all [of lib "[c2, c1]"] assms(3,4) st(1) by (simp add: store_open_def)
  then show ?thesis
    using st assms(2) w1 w2 by (simp add: append_claim_def append_push_def flush_take_def Let_def)
qed

theorem concurrent_appends_reorder_witness:
  "let r = foldl (race_step one_lib) \<lparr>rc_store = eager_store, rc_flight = {#}, rc_pushed = []\<rparr>
       [BeginAppend, PushChange 0 one_change, TakeBuffer (Some 0), BeginAppend, PushChange 1 one_change,
        TakeBuffer (Some 1), WriteOut (Some 1) [one_change], WriteOut (Some 0) [one_change]]
   in rc_flight r = {#} \<and> file_get_since one_lib (rc_store r) 0 = Ok [one_change, one_change]"
proof -
  obtain d st where eager: "eager_store = (d, st)" by force
  then have "fs_flush_threshold st \<le> 1" by (auto simp: eager_store_def)
  from concurrent_appends_reorder [OF eager_store_holds [unfolded eager] this one_lib_ok(1) one_lib_ok(1)]
  show ?thesis unfolding eager Let_def by (elim conjE) (intro conjI)
qed

end
