(* ===== verification/Concurrent_Batch.thy ===== *)
theory Concurrent_Batch
  imports Batch "HOL-Library.Multiset"
begin

section \<open>Concurrent calls of one batcher\<close>

text \<open>
  A \<open>ChangeBatcher\<close> is shared by the threads that add changes and by its flush task.
  Its calls are split here at the locks of \<open>batch.rs\<close>: marking the start of the
  batch, pushing the change, looking at the size, taking the pending changes, numbering the batch,
  and handing it to the channel, which may refuse it. Any number of calls interleave these
  sections, and a receiver takes batches out of the channel meanwhile. A batch that the channel
  refuses is dropped by the code.
\<close>

subsection \<open>Sections of \<open>flush\<close>\<close>

definition take_pending :: "'ch batcher \<Rightarrow> change list \<times> 'ch batcher" where
  "take_pending b =
     (if bt_pending b = [] then ([], b) else (bt_pending b, b\<lparr>bt_pending := [], bt_start := None\<rparr>))"

definition next_sequence :: "'ch batcher \<Rightarrow> u64 \<times> 'ch batcher" where
  "next_sequence b = (let seq = bt_sequence b + 1 in (seq, b\<lparr>bt_sequence := seq\<rparr>))"

definition hand_over :: "'ch try_send \<Rightarrow> nat \<Rightarrow> u64 \<Rightarrow> change list \<Rightarrow> 'ch batcher \<Rightarrow> bool \<times> 'ch batcher" where
  "hand_over try_send now seq cs b =
     (let (sent, ch) = try_send (bt_channel b) (tx_batch_new now cs seq) in (sent, b\<lparr>bt_channel := ch\<rparr>))"

text \<open>A call that nobody interrupts is \<open>flush\<close>, or \<open>add\<close> with batching disabled.\<close>

lemma send_sections:
  "send_batch try_send now cs b =
     (let (seq, b1) = next_sequence b in hand_over try_send now seq cs b1)"
  by (simp add: send_batch_def next_sequence_def hand_over_def Let_def split_beta)

lemma flush_sections:
  "batcher_flush try_send now b =
     (let (cs, b1) = take_pending b
      in if cs = [] then (False, b1)
         else let (seq, b2) = next_sequence b1 in hand_over try_send now seq cs b2)"
  by (simp add: batcher_flush_def take_pending_def send_sections)

definition size_reached :: "'ch batcher \<Rightarrow> bool" where
  "size_reached b \<longleftrightarrow> bc_max_batch_size (bt_config b) \<le> length (bt_pending b)"

definition age_reached :: "nat \<Rightarrow> 'ch batcher \<Rightarrow> bool" where
  "age_reached now b \<longleftrightarrow>
     (case bt_start b of
        Some start \<Rightarrow> bc_max_batch_age (bt_config b) \<le> now - start \<and> 0 < pending_count b
      | None \<Rightarrow> False)"

lemma check_flush_sections:
  "check_flush try_send now b = (if size_reached b then batcher_flush try_send now b else (False, b))"
  by (simp add: check_flush_def size_reached_def)

lemma age_tick_sections:
  "age_tick try_send now b = (if age_reached now b then snd (batcher_flush try_send now b) else b)"
  by (simp add: age_tick_def age_reached_def)

subsection \<open>Calls in flight\<close>

text \<open>
  Where a call stands: an addition has marked the start, or has pushed its change; a flush is to
  take the pending changes, has taken them, or has numbered them. \<open>cr_pushed\<close> are the
  changes in the order of their pushes, \<open>cr_taken\<close> the lists that were taken,
  \<open>cr_refused\<close> the batches that the channel did not accept.
\<close>

datatype batch_call =
    Marked change | Checking | Flushing | Taken "change list" | Counted u64 "change list"

datatype batch_event =
    BeginAdd nat change | PushAdd change | CheckSize | CheckAge nat | BeginFlush | TakePending
  | CountBatch "change list" | SendBatch nat u64 "change list" | ReceiveBatch
  | RestartTask | StartFlushTask | EndFlushTask | StopFlushTask bool

record 'ch batch_race =
  cr_batcher :: "'ch batcher"
  cr_flight :: "batch_call multiset"
  cr_pushed :: "change list"
  cr_taken :: "change list list"
  cr_refused :: "tx_batch list"

definition race_new :: "batch_config \<Rightarrow> 'ch \<Rightarrow> 'ch batch_race" where
  "race_new config ch =
     \<lparr>cr_batcher = batcher_new config ch, cr_flight = {#}, cr_pushed = [], cr_taken = [], cr_refused = []\<rparr>"

definition on_batcher :: "('ch batcher \<Rightarrow> 'ch batcher) \<Rightarrow> 'ch batch_race \<Rightarrow> 'ch batch_race" where
  "on_batcher f r = r\<lparr>cr_batcher := f (cr_batcher r)\<rparr>"

fun race_step :: "'ch try_send \<Rightarrow> ('ch \<Rightarrow> 'ch) \<Rightarrow> 'ch batch_race \<Rightarrow> batch_event \<Rightarrow> 'ch batch_race" where
  "race_step try_send recv r (BeginAdd now c) =
     (if bc_enabled (bt_config (cr_batcher r)) then
        (on_batcher (add_mark now) r)\<lparr>cr_flight := add_mset (Marked c) (cr_flight r)\<rparr>
      else r\<lparr>cr_flight := add_mset (Taken [c]) (cr_flight r), cr_pushed := cr_pushed r @ [c],
             cr_taken := cr_taken r @ [[c]]\<rparr>)"
| "race_step try_send recv r (PushAdd c) =
     (if Marked c \<in># cr_flight r then
        (on_batcher (add_push c) r)
          \<lparr>cr_flight := add_mset Checking (cr_flight r - {#Marked c#}), cr_pushed := cr_pushed r @ [c]\<rparr>
      else r)"
| "race_step try_send recv r CheckSize =
     (if Checking \<in># cr_flight r then
        r\<lparr>cr_flight := (if size_reached (cr_batcher r) then add_mset Flushing (cr_flight r - {#Checking#})
                        else cr_flight r - {#Checking#})\<rparr>
      else r)"
| "race_step try_send recv r (CheckAge now) =
     (if age_reached now (cr_batcher r) then r\<lparr>cr_flight := add_mset Flushing (cr_flight r)\<rparr> else r)"
| "race_step try_send recv r BeginFlush = r\<lparr>cr_flight := add_mset Flushing (cr_flight r)\<rparr>"
| "race_step try_send recv r TakePending =
     (if Flushing \<in># cr_flight r then
        let (cs, b) = take_pending (cr_batcher r); F = cr_flight r - {#Flushing#}
        in if cs = [] then r\<lparr>cr_flight := F\<rparr>
           else r\<lparr>cr_batcher := b, cr_flight := add_mset (Taken cs) F, cr_taken := cr_taken r @ [cs]\<rparr>
      else r)"
| "race_step try_send recv r (CountBatch cs) =
     (if Taken cs \<in># cr_flight r then
        let (seq, b) = next_sequence (cr_batcher r)
        in r\<lparr>cr_batcher := b, cr_flight := add_mset (Counted seq cs) (cr_flight r - {#Taken cs#})\<rparr>
      else r)"
| "race_step try_send recv r (SendBatch now seq cs) =
     (if Counted seq cs \<in># cr_flight r then
        let (sent, b) = hand_over try_send now seq cs (cr_batcher r)
        in r\<lparr>cr_batcher := b, cr_flight := cr_flight r - {#Counted seq cs#},
             cr_refused := (if sent then cr_refused r else cr_refused r @ [tx_batch_new now cs seq])\<rparr>
      else r)"
| "race_step try_send recv r ReceiveBatch = on_batcher (\<lambda>b. b\<lparr>bt_channel := recv (bt_channel b)\<rparr>) r"
| "race_step try_send recv r RestartTask = on_batcher try_restart_task r"
| "race_step try_send recv r StartFlushTask = on_batcher start_background_flush_task r"
| "race_step try_send recv r EndFlushTask = on_batcher task_exit r"
| "race_step try_send recv r (StopFlushTask panicked) = on_batcher (batcher_shutdown panicked) r"

subsection \<open>What is conserved\<close>

definition marked :: "batch_call multiset \<Rightarrow> change multiset" where
  "marked F = \<Sum>\<^sub># (image_mset (\<lambda>call. case call of Marked c \<Rightarrow> {#c#} | _ \<Rightarrow> {#}) F)"

definition carried :: "batch_call multiset \<Rightarrow> change list multiset" where
  "carried F = \<Sum>\<^sub># (image_mset (\<lambda>call. case call of Taken cs \<Rightarrow> {#cs#} | Counted seq cs \<Rightarrow> {#cs#} | _ \<Rightarrow> {#}) F)"

definition counted :: "batch_call multiset \<Rightarrow> u64 multiset" where
  "counted F = \<Sum>\<^sub># (image_mset (\<lambda>call. case call of Counted seq cs \<Rightarrow> {#seq#} | _ \<Rightarrow> {#}) F)"

lemma call_simps [simp]:
  "marked {#} = {#}" "marked (add_mset (Marked c) F) = add_mset c (marked F)"
  "marked (add_mset Checking F) = marked F" "marked (add_mset Flushing F) = marked F"
  "marked (add_mset (Taken cs) F) = marked F" "marked (add_mset (Counted seq cs) F) = marked F"
  "carried {#} = {#}" "carried (add_mset (Marked c) F) = carried F"
  "carried (add_mset Checking F) = carried F" "carried (add_mset Flushing F) = carried F"
  "carried (add_mset (Taken cs) F) = add_mset cs (carried F)"
  "carried (add_mset (Counted seq cs) F) = add_mset cs (carried F)"
  "counted {#} = {#}" "counted (add_mset (Marked c) F) = counted F"
  "counted (add_mset Checking F) = counted F" "counted (add_mset Flushing F) = counted F"
  "counted (add_mset (Taken cs) F) = counted F" "counted (add_mset (Counted seq cs) F) = add_mset seq (counted F)"
  by (simp_all add: marked_def carried_def counted_def)

fun adds_begun :: "batch_event list \<Rightarrow> change list" where
  "adds_begun [] = []"
| "adds_begun (BeginAdd now c # ops) = c # adds_begun ops"
| "adds_begun (op # ops) = adds_begun ops"

lemma adds_begun_append: "adds_begun (xs @ ys) = adds_begun xs @ adds_begun ys"
  by (induction xs rule: adds_begun.induct) simp_all

definition race_inv :: "('ch \<Rightarrow> tx_batch list) \<Rightarrow> 'ch batch_race \<Rightarrow> change list \<Rightarrow> bool" where
  "race_inv contents r cs \<longleftrightarrow>
     concat (cr_taken r) @ bt_pending (cr_batcher r) = cr_pushed r
     \<and> mset (cr_pushed r) + marked (cr_flight r) = mset cs
     \<and> mset (map tb_changes (contents (bt_channel (cr_batcher r)) @ cr_refused r)) + carried (cr_flight r)
         = mset (cr_taken r)
     \<and> (\<exists>n. bt_sequence (cr_batcher r) = of_nat n
          \<and> mset (map tb_sequence (contents (bt_channel (cr_batcher r)) @ cr_refused r)) + counted (cr_flight r)
            = mset (map of_nat [1 ..< Suc n]))
     \<and> [] \<notin> set (cr_taken r)
     \<and> (bc_enabled (bt_config (cr_batcher r)) \<or> bt_pending (cr_batcher r) = [] \<and> marked (cr_flight r) = {#})"

lemma race_inv_new: "contents ch = [] \<Longrightarrow> race_inv contents (race_new config ch) []"
  by (auto simp: race_inv_def race_new_def batcher_new_def intro: exI [of _ 0])

text \<open>A step that touches neither the changes nor the numbers keeps the invariant.\<close>

lemma race_inv_flags:
  assumes "race_inv contents r cs"
    and "bt_pending (f (cr_batcher r)) = bt_pending (cr_batcher r)" "bt_config (f (cr_batcher r)) = bt_config (cr_batcher r)"
    and "bt_sequence (f (cr_batcher r)) = bt_sequence (cr_batcher r)"
    and "contents (bt_channel (f (cr_batcher r))) = contents (bt_channel (cr_batcher r))"
  shows "race_inv contents (on_batcher f r) cs"
  using assms by (simp add: race_inv_def on_batcher_def)

lemma race_inv_add:
  assumes "race_inv contents r cs"
  shows "race_inv contents (race_step try_send recv r (BeginAdd now c)) (cs @ [c])"
  using assms by (cases "bc_enabled (bt_config (cr_batcher r))") (auto simp: race_inv_def on_batcher_def add_mark_def)

lemma race_inv_push:
  assumes "race_inv contents r cs"
  shows "race_inv contents (race_step try_send recv r (PushAdd c)) cs"
proof (cases "Marked c \<in># cr_flight r")
  case True
  then obtain F where "cr_flight r = add_mset (Marked c) F" by (metis multi_member_split)
  with assms show ?thesis
    by (auto simp: race_inv_def on_batcher_def add_push_def simp flip: append_assoc)
qed (use assms in simp)

lemma race_inv_take:
  assumes "race_inv contents r cs"
  shows "race_inv contents (race_step try_send recv r TakePending) cs"
proof (cases "Flushing \<in># cr_flight r")
  case True
  then obtain F where "cr_flight r = add_mset Flushing F" by (metis multi_member_split)
  with assms show ?thesis by (auto simp: race_inv_def take_pending_def)
qed (use assms in simp)

lemma race_inv_count:
  assumes "race_inv contents r cs"
  shows "race_inv contents (race_step try_send recv r (CountBatch chs)) cs"
proof (cases "Taken chs \<in># cr_flight r")
  case True
  then obtain F where F: "cr_flight r = add_mset (Taken chs) F" by (metis multi_member_split)
  obtain n where n: "bt_sequence (cr_batcher r) = of_nat n"
      "mset (map tb_sequence (contents (bt_channel (cr_batcher r)) @ cr_refused r)) + counted (cr_flight r)
         = mset (map of_nat [1 ..< Suc n])"
    using assms by (auto simp: race_inv_def)
  then have "\<exists>n'. bt_sequence (cr_batcher r) + 1 = of_nat n'
      \<and> mset (map tb_sequence (contents (bt_channel (cr_batcher r)) @ cr_refused r))
          + add_mset (bt_sequence (cr_batcher r) + 1) (counted F) = mset (map of_nat [1 ..< Suc n'])"
    using F by (intro exI [of _ "Suc n"]) (simp add: add.commute)
  with assms F show ?thesis by (simp add: race_inv_def next_sequence_def Let_def)
qed (use assms in simp)

lemma race_inv_send:
  assumes "race_inv contents r cs" "fifo_channel try_send contents"
  shows "race_inv contents (race_step try_send recv r (SendBatch now seq chs)) cs"
proof (cases "Counted seq chs \<in># cr_flight r")
  case True
  then obtain F where F: "cr_flight r = add_mset (Counted seq chs) F" by (metis multi_member_split)
  let ?x = "tx_batch_new now chs seq"
  obtain sent ch' where s: "try_send (bt_channel (cr_batcher r)) ?x = (sent, ch')" by force
  then have "contents ch' = (if sent then contents (bt_channel (cr_batcher r)) @ [?x] else contents (bt_channel (cr_batcher r)))"
    using assms(2) unfolding fifo_channel_def by (metis fst_conv snd_conv)
  with assms(1) F s show ?thesis
    by (auto simp: race_inv_def hand_over_def tx_batch_new_def)
qed (use assms in simp)

lemma race_inv_step:
  assumes "race_inv contents r cs" "fifo_channel try_send contents" "\<And>ch. contents (recv ch) = contents ch"
  shows "race_inv contents (race_step try_send recv r op) (cs @ adds_begun [op])"
proof (cases op)
  case CheckSize
  show ?thesis
  proof (cases "Checking \<in># cr_flight r")
    case True
    then obtain F where "cr_flight r = add_mset Checking F" by (metis multi_member_split)
    with assms CheckSize show ?thesis by (auto simp: race_inv_def)
  qed (use assms CheckSize in simp)
next
  case (BeginAdd now c)
  with race_inv_add [OF assms(1)] show ?thesis by simp
next
  case (PushAdd c)
  with race_inv_push [OF assms(1)] show ?thesis by simp
next
  case TakePending
  with race_inv_take [OF assms(1)] show ?thesis by simp
next
  case (CountBatch chs)
  with race_inv_count [OF assms(1)] show ?thesis by simp
next
  case (SendBatch now seq chs)
  with race_inv_send [OF assms(1,2)] show ?thesis by simp
next
  case (CheckAge now)
  with assms show ?thesis by (simp add: race_inv_def)
next
  case BeginFlush
  with assms show ?thesis by (simp add: race_inv_def)
qed (use assms race_inv_flags [OF assms(1)] in \<open>simp_all add: try_restart_task_def start_background_flush_task_def
        task_exit_def batcher_shutdown_def\<close>)

interpretation batch_races: simulation "race_step try_send recv" "\<lambda>cs op. cs @ adds_begun [op]"
    "\<lambda>r cs. fifo_channel try_send contents \<and> (\<forall>ch. contents (recv ch) = contents ch) \<and> race_inv contents r cs" "\<lambda>op. True"
  by unfold_locales (simp add: race_inv_step)

lemma adds_begun_run: "foldl (\<lambda>cs op. cs @ adds_begun [op]) cs ops = cs @ adds_begun ops"
  by (induction ops arbitrary: cs) (simp_all flip: adds_begun_append)

subsection \<open>Properties\<close>

text \<open>
  C9. Concurrent batching loses a change only with a batch that the channel refuses, and
  duplicates none: whatever calls of \<open>add\<close> and \<open>force_flush\<close>, wake-ups
  of the flush task and receptions interleave on a batcher made by \<open>new\<close> over a
  first-in first-out channel, bounded or not, when no call is in flight the added changes, in some
  order of their pushes, are cut into consecutive pieces, none empty, followed by what is pending;
  each piece is the contents of exactly one batch that the channel took or refused, and these
  batches carry the numbers 1, 2, 3 and so on, each once. (The size of a batch and the order of
  the numbers are not bounded by this: additions that run between the size check and the taking
  make a batch larger than \<open>max_batch_size\<close>.)
\<close>

theorem concurrent_batching_conserves:
  assumes "fifo_channel try_send contents" "\<forall>ch. contents (recv ch) = contents ch" "contents ch = []"
    and "foldl (race_step try_send recv) (race_new config ch) ops = r" "cr_flight r = {#}"
  shows "\<exists>pieces. mset (concat pieces @ bt_pending (cr_batcher r)) = mset (adds_begun ops)
     \<and> concat pieces @ bt_pending (cr_batcher r) = cr_pushed r
     \<and> [] \<notin> set pieces
     \<and> mset (map tb_changes (contents (bt_channel (cr_batcher r)) @ cr_refused r)) = mset pieces
     \<and> mset (map tb_sequence (contents (bt_channel (cr_batcher r)) @ cr_refused r))
         = mset (map of_nat [1 ..< Suc (length pieces)])"
proof -
  have "fifo_channel try_send contents \<and> (\<forall>ch. contents (recv ch) = contents ch)
      \<and> race_inv contents (race_new config ch) []"
    by (intro conjI race_inv_new assms(1-3))
  from batch_races.sim_run [OF this, of ops] have inv: "race_inv contents r (adds_begun ops)"
    using assms(4) adds_begun_run [of "[]" ops] by (simp add: list_all_iff)
  let ?out = "contents (bt_channel (cr_batcher r)) @ cr_refused r" and ?b = "bt_pending (cr_batcher r)"
  note now = inv [unfolded race_inv_def assms(5) call_simps add_0_right]
  from now obtain n where n: "mset (map tb_sequence ?out) = mset (map of_nat [1 ..< Suc n])" by (elim conjE exE)
  from now have taken: "mset (map tb_changes ?out) = mset (cr_taken r)" by (elim conjE)
  have pushed: "mset (cr_pushed r) = mset (adds_begun ops)"
      and order: "concat (cr_taken r) @ ?b = cr_pushed r" and ne: "[] \<notin> set (cr_taken r)"
    using now by simp_all
  have "length ?out = length (cr_taken r)" "length ?out = n"
    using mset_eq_length [OF taken] mset_eq_length [OF n] by (simp_all only: length_map length_upt diff_Suc_1)
  then have len: "length (cr_taken r) = n" by (rule trans [OF sym])
  show ?thesis
    by (intro exI [of _ "cr_taken r"] conjI) (simp_all only: order pushed ne taken n len not_False_eq_True)
qed

text \<open>A channel of capacity one that remembers what it took.\<close>

definition one_slot_send :: "(tx_batch list \<times> tx_batch list) try_send" where
  "one_slot_send ch x = (case ch of (queue, taken) \<Rightarrow> if queue = [] then (True, [x], taken @ [x]) else (False, ch))"

definition one_slot_recv :: "tx_batch list \<times> tx_batch list \<Rightarrow> tx_batch list \<times> tx_batch list" where
  "one_slot_recv ch = (tl (fst ch), snd ch)"

lemma one_slot_laws: "fifo_channel one_slot_send snd" "\<forall>ch. snd (one_slot_recv ch) = snd ch"
  by (simp_all add: fifo_channel_def one_slot_send_def one_slot_recv_def split_beta)

text \<open>
  Two additions that both find a full batch: one takes both changes; a third change goes into a
  batch that the full channel refuses.
\<close>

definition refused_run :: "change \<Rightarrow> change \<Rightarrow> change \<Rightarrow> batch_event list" where
  "refused_run c1 c2 c3 =
     [BeginAdd 0 c1, BeginAdd 1 c2, PushAdd c2, PushAdd c1, CheckSize, CheckSize, TakePending,
      TakePending, CountBatch [c2, c1], SendBatch 2 1 [c2, c1],
      BeginAdd 3 c3, PushAdd c3, CheckSize, BeginFlush, TakePending, CountBatch [c3], SendBatch 4 2 [c3]]"

lemma refused_run_end:
  assumes "bc_enabled config" "bc_max_batch_size config = 2"
  shows "let r = foldl (race_step one_slot_send one_slot_recv) (race_new config ([], [])) (refused_run c1 c2 c3)
     in cr_flight r = {#} \<and> map tb_changes (cr_refused r) = [[c3]] \<and> cr_pushed r = [c2, c1, c3]
        \<and> bt_pending (cr_batcher r) = []"
proof -
  let ?step = "race_step one_slot_send one_slot_recv"
  let ?b = "\<lparr>bt_config = config, bt_pending = [], bt_batches = [], bt_channel = ([tx_batch_new 2 [c2, c1] 1], [tx_batch_new 2 [c2, c1] 1]),
             bt_start = None, bt_sequence = 1, bt_shutdown_tx = False, bt_task = False, bt_crashed = False\<rparr>"
  let ?mid = "\<lparr>cr_batcher = ?b, cr_flight = {#}, cr_pushed = [c2, c1], cr_taken = [[c2, c1]], cr_refused = []\<rparr>"
  have "foldl ?step (race_new config ([], [])) (take 10 (refused_run c1 c2 c3)) = ?mid"
    using assms by (simp add: refused_run_def race_new_def batcher_new_def on_batcher_def add_mark_def add_push_def
        size_reached_def take_pending_def next_sequence_def hand_over_def one_slot_send_def Let_def)
  moreover have "let r = foldl ?step ?mid (drop 10 (refused_run c1 c2 c3))
     in cr_flight r = {#} \<and> map tb_changes (cr_refused r) = [[c3]] \<and> cr_pushed r = [c2, c1, c3]
        \<and> bt_pending (cr_batcher r) = []"
    using assms by (simp add: refused_run_def on_batcher_def add_mark_def add_push_def
        size_reached_def take_pending_def next_sequence_def hand_over_def one_slot_send_def tx_batch_new_def Let_def)
  ultimately show ?thesis
    using foldl_append [of ?step "race_new config ([], [])" "take 10 (refused_run c1 c2 c3)" "drop 10 (refused_run c1 c2 c3)"]
    by (simp only: append_take_drop_id)
qed

theorem concurrent_batching_conserves_witness:
  "let c = (\<lambda>k. change_query k 0 [] [] None);
       r = foldl (race_step one_slot_send one_slot_recv)
             (race_new (with_max_batch_size 2 batch_config_default) ([], [])) (refused_run (c 1) (c 2) (c 3))
   in cr_flight r = {#} \<and> map tb_changes (cr_refused r) = [[c 3]]
      \<and> (\<exists>pieces. concat pieces = [c 2, c 1, c 3]
           \<and> mset (map tb_changes (snd (bt_channel (cr_batcher r)) @ cr_refused r)) = mset pieces)"
  (is "let c = _; r = ?run c in _")
proof -
  let ?c = "\<lambda>k. change_query k 0 [] [] None"
  define r where "r = ?run ?c"
  have "bc_enabled (with_max_batch_size 2 batch_config_default)"
      "bc_max_batch_size (with_max_batch_size 2 batch_config_default) = 2"
    by (simp_all add: with_max_batch_size_def batch_config_default_def)
  note r = refused_run_end [OF this, of "?c 1" "?c 2" "?c 3", unfolded Let_def, folded r_def]
  have "\<exists>pieces. concat pieces = [?c 2, ?c 1, ?c 3]
      \<and> mset (map tb_changes (snd (bt_channel (cr_batcher r)) @ cr_refused r)) = mset pieces"
    using concurrent_batching_conserves [OF one_slot_laws _ r_def [symmetric]] r by auto
  with r show ?thesis unfolding Let_def r_def [symmetric] by blast
qed

end
