(* ===== verification/Connections.thy ===== *)
theory Connections
  imports Concurrent_Log "HOL-Library.Sublist"
begin

section \<open>Many connections over one sync manager\<close>

text \<open>
  The replicator serves every incoming connection in a task of its own and drives the outgoing
  ones from its loop; all of them share the sync manager. Here the two functions of
  \<open>protocol.rs\<close> are split into sections, each with at most one access to the manager
  and the work of its own task around it. A connection that runs alone does what
  \<open>handle_connection\<close> and \<open>connect_and_sync\<close> do; then any number of
  connections and of recording calls interleave.
\<close>

subsection \<open>Sections of a served connection\<close>

datatype serve_pc =
    SvAccept
  | SvOffset
  | SvRead u64 \<comment> \<open>the head of the loop, with the local offset\<close>
  | SvFinal u64 u64 "change list" \<comment> \<open>a page has been gathered: its end and its changes\<close>
  | SvRecord u64 u64 "change list" \<comment> \<open>a received batch: its offset and what is left of it\<close>
  | SvPush u64 u64 change "change list" \<comment> \<open>between the sections of \<open>record_change\<close>\<close>
  | SvFinish
  | SvDone "unit result"

text \<open>The stream of a connection: unread bytes, written bytes, number of writes.\<close>

record 'pc conn =
  cn_pc :: 'pc
  cn_rx :: bytes
  cn_out :: bytes
  cn_writes :: nat

definition serve_start :: "link \<Rightarrow> serve_pc conn" where
  "serve_start lk = \<lparr>cn_pc = SvAccept, cn_rx = lk_recv lk, cn_out = [], cn_writes = 0\<rparr>"

definition serve_send ::
  "'id proto_lib \<Rightarrow> link \<Rightarrow> u64 \<Rightarrow> sync_message \<Rightarrow> serve_pc conn \<Rightarrow> serve_pc conn" where
  "serve_send lib lk lo response c =
     (case encode_message (pl_to_json lib) response of
        Ok bs \<Rightarrow>
          (case send_message lk bs (cn_out c, cn_writes c) of
             (e, out, k) \<Rightarrow>
               c\<lparr>cn_pc := (case e of None \<Rightarrow> SvRead lo | Some e \<Rightarrow> SvDone (Err e)), cn_out := out, cn_writes := k\<rparr>)
      | Err e \<Rightarrow> c\<lparr>cn_pc := SvDone (Err (Encoding (pl_codec_text lib e)))\<rparr>
      | Panic \<Rightarrow> c\<lparr>cn_pc := SvFinish\<rparr>)"

definition serve_dispatch ::
  "'id proto_lib \<Rightarrow> link \<Rightarrow> u64 \<Rightarrow> sync_message \<Rightarrow> 'id sync_manager \<Rightarrow> serve_pc conn \<Rightarrow> serve_pc conn" where
  "serve_dispatch lib lk lo request m c =
     (case request of
        Request off limit \<Rightarrow>
          let changes = get_changes_since m off;
              changes = (case limit of None \<Rightarrow> changes | Some l \<Rightarrow> take l changes)
          in c\<lparr>cn_pc := SvFinal lo (off + of_nat (length changes)) changes\<rparr>
      | Response batch \<Rightarrow> c\<lparr>cn_pc := SvRecord lo (cb_offset batch) (cb_changes batch)\<rparr>
      | Ack _ \<Rightarrow> serve_send lib lk lo (Ack lo) c
      | Ping \<Rightarrow> serve_send lib lk lo Pong c
      | Pong \<Rightarrow> serve_send lib lk lo Ping c)"

definition serve_read ::
  "'id proto_lib \<Rightarrow> link \<Rightarrow> u64 \<Rightarrow> 'id sync_manager \<Rightarrow> serve_pc conn \<Rightarrow> serve_pc conn" where
  "serve_read lib lk lo m c =
     (case recv_frame (cn_rx c) of
        RecvTooLarge \<Rightarrow> c\<lparr>cn_pc := SvDone (Err too_large)\<rparr>
      | RecvFrame msg rest \<Rightarrow>
          (case decode_message (pl_from_json lib) msg of
             Ok request \<Rightarrow> serve_dispatch lib lk lo request m (c\<lparr>cn_rx := rest\<rparr>)
           | _ \<Rightarrow> c\<lparr>cn_pc := SvFinish, cn_rx := rest\<rparr>)
      | _ \<Rightarrow> c\<lparr>cn_pc := SvFinish\<rparr>)"

definition serve_section ::
  "'id proto_lib \<Rightarrow> link \<Rightarrow> 'id \<Rightarrow> 'id sync_manager \<Rightarrow> serve_pc conn \<Rightarrow> 'id sync_manager \<times> serve_pc conn" where
  "serve_section lib lk pid m c =
     (case cn_pc c of
        SvAccept \<Rightarrow>
          (case lk_open lk of
             Some e \<Rightarrow> (m, c\<lparr>cn_pc := SvDone (Err (Connection e))\<rparr>)
           | None \<Rightarrow> (update_peer_state (pl_id_bytes lib) m pid Syncing, c\<lparr>cn_pc := SvOffset\<rparr>))
      | SvOffset \<Rightarrow> (m, c\<lparr>cn_pc := SvRead (sm_offset m)\<rparr>)
      | SvRead lo \<Rightarrow> (m, serve_read lib lk lo m c)
      | SvFinal lo new_offset changes \<Rightarrow>
          (m, serve_send lib lk lo
                (Response \<lparr>cb_offset = new_offset, cb_changes = changes,
                           cb_is_final = (changes = [] \<or> sm_offset m \<le> new_offset)\<rparr>) c)
      | SvRecord lo off [] \<Rightarrow> (m, serve_send lib lk lo (Ack off) c)
      | SvRecord lo off (ch # chs) \<Rightarrow> (snd (record_claim m), c\<lparr>cn_pc := SvPush lo off ch chs\<rparr>)
      | SvPush lo off ch chs \<Rightarrow> (record_push ch m, c\<lparr>cn_pc := SvRecord lo off chs\<rparr>)
      | SvFinish \<Rightarrow>
          (case lk_finish lk of
             Some e \<Rightarrow> (m, c\<lparr>cn_pc := SvDone (Err (ConnectionClosed e))\<rparr>)
           | None \<Rightarrow> (update_peer_state (pl_id_bytes lib) m pid Synchronized, c\<lparr>cn_pc := SvDone (Ok ())\<rparr>))
      | SvDone r \<Rightarrow> (m, c))"

subsection \<open>Sections of a driven connection\<close>

datatype drive_pc =
    DrConnect
  | DrOffset
  | DrRead
  | DrApply "change list"
  | DrEnd
  | DrDone "unit result"

definition drive_start :: "link \<Rightarrow> drive_pc conn" where
  "drive_start lk = \<lparr>cn_pc = DrConnect, cn_rx = lk_recv lk, cn_out = [], cn_writes = 0\<rparr>"

definition drive_request :: "'id proto_lib \<Rightarrow> link \<Rightarrow> u64 \<Rightarrow> drive_pc conn \<Rightarrow> drive_pc conn" where
  "drive_request lib lk local_offset c =
     (case encode_message (pl_to_json lib) (Request local_offset (Some 1000)) of
        Ok bs \<Rightarrow>
          (case send_message lk bs (cn_out c, cn_writes c) of
             (e, out, k) \<Rightarrow>
               c\<lparr>cn_pc := (case e of None \<Rightarrow> DrRead | Some e \<Rightarrow> DrDone (Err e)), cn_out := out, cn_writes := k\<rparr>)
      | Err e \<Rightarrow> c\<lparr>cn_pc := DrDone (Err (Encoding (pl_codec_text lib e)))\<rparr>
      | Panic \<Rightarrow> c\<lparr>cn_pc := DrDone Panic\<rparr>)"

definition drive_read :: "'id proto_lib \<Rightarrow> link \<Rightarrow> drive_pc conn \<Rightarrow> drive_pc conn" where
  "drive_read lib lk c =
     (case recv_frame (cn_rx c) of
        RecvTooLarge \<Rightarrow> c\<lparr>cn_pc := DrDone (Err too_large)\<rparr>
      | RecvTruncated \<Rightarrow> c\<lparr>cn_pc := DrDone (Err (Connection (lk_recv_error lk)))\<rparr>
      | RecvFrame msg rest \<Rightarrow>
          (case decode_message (pl_from_json lib) msg of
             Ok response \<Rightarrow>
               (case response of
                  Response batch \<Rightarrow> c\<lparr>cn_pc := DrApply (cb_changes batch), cn_rx := rest\<rparr>
                | Ack _ \<Rightarrow> c\<lparr>cn_pc := DrEnd, cn_rx := rest\<rparr>
                | _ \<Rightarrow> c\<lparr>cn_pc := DrRead, cn_rx := rest\<rparr>)
           | Err e \<Rightarrow> c\<lparr>cn_pc := DrDone (Err (Encoding (pl_codec_text lib e))), cn_rx := rest\<rparr>
           | Panic \<Rightarrow> c\<lparr>cn_pc := DrEnd, cn_rx := rest\<rparr>)
      | _ \<Rightarrow> c\<lparr>cn_pc := DrEnd\<rparr>)"

definition drive_finish ::
  "'id proto_lib \<Rightarrow> link \<Rightarrow> 'id \<Rightarrow> 'id sync_manager \<Rightarrow> drive_pc conn \<Rightarrow> 'id sync_manager \<times> drive_pc conn" where
  "drive_finish lib lk pid m c =
     (case write_all lk [0, 0, 0, 0] (cn_out c, cn_writes c) of
        (Some e, out, k) \<Rightarrow> (m, c\<lparr>cn_pc := DrDone (Err e), cn_out := out, cn_writes := k\<rparr>)
      | (None, out, k) \<Rightarrow>
          (case lk_finish lk of
             Some e \<Rightarrow> (m, c\<lparr>cn_pc := DrDone (Err (ConnectionClosed e)), cn_out := out, cn_writes := k\<rparr>)
           | None \<Rightarrow> (update_peer_state (pl_id_bytes lib) m pid Synchronized,
                     c\<lparr>cn_pc := DrDone (Ok ()), cn_out := out, cn_writes := k\<rparr>)))"

text \<open>
  \<open>apply_changes\<close> raises the offset once per change; the offset it loads first and
  returns is dropped by its caller.
\<close>

definition drive_section ::
  "'id proto_lib \<Rightarrow> link \<Rightarrow> 'id \<Rightarrow> 'id sync_manager \<Rightarrow> drive_pc conn \<Rightarrow> 'id sync_manager \<times> drive_pc conn" where
  "drive_section lib lk pid m c =
     (case cn_pc c of
        DrConnect \<Rightarrow>
          (case lk_connect lk of
             Some e \<Rightarrow> (m, c\<lparr>cn_pc := DrDone (Err (Connection e))\<rparr>)
           | None \<Rightarrow>
               (case lk_open lk of
                  Some e \<Rightarrow> (m, c\<lparr>cn_pc := DrDone (Err (Connection e))\<rparr>)
                | None \<Rightarrow> (update_peer_state (pl_id_bytes lib) m pid Syncing, c\<lparr>cn_pc := DrOffset\<rparr>)))
      | DrOffset \<Rightarrow> (m, drive_request lib lk (sm_offset m) c)
      | DrRead \<Rightarrow> (m, drive_read lib lk c)
      | DrApply [] \<Rightarrow> (m, c\<lparr>cn_pc := DrRead\<rparr>)
      | DrApply (ch # chs) \<Rightarrow>
          (m\<lparr>sm_offset := max (sm_offset m) (ucast (ch_id ch))\<rparr>, c\<lparr>cn_pc := DrApply chs\<rparr>)
      | DrEnd \<Rightarrow> drive_finish lib lk pid m c
      | DrDone r \<Rightarrow> (m, c))"

subsection \<open>A connection that runs alone\<close>

text \<open>What an iterated step reaches.\<close>

definition reaches :: "('s \<Rightarrow> 's) \<Rightarrow> 's \<Rightarrow> 's \<Rightarrow> bool" where
  "reaches f s t \<longleftrightarrow> (\<exists>n. (f ^^ n) s = t)"

lemma reaches_refl [simp, intro]: "reaches f s s"
  unfolding reaches_def by (metis funpow_0)

lemma reaches_trans: "reaches f s t \<Longrightarrow> reaches f t u \<Longrightarrow> reaches f s u"
  unfolding reaches_def by (metis comp_apply funpow_add)

lemma reaches_step: "reaches f (f s) t \<Longrightarrow> reaches f s t"
  unfolding reaches_def by (metis comp_apply funpow_Suc_right)

lemma reaches_one: "f s = t \<Longrightarrow> reaches f s t"
  using reaches_step [of f s t] by simp

abbreviation serve_run :: "'id proto_lib \<Rightarrow> link \<Rightarrow> 'id
    \<Rightarrow> 'id sync_manager \<times> serve_pc conn \<Rightarrow> 'id sync_manager \<times> serve_pc conn \<Rightarrow> bool" where
  "serve_run lib lk pid \<equiv> reaches (\<lambda>(m, c). serve_section lib lk pid m c)"

abbreviation drive_run :: "'id proto_lib \<Rightarrow> link \<Rightarrow> 'id
    \<Rightarrow> 'id sync_manager \<times> drive_pc conn \<Rightarrow> 'id sync_manager \<times> drive_pc conn \<Rightarrow> bool" where
  "drive_run lib lk pid \<equiv> reaches (\<lambda>(m, c). drive_section lib lk pid m c)"

lemma serve_record_run:
  "serve_run lib lk pid (m, c\<lparr>cn_pc := SvRecord lo off chs\<rparr>) (record_all m chs, c\<lparr>cn_pc := SvRecord lo off []\<rparr>)"
proof (induction chs arbitrary: m)
  case Nil
  show ?case by simp
next
  case (Cons ch chs)
  then show ?case
    by - (rule reaches_step, rule reaches_step, simp add: serve_section_def record_change_sections)
qed

text \<open>The connection after the turn of the loop that \<open>serve_frame\<close> describes.\<close>

fun after_frame :: "u64 \<Rightarrow> bytes \<Rightarrow> 'id wire_state flow \<Rightarrow> 'id sync_manager \<times> serve_pc conn" where
  "after_frame lo rest (Continue (m, out, k)) =
     (m, \<lparr>cn_pc = SvRead lo, cn_rx = rest, cn_out = out, cn_writes = k\<rparr>)"
| "after_frame lo rest (Break (m, out, k)) =
     (m, \<lparr>cn_pc = SvFinish, cn_rx = rest, cn_out = out, cn_writes = k\<rparr>)"
| "after_frame lo rest (Return e (m, out, k)) =
     (m, \<lparr>cn_pc = SvDone (Err e), cn_rx = rest, cn_out = out, cn_writes = k\<rparr>)"

lemma serve_send_after:
  assumes "decode_message (pl_from_json lib) msg = Ok request"
    and "process_message m request lo = (Ok response, m')"
  shows "(m', serve_send lib lk lo response \<lparr>cn_pc = pc, cn_rx = rest, cn_out = out, cn_writes = k\<rparr>)
       = after_frame lo rest (serve_frame lib lk lo (m, out, k) msg)"
proof (cases "encode_message (pl_to_json lib) response")
  case (Ok bs)
  obtain e out' k' where "send_message lk bs (out, k) = (e, out', k')" by (metis prod.collapse)
  with assms Ok show ?thesis by (cases e) (simp_all add: serve_frame_def serve_send_def)
qed (use assms in \<open>simp_all add: serve_frame_def serve_send_def\<close>)

lemma serve_turn_run:
  assumes "recv_frame rx = RecvFrame msg rest"
  shows "serve_run lib lk pid (m, \<lparr>cn_pc = SvRead lo, cn_rx = rx, cn_out = out, cn_writes = k\<rparr>)
           (after_frame lo rest (serve_frame lib lk lo (m, out, k) msg))"
proof (cases "decode_message (pl_from_json lib) msg")
  case (Ok request)
  let ?c = "\<lambda>pc. \<lparr>cn_pc = pc, cn_rx = rest, cn_out = out, cn_writes = k\<rparr>"
  obtain response m' where pm: "process_message m request lo = (Ok response, m')"
    using process_message_Ok by blast
  note after = serve_send_after [OF Ok pm, of lk _ rest out k, symmetric]
  have start: "serve_section lib lk pid m \<lparr>cn_pc = SvRead lo, cn_rx = rx, cn_out = out, cn_writes = k\<rparr>
      = (m, serve_dispatch lib lk lo request m (?c (SvRead lo)))"
    using assms Ok by (simp add: serve_section_def serve_read_def)
  show ?thesis
  proof (cases request)
    case (Request off limit)
    let ?pc = "SvFinal lo (off + of_nat (length (page m off limit))) (page m off limit)"
    have "serve_dispatch lib lk lo request m (?c (SvRead lo)) = ?c ?pc"
      by (simp add: Request serve_dispatch_def page_def Let_def split: option.split)
    moreover have "serve_section lib lk pid m (?c ?pc) = after_frame lo rest (serve_frame lib lk lo (m, out, k) msg)"
      using pm by (subst after [of ?pc]) (auto simp: Request process_request serve_section_def)
    ultimately show ?thesis
      using start by - (rule reaches_step [OF reaches_one], simp)
  next
    case (Response batch)
    let ?pc = "SvRecord lo (cb_offset batch)"
    have "serve_dispatch lib lk lo request m (?c (SvRead lo)) = ?c (?pc (cb_changes batch))"
      by (simp add: Response serve_dispatch_def)
    moreover have "serve_run lib lk pid (m, ?c (?pc (cb_changes batch))) (record_all m (cb_changes batch), ?c (?pc []))"
      using serve_record_run [where c = "?c SvFinish"] by simp
    moreover have "serve_section lib lk pid (record_all m (cb_changes batch)) (?c (?pc []))
        = after_frame lo rest (serve_frame lib lk lo (m, out, k) msg)"
      using pm by (subst after [of "?pc []"]) (auto simp: Response process_message_def serve_section_def)
    ultimately show ?thesis
      using start by - (rule reaches_step [OF reaches_trans [OF _ reaches_one]], auto)
  qed (use start pm after in \<open>auto intro!: reaches_one simp: serve_dispatch_def process_message_def\<close>)
qed (use assms in \<open>auto intro!: reaches_one simp: serve_section_def serve_read_def serve_frame_def\<close>)

definition after_loop :: "error option \<Rightarrow> serve_pc" where
  "after_loop e = (case e of None \<Rightarrow> SvFinish | Some e \<Rightarrow> SvDone (Err e))"

lemma serve_loop_run:
  "handle_loop lib lk lo (m, out, k) rx = (e, m', out', k') \<Longrightarrow>
     \<exists>rx'. serve_run lib lk pid (m, \<lparr>cn_pc = SvRead lo, cn_rx = rx, cn_out = out, cn_writes = k\<rparr>)
             (m', \<lparr>cn_pc = after_loop e, cn_rx = rx', cn_out = out', cn_writes = k'\<rparr>)"
proof (induction rx arbitrary: m out k rule: length_induct)
  case (1 rx)
  let ?start = "(m, \<lparr>cn_pc = SvRead lo, cn_rx = rx, cn_out = out, cn_writes = k\<rparr>)"
  have ends: ?case if "\<forall>msg rest. recv_frame rx \<noteq> RecvFrame msg rest"
    using "1.prems" that
    by (subst (asm) handle_loop.simps)
       (auto intro!: exI [of _ rx] reaches_one simp: serve_section_def serve_read_def after_loop_def split: recv.splits)
  show ?case
  proof (cases "recv_frame rx")
    case (RecvFrame msg rest)
    note turn = serve_turn_run [OF this, of lib lk pid m lo out k]
    show ?thesis
    proof (cases "serve_frame lib lk lo (m, out, k) msg")
      case (Continue st)
      obtain m1 out1 k1 where st: "st = (m1, out1, k1)" by (cases st) auto
      have "handle_loop lib lk lo (m1, out1, k1) rest = (e, m', out', k')"
        using "1.prems" RecvFrame Continue st by (subst (asm) handle_loop.simps) simp
      with 1 recv_frame_shorter [OF RecvFrame] show ?thesis
        using turn Continue st by (fastforce intro: reaches_trans)
    next
      case (Break st)
      then have "st = (m', out', k')" "e = None"
        using "1.prems" RecvFrame by (subst (asm) handle_loop.simps; simp)+
      then show ?thesis using turn Break by (auto simp: after_loop_def)
    next
      case (Return err st)
      then have "st = (m', out', k')" "e = Some err"
        using "1.prems" RecvFrame by (subst (asm) handle_loop.simps; simp)+
      then show ?thesis using turn Return by (auto simp: after_loop_def)
    qed
  qed (rule ends, simp)+
qed

lemma serve_alone:
  assumes "handle_connection lib lk pid m = (r, m', out)"
  shows "\<exists>c. serve_run lib lk pid (m, serve_start lk) (m', c) \<and> cn_pc c = SvDone r \<and> cn_out c = out"
proof (cases "lk_open lk")
  case (Some e)
  then show ?thesis
    using assms by (intro exI conjI) (rule reaches_one, auto simp: handle_connection_def serve_section_def serve_start_def)
next
  case None
  let ?m1 = "update_peer_state (pl_id_bytes lib) m pid Syncing"
  obtain e m2 out2 k2 where loop: "handle_loop lib lk (sm_offset ?m1) (?m1, [], 0) (lk_recv lk) = (e, m2, out2, k2)"
    by (metis prod.collapse)
  obtain rx' where run: "serve_run lib lk pid
      (?m1, \<lparr>cn_pc = SvRead (sm_offset ?m1), cn_rx = lk_recv lk, cn_out = [], cn_writes = 0\<rparr>)
      (m2, \<lparr>cn_pc = after_loop e, cn_rx = rx', cn_out = out2, cn_writes = k2\<rparr>)"
    using serve_loop_run [OF loop] by blast
  have first: "serve_run lib lk pid (m, serve_start lk)
      (m2, \<lparr>cn_pc = after_loop e, cn_rx = rx', cn_out = out2, cn_writes = k2\<rparr>)"
    using run None by - (rule reaches_step [OF reaches_step], simp add: serve_section_def serve_start_def)
  have "serve_run lib lk pid (m2, \<lparr>cn_pc = after_loop e, cn_rx = rx', cn_out = out2, cn_writes = k2\<rparr>)
      (m', \<lparr>cn_pc = SvDone r, cn_rx = rx', cn_out = out, cn_writes = k2\<rparr>)"
    using assms None loop
    by (intro reaches_one)
       (auto simp: handle_connection_def serve_section_def after_loop_def Let_def split: option.splits)
  with first show ?thesis by (auto intro: reaches_trans)
qed

lemma drive_apply_run:
  "drive_run lib lk pid (m, c\<lparr>cn_pc := DrApply chs\<rparr>)
     (snd (apply_changes m chs), c\<lparr>cn_pc := DrRead\<rparr>)"
proof (induction chs arbitrary: m)
  case Nil
  show ?case
    by (rule reaches_one) (simp add: drive_section_def apply_changes_eq)
next
  case (Cons ch chs)
  let ?m = "m\<lparr>sm_offset := max (sm_offset m) (ucast (ch_id ch))\<rparr>"
  have "drive_section lib lk pid m (c\<lparr>cn_pc := DrApply (ch # chs)\<rparr>) = (?m, c\<lparr>cn_pc := DrApply chs\<rparr>)"
    by (simp add: drive_section_def)
  moreover have "snd (apply_changes ?m chs) = snd (apply_changes m (ch # chs))"
    by (simp add: apply_changes_eq max.commute)
  ultimately show ?case
    using Cons.IH [of ?m] by - (rule reaches_step, simp)
qed

definition after_client :: "error option \<Rightarrow> drive_pc" where
  "after_client e = (case e of None \<Rightarrow> DrEnd | Some e \<Rightarrow> DrDone (Err e))"

lemma drive_loop_run:
  "client_loop lib lk m rx = (e, m') \<Longrightarrow>
     \<exists>rx'. drive_run lib lk pid (m, \<lparr>cn_pc = DrRead, cn_rx = rx, cn_out = out, cn_writes = k\<rparr>)
             (m', \<lparr>cn_pc = after_client e, cn_rx = rx', cn_out = out, cn_writes = k\<rparr>)"
proof (induction rx arbitrary: m rule: length_induct)
  case (1 rx)
  let ?c = "\<lambda>pc rx. \<lparr>cn_pc = pc, cn_rx = rx, cn_out = out, cn_writes = k\<rparr>"
  have ends: ?case if "\<forall>msg rest. recv_frame rx \<noteq> RecvFrame msg rest"
    using "1.prems" that
    by (subst (asm) client_loop.simps)
       (auto intro!: exI [of _ rx] reaches_one simp: drive_section_def drive_read_def after_client_def split: recv.splits)
  show ?case
  proof (cases "recv_frame rx")
    case (RecvFrame msg rest)
    have step: "drive_section lib lk pid m (?c DrRead rx) = (m, drive_read lib lk (?c DrRead rx))" for m
      by (simp add: drive_section_def)
    show ?thesis
    proof (cases "decode_message (pl_from_json lib) msg")
      case (Ok response)
      obtain m1 stop where cm: "client_message m response = (m1, stop)" by (metis prod.collapse)
      have turn: "drive_run lib lk pid (m, ?c DrRead rx) (m1, ?c (if stop then DrEnd else DrRead) rest)"
      proof (cases response)
        case (Response batch)
        then show ?thesis
          using cm RecvFrame Ok drive_apply_run [where c = "?c DrEnd rest" and chs = "cb_changes batch" and m = m]
          by - (rule reaches_step, auto simp: step drive_read_def client_message_def)
      qed (use cm RecvFrame Ok in \<open>auto intro!: reaches_one simp: step drive_read_def client_message_def\<close>)
      show ?thesis
      proof (cases stop)
        case True
        then have "m1 = m'" "e = None"
          using "1.prems" RecvFrame Ok cm by (subst (asm) client_loop.simps; simp)+
        with turn True show ?thesis by (auto simp: after_client_def)
      next
        case False
        then have "client_loop lib lk m1 rest = (e, m')"
          using "1.prems" RecvFrame Ok cm by (subst (asm) client_loop.simps) simp
        with 1 recv_frame_shorter [OF RecvFrame] show ?thesis
          using turn False by (fastforce intro: reaches_trans)
      qed
    next
      case (Err err)
      then show ?thesis
        using "1.prems" RecvFrame
        by (subst (asm) client_loop.simps)
           (auto intro!: exI [of _ rest] reaches_one simp: step drive_read_def after_client_def)
    next
      case Panic
      then show ?thesis
        using "1.prems" RecvFrame
        by (subst (asm) client_loop.simps)
           (auto intro!: exI [of _ rest] reaches_one simp: step drive_read_def after_client_def)
    qed
  qed (rule ends, simp)+
qed

lemma drive_alone:
  assumes "connect_and_sync lib lk pid m = (r, m', out)"
  shows "\<exists>c. drive_run lib lk pid (m, drive_start lk) (m', c) \<and> cn_pc c = DrDone r \<and> cn_out c = out"
proof -
  let ?c = "\<lambda>pc rx out k. \<lparr>cn_pc = pc, cn_rx = rx, cn_out = out, cn_writes = k\<rparr>"
  let ?m1 = "update_peer_state (pl_id_bytes lib) m pid Syncing"
  let ?request = "Request (sm_offset ?m1) (Some 1000)"
  consider (refused) "lk_connect lk \<noteq> None \<or> lk_open lk \<noteq> None"
    | (opened) "lk_connect lk = None" "lk_open lk = None" by auto
  then show ?thesis
  proof cases
    case refused
    then show ?thesis
      using assms
      by (intro exI conjI)
         (rule reaches_one, auto simp: connect_and_sync_def drive_section_def drive_start_def split: option.splits)
  next
    case opened
    have first: "drive_run lib lk pid (m, drive_start lk) (?m1, drive_request lib lk (sm_offset ?m1) (?c DrOffset (lk_recv lk) [] 0))"
      using opened by - (rule reaches_step [OF reaches_one], simp add: drive_section_def drive_start_def)
    show ?thesis
    proof (cases "encode_message (pl_to_json lib) ?request")
      case (Ok bs)
      obtain e out1 k1 where send: "send_message lk bs ([], 0) = (e, out1, k1)" by (metis prod.collapse)
      show ?thesis
      proof (cases e)
        case (Some err)
        then show ?thesis
          using assms opened Ok send first by (auto simp: connect_and_sync_def drive_request_def)
      next
        case None
        obtain e2 m2 where loop: "client_loop lib lk ?m1 (lk_recv lk) = (e2, m2)" by (metis prod.collapse)
        obtain rx' where run: "drive_run lib lk pid (?m1, ?c DrRead (lk_recv lk) out1 k1) (m2, ?c (after_client e2) rx' out1 k1)"
          using drive_loop_run [OF loop] by blast
        then have begun: "drive_run lib lk pid (m, drive_start lk) (m2, ?c (after_client e2) rx' out1 k1)"
          using first None Ok send by (auto simp: drive_request_def intro: reaches_trans)
        show ?thesis
        proof (cases e2)
          case (Some err)
          then show ?thesis
            using assms opened Ok send None loop begun by (auto simp: connect_and_sync_def after_client_def)
        next
          case e2: None
          obtain c' where fin: "drive_finish lib lk pid m2 (?c DrEnd rx' out1 k1) = (m', c')"
              "cn_pc c' = DrDone r" "cn_out c' = out"
            using assms opened Ok send None loop e2
            by (auto simp: connect_and_sync_def drive_finish_def Let_def split: option.splits prod.splits)
          then have "drive_run lib lk pid (m2, ?c DrEnd rx' out1 k1) (m', c')"
            by (intro reaches_one) (simp add: drive_section_def)
          with begun e2 fin(2,3) show ?thesis by (auto simp: after_client_def intro: reaches_trans)
        qed
      qed
    qed (use assms opened first in \<open>auto simp: connect_and_sync_def drive_request_def\<close>)
  qed
qed

subsection \<open>The network of a node\<close>

text \<open>
  Every connection has a peer and a link; a connection that has not begun is at its start. Threads
  of the node record changes of their own. A step is one section of one connection or one of the two
  sections of a recording thread.
\<close>

datatype connection = Incoming "serve_pc conn" | Outgoing "drive_pc conn"

fun connection_section ::
  "'id proto_lib \<Rightarrow> link \<Rightarrow> 'id \<Rightarrow> 'id sync_manager \<Rightarrow> connection \<Rightarrow> 'id sync_manager \<times> connection" where
  "connection_section lib lk pid m (Incoming c) = map_prod (\<lambda>m. m) Incoming (serve_section lib lk pid m c)"
| "connection_section lib lk pid m (Outgoing c) = map_prod (\<lambda>m. m) Outgoing (drive_section lib lk pid m c)"

fun at_start :: "link \<Rightarrow> connection \<Rightarrow> bool" where
  "at_start lk (Incoming c) = (c = serve_start lk)"
| "at_start lk (Outgoing c) = (c = drive_start lk)"

subsection \<open>What the peer table shows of a connection\<close>

text \<open>
  The state a connection has written for its peer, if it has written one: a connection that fails
  after its stream was opened leaves \<open>Syncing\<close> behind.
\<close>

fun shown_state :: "link \<Rightarrow> connection \<Rightarrow> sync_state option" where
  "shown_state lk (Incoming c) =
     (case cn_pc c of
        SvAccept \<Rightarrow> None
      | SvDone r \<Rightarrow> if lk_open lk \<noteq> None then None else if r = Ok () then Some Synchronized else Some Syncing
      | _ \<Rightarrow> Some Syncing)"
| "shown_state lk (Outgoing c) =
     (case cn_pc c of
        DrConnect \<Rightarrow> None
      | DrDone r \<Rightarrow> if lk_connect lk \<noteq> None \<or> lk_open lk \<noteq> None then None
                    else if r = Ok () then Some Synchronized else Some Syncing
      | _ \<Rightarrow> Some Syncing)"

subsection \<open>The steps of the network\<close>

text \<open>A connection that is between the sections of \<open>record_change\<close>; the page that one has just gathered.\<close>

fun pushing :: "connection \<Rightarrow> bool" where
  "pushing (Incoming c) = (case cn_pc c of SvPush lo off ch chs \<Rightarrow> True | _ \<Rightarrow> False)"
| "pushing (Outgoing c) = False"

fun gathered :: "connection \<Rightarrow> (u64 \<times> change list) option" where
  "gathered (Incoming c) = (case cn_pc c of SvFinal lo e chs \<Rightarrow> Some (e, chs) | _ \<Rightarrow> None)"
| "gathered (Outgoing c) = None"

text \<open>
  \<open>nt_calls\<close> and \<open>nt_finished\<close> are the recording threads, as in
  \<open>Concurrent_Log\<close>. The last two fields only remember: for each peer the connection
  whose shown state changed last, and the gathered pages, each with the number of recordings that
  were between their sections at that moment.
\<close>

record ('cid, 'tid, 'id) net =
  nt_manager :: "'id sync_manager"
  nt_calls :: "('tid, u64) fmap"
  nt_finished :: "(u64 \<times> change) list"
  nt_conns :: "'cid \<Rightarrow> connection"
  nt_writer :: "'id \<Rightarrow> 'cid option"
  nt_pages :: "(u64 \<times> change list \<times> nat) list"

datatype ('cid, 'tid) net_op = Section 'cid | Recorder "'tid log_op"

definition in_flight :: "('cid, 'tid, 'id) net \<Rightarrow> nat" where
  "in_flight s = fmsize (nt_calls s) + card {cid. pushing (nt_conns s cid)}"

definition net_new :: "'id sync_manager \<Rightarrow> ('cid \<Rightarrow> connection) \<Rightarrow> ('cid, 'tid, 'id) net" where
  "net_new m conns = \<lparr>nt_manager = m, nt_calls = fmempty, nt_finished = [], nt_conns = conns,
     nt_writer = (\<lambda>pid. None), nt_pages = []\<rparr>"

fun net_step ::
  "'id proto_lib \<Rightarrow> ('cid \<Rightarrow> link) \<Rightarrow> ('cid \<Rightarrow> 'id) \<Rightarrow> ('cid, 'tid, 'id) net \<Rightarrow> ('cid, 'tid) net_op
     \<Rightarrow> ('cid, 'tid, 'id) net" where
  "net_step lib links peers s (Section cid) =
     (case connection_section lib (links cid) (peers cid) (nt_manager s) (nt_conns s cid) of
        (m, c) \<Rightarrow>
          s\<lparr>nt_manager := m, nt_conns := (nt_conns s)(cid := c),
            nt_writer := (if shown_state (links cid) c = shown_state (links cid) (nt_conns s cid) then nt_writer s
                          else (nt_writer s)(peers cid \<mapsto> cid)),
            nt_pages := (case gathered c of None \<Rightarrow> nt_pages s | Some (e, chs) \<Rightarrow> nt_pages s @ [(e, chs, in_flight s)])\<rparr>)"
| "net_step lib links peers s (Recorder lop) =
     (case log_step (nt_manager s, nt_calls s, nt_finished s) lop of
        (m, calls, finished) \<Rightarrow> s\<lparr>nt_manager := m, nt_calls := calls, nt_finished := finished\<rparr>)"

subsection \<open>The peer table\<close>

text \<open>A connection that shows something had its stream opened.\<close>

fun stream_opened :: "link \<Rightarrow> connection \<Rightarrow> bool" where
  "stream_opened lk (Incoming c) =
     (case cn_pc c of
        SvAccept \<Rightarrow> True
      | SvDone r \<Rightarrow> lk_open lk \<noteq> None \<longrightarrow> r \<noteq> Ok ()
      | _ \<Rightarrow> lk_open lk = None)"
| "stream_opened lk (Outgoing c) =
     (case cn_pc c of
        DrConnect \<Rightarrow> True
      | DrDone r \<Rightarrow> lk_connect lk \<noteq> None \<or> lk_open lk \<noteq> None \<longrightarrow> r \<noteq> Ok ()
      | _ \<Rightarrow> lk_connect lk = None \<and> lk_open lk = None)"

lemma update_peer_state_lookup:
  "map_option ps_state (sm_peer_states (update_peer_state id_bytes m pid st) k)
     = (if k = peer_key id_bytes pid then Some st else map_option ps_state (sm_peer_states m k))"
  by (simp add: update_peer_state_def Let_def)

lemma record_push_table [simp]:
  "sm_peer_states (snd (record_claim m)) = sm_peer_states m" "sm_peer_states (record_push ch m) = sm_peer_states m"
  by (simp_all add: record_claim_def record_push_def Let_def)

lemma log_step_table: "sm_peer_states (fst (log_step (m, calls, finished) lop)) = sm_peer_states m"
  by (cases lop) (auto simp: split_beta Let_def split: option.split)

definition busy :: "serve_pc \<Rightarrow> bool" where
  "busy pc \<longleftrightarrow> pc \<noteq> SvAccept \<and> pc \<noteq> SvDone (Ok ())"

lemma busy_shown:
  "busy (cn_pc c) \<Longrightarrow> lk_open lk = None \<Longrightarrow>
     stream_opened lk (Incoming c) \<and> shown_state lk (Incoming c) = Some Syncing"
  by (cases "cn_pc c") (auto simp: busy_def)

lemma serve_send_busy: "busy (cn_pc (serve_send lib lk lo response c))"
  by (auto simp: serve_send_def busy_def split: outcome.split option.split prod.split)

lemma serve_dispatch_busy: "busy (cn_pc (serve_dispatch lib lk lo request m c))"
  by (cases request) (simp_all add: serve_dispatch_def serve_send_busy Let_def, simp_all add: busy_def)

lemma serve_read_busy: "busy (cn_pc (serve_read lib lk lo m c))"
  unfolding serve_read_def
  by (auto simp: serve_dispatch_busy split: recv.split outcome.split) (simp_all add: busy_def)

lemma serve_section_shows:
  assumes "serve_section lib lk pid m c = (m', c')" "stream_opened lk (Incoming c)"
  shows "stream_opened lk (Incoming c')
     \<and> (shown_state lk (Incoming c') = shown_state lk (Incoming c) \<and> sm_peer_states m' = sm_peer_states m
        \<or> (\<exists>st. shown_state lk (Incoming c') = Some st \<and> shown_state lk (Incoming c) \<noteq> Some st
             \<and> m' = update_peer_state (pl_id_bytes lib) m pid st))"
proof -
  have stays: ?thesis if "busy (cn_pc c)" "lk_open lk = None" "busy (cn_pc c')" "sm_peer_states m' = sm_peer_states m"
    using that busy_shown by metis
  note reads = serve_send_busy serve_read_busy
  show ?thesis
  proof (cases "cn_pc c")
    case (SvRead lo)
    with assms show ?thesis
      by (intro stays) (auto simp: serve_section_def reads, simp add: busy_def)
  next
    case (SvFinal lo off chs)
    with assms show ?thesis
      by (intro stays) (auto simp: serve_section_def reads, simp add: busy_def)
  next
    case (SvRecord lo off chs)
    with assms show ?thesis
      by (intro stays; cases chs) (auto simp: serve_section_def reads, auto simp: busy_def)
  next
    case (SvPush lo off ch chs)
    with assms show ?thesis
      by (intro stays) (auto simp: serve_section_def busy_def)
  qed (use assms in \<open>auto simp: serve_section_def split: option.splits\<close>)
qed

lemma drive_section_shows:
  assumes "drive_section lib lk pid m c = (m', c')" "stream_opened lk (Outgoing c)"
  shows "stream_opened lk (Outgoing c')
     \<and> (shown_state lk (Outgoing c') = shown_state lk (Outgoing c) \<and> sm_peer_states m' = sm_peer_states m
        \<or> (\<exists>st. shown_state lk (Outgoing c') = Some st \<and> shown_state lk (Outgoing c) \<noteq> Some st
             \<and> m' = update_peer_state (pl_id_bytes lib) m pid st))"
proof (cases "cn_pc c")
  case (DrApply chs)
  then show ?thesis
    using assms by (cases chs) (auto simp: drive_section_def)
qed (use assms in \<open>auto simp: drive_section_def drive_request_def drive_read_def drive_finish_def
        split: outcome.splits option.splits prod.splits recv.splits sync_message.splits\<close>)

lemma connection_section_shows:
  assumes "connection_section lib lk pid m conn = (m', conn')" "stream_opened lk conn"
  shows "stream_opened lk conn'
     \<and> (shown_state lk conn' = shown_state lk conn \<and> sm_peer_states m' = sm_peer_states m
        \<or> (\<exists>st. shown_state lk conn' = Some st \<and> shown_state lk conn \<noteq> Some st
             \<and> m' = update_peer_state (pl_id_bytes lib) m pid st))"
proof (cases conn)
  case (Incoming c)
  obtain m1 c1 where "serve_section lib lk pid m c = (m1, c1)" by (metis prod.collapse)
  with assms Incoming serve_section_shows [OF this] show ?thesis by simp
next
  case (Outgoing c)
  obtain m1 c1 where "drive_section lib lk pid m c = (m1, c1)" by (metis prod.collapse)
  with assms Outgoing drive_section_shows [OF this] show ?thesis by simp
qed

text \<open>The table: what the connection that wrote last has reached, and otherwise what it held before.\<close>

definition table_state :: "'id proto_lib \<Rightarrow> 'id sync_manager \<Rightarrow> 'id \<Rightarrow> sync_state option" where
  "table_state lib m pid = map_option ps_state (sm_peer_states m (peer_key (pl_id_bytes lib) pid))"

definition entry_right ::
  "'id proto_lib \<Rightarrow> ('cid \<Rightarrow> link) \<Rightarrow> ('cid \<Rightarrow> 'id) \<Rightarrow> 'id sync_manager \<Rightarrow> 'id sync_manager \<Rightarrow> ('cid \<Rightarrow> connection)
     \<Rightarrow> 'id \<Rightarrow> 'cid option \<Rightarrow> bool" where
  "entry_right lib links peers m0 m conns pid writer \<longleftrightarrow>
     (case writer of
        None \<Rightarrow> table_state lib m pid = table_state lib m0 pid
      | Some cid \<Rightarrow> peers cid = pid \<and> shown_state (links cid) (conns cid) \<noteq> None
                    \<and> table_state lib m pid = shown_state (links cid) (conns cid))"

definition table_inv ::
  "'id proto_lib \<Rightarrow> ('cid \<Rightarrow> link) \<Rightarrow> ('cid \<Rightarrow> 'id) \<Rightarrow> 'id sync_manager \<Rightarrow> ('id \<Rightarrow> 'cid option)
     \<Rightarrow> 'id sync_manager \<times> ('cid \<Rightarrow> connection) \<Rightarrow> bool" where
  "table_inv lib links peers m0 writer s \<longleftrightarrow>
     (\<forall>cid. stream_opened (links cid) (snd s cid)
          \<and> (shown_state (links cid) (snd s cid) \<noteq> None \<longrightarrow> writer (peers cid) \<noteq> None))
     \<and> (\<forall>pid. entry_right lib links peers m0 (fst s) (snd s) pid (writer pid))"

lemma entry_right_cong:
  assumes "table_state lib m' pid = table_state lib m pid"
    and "\<And>i. writer = Some i \<Longrightarrow> shown_state (links i) (conns' i) = shown_state (links i) (conns i)"
  shows "entry_right lib links peers m0 m' conns' pid writer = entry_right lib links peers m0 m conns pid writer"
  using assms by (cases writer) (simp_all add: entry_right_def)

lemma table_state_update:
  "table_state lib (update_peer_state (pl_id_bytes lib) m pid st) pid'
     = (if peer_key (pl_id_bytes lib) pid' = peer_key (pl_id_bytes lib) pid then Some st
        else table_state lib m pid')"
  by (simp add: table_state_def update_peer_state_lookup)

lemma table_inv_section:
  assumes inj: "inj (peer_key (pl_id_bytes lib))" and inv: "table_inv lib links peers m0 writer (m, conns)"
    and sec: "connection_section lib (links cid) (peers cid) m (conns cid) = (m', conn')"
  shows "table_inv lib links peers m0
     (if shown_state (links cid) conn' = shown_state (links cid) (conns cid) then writer else writer(peers cid \<mapsto> cid))
     (m', conns(cid := conn'))"
proof -
  let ?shown = "\<lambda>conns i. shown_state (links i) (conns i)"
  let ?writer = "if ?shown (conns(cid := conn')) cid = ?shown conns cid then writer else writer(peers cid \<mapsto> cid)"
  have all: "\<And>i. stream_opened (links i) (conns i)" "\<And>i. ?shown conns i \<noteq> None \<Longrightarrow> writer (peers i) \<noteq> None"
    and entry: "\<And>pid. entry_right lib links peers m0 m conns pid (writer pid)"
    using inv by (simp_all add: table_inv_def)
  have opened: "stream_opened (links i) ((conns(cid := conn')) i)" for i
    using connection_section_shows [OF sec all(1)] all(1) by simp
  consider (silent) "?shown (conns(cid := conn')) cid = ?shown conns cid" "sm_peer_states m' = sm_peer_states m"
    | (writes) st where "shown_state (links cid) conn' = Some st" "shown_state (links cid) conn' \<noteq> ?shown conns cid"
      "m' = update_peer_state (pl_id_bytes lib) m (peers cid) st"
    using connection_section_shows [OF sec all(1)] by auto
  then have "(\<forall>i. ?shown (conns(cid := conn')) i \<noteq> None \<longrightarrow> ?writer (peers i) \<noteq> None)
     \<and> (\<forall>pid. entry_right lib links peers m0 m' (conns(cid := conn')) pid (?writer pid))"
  proof cases
    case silent
    then have same: "?shown (conns(cid := conn')) i = ?shown conns i" for i
      by simp
    have "table_state lib m' pid = table_state lib m pid" for pid
      using silent(2) by (simp add: table_state_def)
    then have "entry_right lib links peers m0 m' (conns(cid := conn')) pid w = entry_right lib links peers m0 m conns pid w" for pid w
      by (rule entry_right_cong) (rule same)
    with silent(1) same all(2) entry show ?thesis by auto
  next
    case writes
    have new: "table_state lib m' pid = (if pid = peers cid then Some st else table_state lib m pid)" for pid
      using writes(3) injD [OF inj, of pid "peers cid"] by (auto simp: table_state_update)
    have "entry_right lib links peers m0 m' (conns(cid := conn')) pid (?writer pid)" for pid
    proof (cases "pid = peers cid")
      case True
      with writes(1,2) new show ?thesis by (simp add: entry_right_def)
    next
      case False
      moreover from this entry [of pid] have "i \<noteq> cid" if "writer pid = Some i" for i
        using that by (auto simp: entry_right_def)
      ultimately have "entry_right lib links peers m0 m' (conns(cid := conn')) pid (writer pid)"
        using entry [of pid] new by (subst entry_right_cong) auto
      with False show ?thesis by simp
    qed
    with writes(2) all(2) show ?thesis by auto
  qed
  with opened show ?thesis by (simp add: table_inv_def)
qed

lemma table_inv_entry:
  assumes "table_inv lib links peers m0 writer (m, conns)"
  shows "case writer pid of
      None \<Rightarrow> (\<forall>cid. peers cid = pid \<longrightarrow> shown_state (links cid) (conns cid) = None)
              \<and> table_state lib m pid = table_state lib m0 pid
    | Some cid \<Rightarrow> peers cid = pid \<and> shown_state (links cid) (conns cid) \<noteq> None
              \<and> table_state lib m pid = shown_state (links cid) (conns cid)"
proof -
  have all: "shown_state (links cid) (conns cid) \<noteq> None \<Longrightarrow> writer (peers cid) \<noteq> None" for cid
    using assms by (simp add: table_inv_def)
  have "entry_right lib links peers m0 m conns pid (writer pid)"
    using assms by (simp add: table_inv_def)
  then show ?thesis
    using all by (cases "writer pid") (auto simp: entry_right_def simp del: not_None_eq)
qed

lemma table_inv_sole:
  assumes "table_inv lib links peers m0 writer (m, conns)" "\<forall>i. peers i = peers cid \<longrightarrow> i = cid"
  shows "table_state lib m (peers cid)
     = (case shown_state (links cid) (conns cid) of Some st \<Rightarrow> Some st | None \<Rightarrow> table_state lib m0 (peers cid))"
  using table_inv_entry [OF assms(1), of "peers cid"] assms(2)
  by (cases "writer (peers cid)") (auto split: option.split)

lemma table_inv_step:
  assumes "inj (peer_key (pl_id_bytes lib))"
    and "table_inv lib links peers m0 (nt_writer s) (nt_manager s, nt_conns s)"
  shows "let s' = net_step lib links peers s op in table_inv lib links peers m0 (nt_writer s') (nt_manager s', nt_conns s')"
proof (cases op)
  case (Section cid)
  obtain m' conn' where "connection_section lib (links cid) (peers cid) (nt_manager s) (nt_conns s cid) = (m', conn')"
    by (metis prod.collapse)
  with table_inv_section [OF assms this] Section show ?thesis by simp
next
  case (Recorder lop)
  obtain m calls finished where step: "log_step (nt_manager s, nt_calls s, nt_finished s) lop = (m, calls, finished)"
    by (metis prod.collapse)
  then have "sm_peer_states m = sm_peer_states (nt_manager s)"
    using log_step_table [of "nt_manager s" "nt_calls s" "nt_finished s" lop] by simp
  then have "table_state lib m pid = table_state lib (nt_manager s) pid" for pid
    by (simp add: table_state_def)
  then have "entry_right lib links peers m0 m (nt_conns s) pid w
      = entry_right lib links peers m0 (nt_manager s) (nt_conns s) pid w" for pid w
    by (rule entry_right_cong) simp
  with assms(2) Recorder step show ?thesis by (simp add: table_inv_def Let_def)
qed

interpretation peer_table: machine "net_step lib links peers"
    "\<lambda>s. inj (peer_key (pl_id_bytes lib)) \<and> table_inv lib links peers m0 (nt_writer s) (nt_manager s, nt_conns s)" "\<lambda>op. True"
proof (unfold_locales, goal_cases)
  case (1 s op)
  then show ?case using table_inv_step [of lib links peers _ s op] by (simp add: Let_def)
qed

lemma at_start_shows: "at_start lk conn \<Longrightarrow> stream_opened lk conn \<and> shown_state lk conn = None"
  by (cases conn) (simp_all add: serve_start_def drive_start_def)

lemma peer_key_inj: "id_codec id_bytes id_from_bytes \<Longrightarrow> inj (peer_key id_bytes)"
  by (metis decode_peer_key injI outcome.inject(1))

subsection \<open>What the served connections do to the log\<close>

text \<open>
  The changes of a response, when \<open>k\<close> recordings were between their sections as its
  page was gathered, start \<open>k\<close> before the requested offset; the offset of the
  response is the requested one plus their number. A response that is not final has its offset
  below the tail.
\<close>

definition slice_at :: "change list \<Rightarrow> nat \<Rightarrow> u64 \<Rightarrow> change list \<Rightarrow> bool" where
  "slice_at h k e chs \<longleftrightarrow>
     length chs \<le> unat e \<and> prefix chs (drop (unat e - length chs - k) h)"

definition carries_slice :: "change list \<Rightarrow> (u64 \<times> change list \<times> nat) set \<Rightarrow> u64 \<Rightarrow> change_batch \<Rightarrow> bool" where
  "carries_slice h pages tail b \<longleftrightarrow>
     (\<exists>k. (cb_offset b, cb_changes b, k) \<in> pages \<and> slice_at h k (cb_offset b) (cb_changes b))
     \<and> (cb_is_final b \<or> cb_offset b < tail)"







definition sent_slices :: "'id proto_lib \<Rightarrow> change list \<Rightarrow> (u64 \<times> change list \<times> nat) set \<Rightarrow> u64 \<Rightarrow> bytes \<Rightarrow> bool" where
  "sent_slices lib h pages tail out \<longleftrightarrow>
     (\<exists>rs. out = concat (map (frame \<circ> enc lib) rs) \<and> (\<forall>b. Response b \<in> set rs \<longrightarrow> carries_slice h pages tail b))"

definition conn_log :: "'id proto_lib \<Rightarrow> change list \<Rightarrow> (u64 \<times> change list \<times> nat) set \<Rightarrow> u64 \<Rightarrow> serve_pc conn \<Rightarrow> bool" where
  "conn_log lib h pages tail c \<longleftrightarrow>
     sent_slices lib h pages tail (cn_out c)
     \<and> (\<forall>lo e chs. cn_pc c = SvFinal lo e chs \<longrightarrow> (\<exists>k. (e, chs, k) \<in> pages \<and> slice_at h k e chs))"


lemma conn_log_rx [simp]: "conn_log lib h pages tail (c\<lparr>cn_rx := rest\<rparr>) = conn_log lib h pages tail c"
  by (simp add: conn_log_def)















subsection \<open>Properties\<close>

text \<open>
  The sections are those of the code: a connection whose sections run without others in between
  ends as \<open>handle_connection\<close> and \<open>connect_and_sync\<close> do, with the same
  result, the same written bytes and the same manager, after finitely many sections, whatever the
  link does.
\<close>

theorem sections_alone:
  "(\<exists>n m' c. ((\<lambda>(m, c). serve_section lib lk pid m c) ^^ n) (m, serve_start lk) = (m', c)
      \<and> (\<exists>r. cn_pc c = SvDone r \<and> handle_connection lib lk pid m = (r, m', cn_out c)))
   \<and> (\<exists>n m' c. ((\<lambda>(m, c). drive_section lib lk pid m c) ^^ n) (m, drive_start lk) = (m', c)
      \<and> (\<exists>r. cn_pc c = DrDone r \<and> connect_and_sync lib lk pid m = (r, m', cn_out c)))"
proof
  obtain r m' out where "handle_connection lib lk pid m = (r, m', out)" by (metis prod.collapse)
  with serve_alone [OF this]
  show "\<exists>n m' c. ((\<lambda>(m, c). serve_section lib lk pid m c) ^^ n) (m, serve_start lk) = (m', c)
      \<and> (\<exists>r. cn_pc c = SvDone r \<and> handle_connection lib lk pid m = (r, m', cn_out c))"
    by (fastforce simp: reaches_def)
next
  obtain r m' out where "connect_and_sync lib lk pid m = (r, m', out)" by (metis prod.collapse)
  with drive_alone [OF this]
  show "\<exists>n m' c. ((\<lambda>(m, c). drive_section lib lk pid m c) ^^ n) (m, drive_start lk) = (m', c)
      \<and> (\<exists>r. cn_pc c = DrDone r \<and> connect_and_sync lib lk pid m = (r, m', cn_out c))"
    by (fastforce simp: reaches_def)
qed

text \<open>
  C12. However the sections of any number of served and driven connections and of recording
  threads interleave, and however many connections a peer has, the peer table shows for every peer
  what the connection of it that wrote last has reached, and for a peer of which no connection has
  written the state it had before. So for a peer with one connection it is exact: nothing new
  before the stream is open, \<open>Syncing\<close> until the connection ends and for ever if it
  fails, \<open>Synchronized\<close> when it has ended well.
\<close>

theorem peer_table_exact:
  assumes "id_codec (pl_id_bytes lib) id_from_bytes" "\<forall>cid. at_start (links cid) (conns0 cid)"
    and "foldl (net_step lib links peers) (net_new m0 conns0) ops = s"
  shows "(case nt_writer s pid of
            None \<Rightarrow> (\<forall>cid. peers cid = pid \<longrightarrow> shown_state (links cid) (nt_conns s cid) = None)
                    \<and> table_state lib (nt_manager s) pid = table_state lib m0 pid
          | Some cid \<Rightarrow> peers cid = pid \<and> shown_state (links cid) (nt_conns s cid) \<noteq> None
                    \<and> table_state lib (nt_manager s) pid = shown_state (links cid) (nt_conns s cid))
     \<and> (\<forall>cid. (\<forall>i. peers i = peers cid \<longrightarrow> i = cid) \<longrightarrow>
          table_state lib (nt_manager s) (peers cid)
            = (case shown_state (links cid) (nt_conns s cid) of
                 Some st \<Rightarrow> Some st | None \<Rightarrow> table_state lib m0 (peers cid)))"
proof -
  have "table_inv lib links peers m0 (nt_writer (net_new m0 conns0)) (nt_manager (net_new m0 conns0), nt_conns (net_new m0 conns0))"
    using assms(2) at_start_shows by (simp add: table_inv_def net_new_def entry_right_def)
  with peer_key_inj [OF assms(1)] have start: "inj (peer_key (pl_id_bytes lib))
      \<and> table_inv lib links peers m0 (nt_writer (net_new m0 conns0)) (nt_manager (net_new m0 conns0), nt_conns (net_new m0 conns0))" ..
  have inv: "table_inv lib links peers m0 (nt_writer s) (nt_manager s, nt_conns s)"
    using peer_table.inv_run [OF start, of ops] assms(3) by (simp add: list_all_iff)
  from table_inv_entry [OF inv] table_inv_sole [OF inv] show ?thesis by (intro conjI allI impI)
qed

theorem peer_table_exact_witness:
  "let links = (\<lambda>cid. perfect_link []);
       s = (foldl (net_step keepalive_lib links (\<lambda>cid. min cid 2))
             (net_new (sync_manager_new 9) (\<lambda>cid. Incoming (serve_start (links cid))))
             [Section 1, Section 2, Section 1, Section 1, Section 1, Section 3, Section 2, Section 2, Section 2]
           :: (u8, unit, u8) net)
   in table_state keepalive_lib (nt_manager s) 1 = Some Synchronized
      \<and> nt_writer s 2 = Some 2 \<and> table_state keepalive_lib (nt_manager s) 2 = Some Synchronized
      \<and> shown_state (links 3) (nt_conns s 3) = Some Syncing" (is "let links = _; s = ?run links in _")
proof -
  define s where "s = ?run (\<lambda>cid. perfect_link [])"
  have conns: "nt_conns s 1 = Incoming \<lparr>cn_pc = SvDone (Ok ()), cn_rx = [], cn_out = [], cn_writes = 0\<rparr>"
      "nt_conns s 2 = Incoming \<lparr>cn_pc = SvDone (Ok ()), cn_rx = [], cn_out = [], cn_writes = 0\<rparr>"
      "nt_conns s 3 = Incoming \<lparr>cn_pc = SvOffset, cn_rx = [], cn_out = [], cn_writes = 0\<rparr>"
      "nt_writer s 1 = Some 1" "nt_writer s 2 = Some 2"
    by (simp_all add: s_def net_new_def serve_section_def serve_start_def serve_read_def perfect_link_def min_def)
  have codec: "id_codec (pl_id_bytes keepalive_lib) (\<lambda>bs. Inr (hd bs))"
    using u8_id_codec by (simp add: keepalive_lib_def)
  note table = peer_table_exact [OF codec _ s_def [symmetric]]
  have "table_state keepalive_lib (nt_manager s) 1 = Some Synchronized"
      "table_state keepalive_lib (nt_manager s) 2 = Some Synchronized"
    using table [of 1] table [of 2] conns by (simp_all add: perfect_link_def)
  with conns show ?thesis unfolding Let_def s_def [symmetric] by (simp add: perfect_link_def)
qed



end
