(* ===== verification/Concurrent_Notify.thy ===== *)
theory Concurrent_Notify
  imports Notify "HOL-Library.Multiset"
begin

section \<open>Concurrent calls of one notifier\<close>

text \<open>
  A \<open>ChangeObserver\<close> is shared between threads. \<open>notify_local\<close> takes its
  number under one lock and publishes under another, and \<open>notify\<close> only reads the
  table of subscribers, so several calls send at the same time. Here numbering, building the
  event, and the send to each single subscriber are steps, and any number of calls interleave
  them. Subscribing and unsubscribing take the table for writing and wait until no call is
  sending.
\<close>

subsection \<open>Sections of a call\<close>

text \<open>One turn of the loop of \<open>notify\<close>: the send to one subscriber.\<close>

definition send_one ::
  "('tx \<Rightarrow> 'id change_event \<Rightarrow> bool \<times> 'tx) \<Rightarrow> 'id change_event \<Rightarrow> u64 \<Rightarrow> 'tx notifier \<Rightarrow> 'tx notifier" where
  "send_one send event sid n =
     (case fmlookup (nf_subscribers n) sid of
        None \<Rightarrow> n
      | Some e \<Rightarrow> n\<lparr>nf_subscribers := fmupd sid (e\<lparr>sb_sender := snd (send (sb_sender e) event)\<rparr>) (nf_subscribers n)\<rparr>)"

definition numbered_event :: "int \<Rightarrow> u64 \<Rightarrow> change \<Rightarrow> 'id change_event" where
  "numbered_event now seq c =
     \<lparr>ev_type = event_type_of (ch_operation c), ev_change = c, ev_source_peer = None, ev_sequence = seq,
      ev_timestamp_secs = current_timestamp_secs now\<rparr>"

lemma send_one_lookup:
  "fmlookup (nf_subscribers (send_one send event sid n)) k =
     (if k = sid then map_option (\<lambda>e. e\<lparr>sb_sender := snd (send (sb_sender e) event)\<rparr>) (fmlookup (nf_subscribers n) k)
      else fmlookup (nf_subscribers n) k)"
  by (simp add: send_one_def split: option.split)

lemma send_one_frame [simp]:
  "nf_sequence (send_one send event sid n) = nf_sequence n"
  "nf_buffer_size (send_one send event sid n) = nf_buffer_size n"
  "fmdom (nf_subscribers (send_one send event sid n)) = fmdom (nf_subscribers n)"
  by (auto simp: send_one_def fmdomI finsert_absorb split: option.split)

text \<open>A call that nobody interrupts is \<open>notify\<close>.\<close>

lemma send_each_lookup:
  "distinct ids \<Longrightarrow> fmlookup (nf_subscribers (fold (send_one send event) ids n)) k =
     (if k \<in> set ids then map_option (\<lambda>e. e\<lparr>sb_sender := snd (send (sb_sender e) event)\<rparr>) (fmlookup (nf_subscribers n) k)
      else fmlookup (nf_subscribers n) k)"
  by (induction ids arbitrary: n) (auto simp: send_one_lookup)

lemma send_each_frame:
  "nf_sequence (fold (send_one send event) ids n) = nf_sequence n
   \<and> nf_buffer_size (fold (send_one send event) ids n) = nf_buffer_size n"
  by (induction ids arbitrary: n) simp_all

lemma send_each_notify:
  assumes "distinct ids" "set ids = fset (fmdom (nf_subscribers n))"
  shows "fold (send_one send event) ids n = notify send event n"
proof -
  have "nf_subscribers (fold (send_one send event) ids n) = nf_subscribers (notify send event n)"
  proof (rule fmap_ext)
    fix k
    show "fmlookup (nf_subscribers (fold (send_one send event) ids n)) k = fmlookup (nf_subscribers (notify send event n)) k"
      using assms(2) by (cases "fmlookup (nf_subscribers n) k")
        (auto simp: send_each_lookup [OF assms(1)] notify_def fmdomI fmdom_notI)
  qed
  then show ?thesis
    using send_each_frame [of send event ids n] by (simp add: notify_def)
qed

subsection \<open>Calls in flight\<close>

text \<open>
  A call holds its number, or an event and the subscribers it has not sent it to.
  \<open>br_published\<close> are the events in the order in which their calls began to send.
\<close>

datatype 'id notify_call = Numbered u64 change | Sending "'id change_event" "u64 list"

datatype 'id bus_op =
    BeginLocal change
  | BeginSend u64 change int
  | BeginSync change 'id int
  | SendNext "'id change_event" u64 "u64 list"
  | EndSend "'id change_event"
  | Subscribing subscription_filter
  | Unsubscribing u64

record ('tx, 'id) bus_race =
  br_notifier :: "'tx notifier"
  br_flight :: "'id notify_call multiset"
  br_published :: "'id change_event list"

definition sending :: "'id notify_call multiset \<Rightarrow> bool" where
  "sending F \<longleftrightarrow> (\<exists>call \<in># F. case call of Sending e ids \<Rightarrow> True | _ \<Rightarrow> False)"

definition start_sending ::
  "(u64 fset \<Rightarrow> u64 list) \<Rightarrow> 'id change_event \<Rightarrow> 'id notify_call multiset \<Rightarrow> ('tx, 'id) bus_race \<Rightarrow> ('tx, 'id) bus_race" where
  "start_sending iter e F r =
     r\<lparr>br_flight := add_mset (Sending e (iter (fmdom (nf_subscribers (br_notifier r))))) F,
       br_published := br_published r @ [e]\<rparr>"

fun bus_step ::
  "('tx \<Rightarrow> 'id change_event \<Rightarrow> bool \<times> 'tx) \<Rightarrow> (nat \<Rightarrow> ('tx \<times> 'rx) option) \<Rightarrow> (u64 fset \<Rightarrow> u64 list)
     \<Rightarrow> ('tx, 'id) bus_race \<Rightarrow> 'id bus_op \<Rightarrow> ('tx, 'id) bus_race" where
  "bus_step send channel iter r (BeginLocal c) =
     (case inc_sequence (br_notifier r) of (seq, n) \<Rightarrow>
        r\<lparr>br_notifier := n, br_flight := add_mset (Numbered seq c) (br_flight r)\<rparr>)"
| "bus_step send channel iter r (BeginSend seq c now) =
     (if Numbered seq c \<in># br_flight r then
        start_sending iter (numbered_event now seq c) (br_flight r - {#Numbered seq c#}) r
      else r)"
| "bus_step send channel iter r (BeginSync c peer now) =
     start_sending iter (change_event_from_sync now c 0 peer) (br_flight r) r"
| "bus_step send channel iter r (SendNext e sid ids) =
     (if Sending e (sid # ids) \<in># br_flight r then
        r\<lparr>br_notifier := send_one send e sid (br_notifier r),
          br_flight := add_mset (Sending e ids) (br_flight r - {#Sending e (sid # ids)#})\<rparr>
      else r)"
| "bus_step send channel iter r (EndSend e) = r\<lparr>br_flight := br_flight r - {#Sending e []#}\<rparr>"
| "bus_step send channel iter r (Subscribing f) =
     (if sending (br_flight r) then r else r\<lparr>br_notifier := snd (subscribe channel f (br_notifier r))\<rparr>)"
| "bus_step send channel iter r (Unsubscribing sid) =
     (if sending (br_flight r) then r else r\<lparr>br_notifier := unsubscribe sid (br_notifier r)\<rparr>)"

subsection \<open>What a subscriber gets\<close>

text \<open>
  A channel of \<open>tokio::sync::broadcast\<close> is a ring: while it has a receiver
  (\<open>alive\<close>), a send keeps the last \<open>cap\<close> events, the new one at the end,
  and overwrites the one before them; a receiver that has not read the overwritten one lags.
  \<open>contents\<close> is what the channel keeps. The events that were sent to a subscriber,
  together with those on their way to it, are the published ones. The numbers given out are the
  first ones.
\<close>

definition ring_channel ::
  "('tx \<Rightarrow> 'e \<Rightarrow> bool \<times> 'tx) \<Rightarrow> ('tx \<Rightarrow> 'e list) \<Rightarrow> ('tx \<Rightarrow> bool) \<Rightarrow> nat \<Rightarrow> bool" where
  "ring_channel send contents alive cap \<longleftrightarrow>
     (\<forall>tx e. alive (snd (send tx e)) = alive tx
        \<and> (alive tx \<longrightarrow> contents (snd (send tx e)) = last_n cap (contents tx @ [e])))"

lemma last_n_snoc_last_n: "last_n n (last_n n xs @ [x]) = last_n n (xs @ [x])"
proof (cases "length xs < n")
  case True
  then show ?thesis by (simp add: last_n_all)
next
  case False
  then have "last_n n (last_n n xs @ [x]) = drop 1 (last_n n (last_n n xs) @ [x])"
    by (intro last_n_snoc_full) simp
  with False last_n_snoc_full [of n xs x] show ?thesis by simp
qed

definition on_the_way :: "u64 \<Rightarrow> 'id notify_call multiset \<Rightarrow> 'id change_event multiset" where
  "on_the_way sid F = \<Sum>\<^sub># (image_mset
     (\<lambda>call. case call of Sending e ids \<Rightarrow> if sid \<in> set ids then {#e#} else {#} | _ \<Rightarrow> {#}) F)"

definition numbers :: "'id notify_call multiset \<Rightarrow> u64 multiset" where
  "numbers F = \<Sum>\<^sub># (image_mset (\<lambda>call. case call of Numbered seq c \<Rightarrow> {#seq#} | _ \<Rightarrow> {#}) F)"

definition unsent :: "'id notify_call multiset \<Rightarrow> change multiset" where
  "unsent F = \<Sum>\<^sub># (image_mset (\<lambda>call. case call of Numbered seq c \<Rightarrow> {#c#} | _ \<Rightarrow> {#}) F)"

lemma flight_simps [simp]:
  "on_the_way sid {#} = {#}" "numbers {#} = {#}" "unsent {#} = {#}"
  "on_the_way sid (add_mset (Numbered seq c) F) = on_the_way sid F"
  "on_the_way sid (add_mset (Sending e ids) F) = (if sid \<in> set ids then {#e#} else {#}) + on_the_way sid F"
  "numbers (add_mset (Numbered seq c) F) = add_mset seq (numbers F)"
  "numbers (add_mset (Sending e ids) F) = numbers F"
  "unsent (add_mset (Numbered seq c) F) = add_mset c (unsent F)"
  "unsent (add_mset (Sending e ids) F) = unsent F"
  by (simp_all add: on_the_way_def numbers_def unsent_def)

abbreviation local_ones :: "'id change_event list \<Rightarrow> 'id change_event list" where
  "local_ones es \<equiv> filter (\<lambda>e. ev_source_peer e = None) es"

fun begun :: "'id bus_op list \<Rightarrow> change list" where
  "begun [] = []"
| "begun (BeginLocal c # ops) = c # begun ops"
| "begun (op # ops) = begun ops"

lemma begun_append: "begun (xs @ ys) = begun xs @ begun ys"
  by (induction xs rule: begun.induct) simp_all

definition first_numbers :: "nat \<Rightarrow> u64 multiset" where
  "first_numbers n = mset (map of_nat [1 ..< Suc n])"

lemma first_numbers_simps [simp]:
  "first_numbers 0 = {#}" "first_numbers (Suc n) = add_mset (of_nat (Suc n)) (first_numbers n)"
  by (simp_all add: first_numbers_def)

definition bus_inv ::
  "('tx \<Rightarrow> 'id change_event list) \<Rightarrow> ('tx \<Rightarrow> bool) \<Rightarrow> nat \<Rightarrow> ('tx, 'id) bus_race \<Rightarrow> change list \<Rightarrow> bool" where
  "bus_inv contents alive cap r cs \<longleftrightarrow>
     (\<forall>e ids. Sending e ids \<in># br_flight r \<longrightarrow> distinct ids)
     \<and> (\<forall>sid sb. fmlookup (nf_subscribers (br_notifier r)) sid = Some sb \<and> alive (sb_sender sb) \<longrightarrow>
          (\<exists>es. contents (sb_sender sb) = last_n cap es
             \<and> mset es + on_the_way sid (br_flight r) = mset (br_published r)))
     \<and> mset (map ev_change (local_ones (br_published r))) + unsent (br_flight r) = mset cs
     \<and> mset (map ev_sequence (local_ones (br_published r))) + numbers (br_flight r) = first_numbers (length cs)
     \<and> nf_sequence (br_notifier r) = of_nat (length cs)"

definition steady :: "'id bus_op \<Rightarrow> bool" where
  "steady op \<longleftrightarrow> (case op of Subscribing f \<Rightarrow> False | Unsubscribing sid \<Rightarrow> False | _ \<Rightarrow> True)"

lemma bus_inv_start_sending:
  assumes "bus_inv contents alive cap r cs" "\<And>S. distinct (iter S) \<and> set (iter S) = fset S"
    and "\<forall>e' ids. Sending e' ids \<in># F \<longrightarrow> distinct ids"
    and "\<And>sid. on_the_way sid F = on_the_way sid (br_flight r)"
    and "mset (map ev_change (local_ones [e])) + unsent F = unsent (br_flight r)"
    and "mset (map ev_sequence (local_ones [e])) + numbers F = numbers (br_flight r)"
  shows "bus_inv contents alive cap (start_sending iter e F r) cs"
proof -
  let ?r = "start_sending iter e F r" and ?ids = "iter (fmdom (nf_subscribers (br_notifier r)))"
  have grows: "mset (map f (local_ones (br_published ?r))) + X
      = mset (map f (local_ones (br_published r))) + (mset (map f (local_ones [e])) + X)" for f :: "_ \<Rightarrow> 'z" and X
    by (simp add: start_sending_def)
  have "mset (map ev_change (local_ones (br_published ?r))) + unsent (br_flight ?r) = mset cs"
    "mset (map ev_sequence (local_ones (br_published ?r))) + numbers (br_flight ?r) = first_numbers (length cs)"
    using assms(1,5,6) unfolding grows by (simp_all add: bus_inv_def start_sending_def)
  moreover have "sid \<in> set ?ids" if "fmlookup (nf_subscribers (br_notifier r)) sid = Some sb" for sid sb
    using that assms(2) by (auto simp: fmdomI)
  ultimately show ?thesis
    using assms(1-4) unfolding bus_inv_def by (fastforce simp: start_sending_def)
qed

lemma bus_inv_send:
  assumes inv: "bus_inv contents alive cap r cs" and ring: "ring_channel send contents alive cap"
    and F: "br_flight r = add_mset (Sending e (sid # ids)) F"
  shows "bus_inv contents alive cap (r\<lparr>br_notifier := send_one send e sid (br_notifier r), br_flight := add_mset (Sending e ids) F\<rparr>) cs"
proof -
  have ids: "distinct (sid # ids)" using inv F by (auto simp: bus_inv_def)
  have got: "\<exists>es. contents (sb_sender sb) = last_n cap es \<and> mset es + on_the_way k (br_flight r) = mset (br_published r)"
    if "fmlookup (nf_subscribers (br_notifier r)) k = Some sb" "alive (sb_sender sb)" for k sb
    using inv that by (simp add: bus_inv_def)
  have "\<exists>es. contents (sb_sender sb') = last_n cap es
         \<and> mset es + on_the_way k (add_mset (Sending e ids) F) = mset (br_published r)"
    if lookup: "fmlookup (nf_subscribers (send_one send e sid (br_notifier r))) k = Some sb'" "alive (sb_sender sb')" for k sb'
  proof (cases "k = sid")
    case True
    with lookup obtain sb where sb: "fmlookup (nf_subscribers (br_notifier r)) k = Some sb"
        "sb' = sb\<lparr>sb_sender := snd (send (sb_sender sb) e)\<rparr>" by (auto simp: send_one_lookup)
    with lookup ring have alive: "alive (sb_sender sb)" by (simp add: ring_channel_def)
    from got [OF sb(1) this] obtain es where es: "contents (sb_sender sb) = last_n cap es"
        "mset es + on_the_way k (br_flight r) = mset (br_published r)" by blast
    with ring alive sb(2) have "contents (sb_sender sb') = last_n cap (es @ [e])"
      by (simp add: ring_channel_def last_n_snoc_last_n)
    with es(2) F ids True show ?thesis by (intro exI [of _ "es @ [e]"]) simp
  next
    case False
    with lookup got [of k sb'] F show ?thesis by (simp add: send_one_lookup)
  qed
  with inv F ids show ?thesis unfolding bus_inv_def by simp
qed

lemma bus_inv_step:
  assumes inv: "bus_inv contents alive cap r cs" and send: "ring_channel send contents alive cap"
    and iter: "\<And>S. distinct (iter S) \<and> set (iter S) = fset S" and op: "steady op"
  shows "bus_inv contents alive cap (bus_step send channel iter r op) (cs @ begun [op])"
proof (cases op)
  case (BeginLocal c)
  then show ?thesis
    using inv by (auto simp: bus_inv_def inc_sequence_def add.commute)
next
  case (BeginSend seq c now)
  show ?thesis
  proof (cases "Numbered seq c \<in># br_flight r")
    case True
    then obtain F where F: "br_flight r = add_mset (Numbered seq c) F" by (metis multi_member_split)
    have "bus_inv contents alive cap (start_sending iter (numbered_event now seq c) F r) cs"
      by (rule bus_inv_start_sending [OF inv iter]) (use inv F in \<open>auto simp: bus_inv_def numbered_event_def\<close>)
    with BeginSend F show ?thesis by simp
  qed (use BeginSend inv in simp)
next
  case (BeginSync c peer now)
  have "bus_inv contents alive cap (start_sending iter (change_event_from_sync now c 0 peer) (br_flight r) r) cs"
    by (rule bus_inv_start_sending [OF inv iter]) (use inv in \<open>auto simp: bus_inv_def change_event_from_sync_def\<close>)
  with BeginSync show ?thesis by simp
next
  case (SendNext e sid ids)
  show ?thesis
  proof (cases "Sending e (sid # ids) \<in># br_flight r")
    case True
    then obtain F where F: "br_flight r = add_mset (Sending e (sid # ids)) F" by (metis multi_member_split)
    from bus_inv_send [OF inv send this] SendNext F show ?thesis by simp
  qed (use SendNext inv in simp)
next
  case (EndSend e)
  show ?thesis
  proof (cases "Sending e [] \<in># br_flight r")
    case True
    then obtain F where "br_flight r = add_mset (Sending e []) F" by (metis multi_member_split)
    with EndSend inv show ?thesis by (auto simp: bus_inv_def)
  qed (use EndSend inv in \<open>simp add: diff_single_trivial\<close>)
qed (use op in \<open>simp_all add: steady_def\<close>)

interpretation bus: simulation "bus_step send channel iter" "\<lambda>cs op. cs @ begun [op]"
    "\<lambda>r cs. ring_channel send contents alive cap \<and> (\<forall>S. distinct (iter S) \<and> set (iter S) = fset S) \<and> bus_inv contents alive cap r cs" steady
  by unfold_locales (simp add: bus_inv_step)

lemma begun_run: "foldl (\<lambda>cs op. cs @ begun [op]) cs ops = cs @ begun ops"
  by (induction ops arbitrary: cs) (simp_all flip: begun_append)

subsection \<open>One call after another subscriber\<close>

text \<open>The sends of a call to the subscribers \<open>xs\<close>, with \<open>ys\<close> left for later.\<close>

fun sends :: "'id change_event \<Rightarrow> u64 list \<Rightarrow> u64 list \<Rightarrow> 'id bus_op list" where
  "sends e [] ys = []"
| "sends e (x # xs) ys = SendNext e x (xs @ ys) # sends e xs ys"

lemma sends_run:
  "br_flight r = add_mset (Sending e (xs @ ys)) F \<Longrightarrow>
     foldl (bus_step send channel iter) r (sends e xs ys)
     = r\<lparr>br_notifier := fold (send_one send e) xs (br_notifier r), br_flight := add_mset (Sending e ys) F\<rparr>"
  by (induction xs arbitrary: r) simp_all

lemma steady_sends: "list_all steady (sends e xs ys)" and begun_sends: "begun (sends e xs ys) = []"
  by (induction xs) (simp_all add: steady_def)

text \<open>
  Two local notifications that cross: the first one sends up to \<open>xs\<close>, the second one
  to all, the first one to the rest \<open>ys\<close>.
\<close>

definition crossing ::
  "u64 \<Rightarrow> int \<Rightarrow> change \<Rightarrow> change \<Rightarrow> u64 list \<Rightarrow> u64 list \<Rightarrow> 'id bus_op list" where
  "crossing seq now c1 c2 xs ys =
     (let e1 = numbered_event now (seq + 1) c1; e2 = numbered_event now (seq + 2) c2
      in [BeginLocal c1, BeginLocal c2, BeginSend (seq + 1) c1 now, BeginSend (seq + 2) c2 now]
         @ sends e1 xs ys @ sends e2 (xs @ ys) [] @ sends e1 ys [] @ [EndSend e1, EndSend e2])"

lemma crossing_steady: "list_all steady (crossing seq now c1 c2 xs ys)"
  by (simp add: crossing_def Let_def steady_sends) (simp add: steady_def)

lemma crossing_begun: "begun (crossing seq now c1 c2 xs ys) = [c1, c2]"
  by (simp add: crossing_def Let_def begun_append begun_sends)

lemma numbered_differ [simp]:
  "numbered_event now (seq + 1) c1 \<noteq> numbered_event now (seq + 2) c2"
  "numbered_event now (seq + 2) c2 \<noteq> numbered_event now (seq + 1) c1"
  by (simp_all add: numbered_event_def)

lemma crossing_run:
  fixes send :: "'tx \<Rightarrow> 'id change_event \<Rightarrow> bool \<times> 'tx"
  assumes "iter (fmdom (nf_subscribers n)) = xs @ ys"
  shows "foldl (bus_step send channel iter) \<lparr>br_notifier = n, br_flight = {#}, br_published = []\<rparr>
           (crossing (nf_sequence n) now c1 c2 xs ys)
     = (let e1 = numbered_event now (nf_sequence n + 1) c1; e2 = numbered_event now (nf_sequence n + 2) c2
        in \<lparr>br_notifier = fold (send_one send e1) ys (fold (send_one send e2) (xs @ ys) (fold (send_one send e1) xs
              (n\<lparr>nf_sequence := nf_sequence n + 2\<rparr>))),
            br_flight = {#}, br_published = [e1, e2]\<rparr>)"
proof -
  let ?e1 = "numbered_event now (nf_sequence n + 1) c1 :: 'id change_event"
  let ?e2 = "numbered_event now (nf_sequence n + 2) c2 :: 'id change_event"
  let ?step = "bus_step send channel iter" and ?n = "n\<lparr>nf_sequence := nf_sequence n + 2\<rparr>"
  let ?n1 = "fold (send_one send ?e1) xs ?n" and ?opening = "[BeginLocal c1, BeginLocal c2, BeginSend (nf_sequence n + 1) c1 now, BeginSend (nf_sequence n + 2) c2 now]"
  let ?n2 = "fold (send_one send ?e2) (xs @ ys) ?n1"
  let ?at = "\<lambda>n F. \<lparr>br_notifier = n, br_flight = F, br_published = [?e1, ?e2]\<rparr>"
  have "foldl ?step \<lparr>br_notifier = n, br_flight = {#}, br_published = []\<rparr> ?opening
      = ?at ?n {#Sending ?e1 (xs @ ys), Sending ?e2 (xs @ ys)#}"
    using assms by (simp add: inc_sequence_def start_sending_def add_mset_commute add.commute [of "2 :: u64"])
  moreover have "foldl ?step (?at ?n {#Sending ?e1 (xs @ ys), Sending ?e2 (xs @ ys)#}) (sends ?e1 xs ys)
      = ?at ?n1 {#Sending ?e1 ys, Sending ?e2 (xs @ ys)#}"
    by (subst sends_run) simp_all
  moreover have "foldl ?step (?at ?n1 {#Sending ?e1 ys, Sending ?e2 (xs @ ys)#}) (sends ?e2 (xs @ ys) [])
      = ?at ?n2 {#Sending ?e2 [], Sending ?e1 ys#}"
    by (subst sends_run [where F = "{#Sending ?e1 ys#}"]) simp_all
  moreover have "foldl ?step (?at ?n2 {#Sending ?e2 [], Sending ?e1 ys#}) (sends ?e1 ys [])
      = ?at (fold (send_one send ?e1) ys ?n2) {#Sending ?e1 [], Sending ?e2 []#}"
    by (subst sends_run [where F = "{#Sending ?e2 []#}"]) simp_all
  ultimately show ?thesis
    by (simp only: crossing_def Let_def foldl_append) simp
qed

subsection \<open>Properties\<close>

text \<open>
  C18. Concurrent notifications lose and duplicate nothing on their way into the channels:
  whatever calls of \<open>notify_local\<close> and \<open>notify_sync\<close> interleave while
  nobody subscribes or unsubscribes, when none is in flight every subscriber whose receiver is
  alive has been sent the same events, once each, in some order, of which its channel keeps the
  last \<open>cap\<close> (its capacity, so a receiver that lags loses the others): the events of
  the syncs, and one for each local change, which carry the numbers 1, 2, 3 and so on, each once.
\<close>

theorem concurrent_notifications_conserve:
  assumes "ring_channel send contents alive cap" "\<And>S. distinct (iter S) \<and> set (iter S) = fset S" "list_all steady ops"
    and "\<forall>sid sb. fmlookup (nf_subscribers n) sid = Some sb \<longrightarrow> contents (sb_sender sb) = []" "nf_sequence n = 0"
    and "foldl (bus_step send channel iter) \<lparr>br_notifier = n, br_flight = {#}, br_published = []\<rparr> ops = r"
    and "br_flight r = {#}"
  shows "(\<forall>sid sb. fmlookup (nf_subscribers (br_notifier r)) sid = Some sb \<and> alive (sb_sender sb) \<longrightarrow>
             (\<exists>es. mset es = mset (br_published r) \<and> contents (sb_sender sb) = last_n cap es))
     \<and> mset (map ev_change (local_ones (br_published r))) = mset (begun ops)
     \<and> mset (map ev_sequence (local_ones (br_published r))) = mset (map of_nat [1 ..< Suc (length (begun ops))])"
proof -
  let ?r0 = "\<lparr>br_notifier = n, br_flight = {#}, br_published = []\<rparr>"
  have "bus_inv contents alive cap ?r0 []"
    using assms(4,5) by (auto simp: bus_inv_def)
  with assms(1,2) have "ring_channel send contents alive cap
      \<and> (\<forall>S. distinct (iter S) \<and> set (iter S) = fset S) \<and> bus_inv contents alive cap ?r0 []"
    by blast
  from bus.sim_run [OF this assms(3), of channel] have "bus_inv contents alive cap r (begun ops)"
    using assms(6) begun_run [of "[]" ops] by simp
  with assms(7) show ?thesis by (auto simp: bus_inv_def first_numbers_def)
qed

text \<open>Two subscribers with channels that keep the last \<open>k\<close> events.\<close>

definition keep_last :: "nat \<Rightarrow> 'e list \<Rightarrow> 'e \<Rightarrow> bool \<times> 'e list" where
  "keep_last k tx e = (True, last_n k (tx @ [e]))"

lemma keep_last_ring: "ring_channel (keep_last k) (\<lambda>tx. tx) (\<lambda>tx. True) k"
  by (simp add: ring_channel_def keep_last_def)

definition two_subscribers :: "'id change_event list notifier" where
  "two_subscribers =
     snd (subscribe (\<lambda>b. Some ([], ())) filter_everything
       (snd (subscribe (\<lambda>b. Some ([], ())) filter_everything (notifier_new 100))))"

lemma two_subscribers_simps:
  "nf_subscribers two_subscribers
     = fmupd 2 \<lparr>sb_filter = filter_everything, sb_sender = []\<rparr>
         (fmupd 1 \<lparr>sb_filter = filter_everything, sb_sender = []\<rparr> fmempty)"
  "nf_sequence two_subscribers = 0"
  by (simp_all add: two_subscribers_def subscribe_def Let_def notifier_new_def subscriber_count_def)

definition in_order :: "u64 fset \<Rightarrow> u64 list" where
  "in_order S = sorted_list_of_set (fset S)"

lemma in_order_lists: "distinct (in_order S) \<and> set (in_order S) = fset S"
  by (simp add: in_order_def)

lemma in_order_two: "in_order (fmdom (nf_subscribers two_subscribers)) = [1] @ [2]"
  by (simp add: in_order_def two_subscribers_simps word_le_nat_alt)

theorem concurrent_notifications_conserve_witness:
  "let c = (\<lambda>k. change_set k 0 ''n'' ''d'' [1] [2]);
       r = (foldl (bus_step (keep_last 1) (\<lambda>b. Some ([], ())) in_order)
             \<lparr>br_notifier = two_subscribers, br_flight = {#}, br_published = []\<rparr> (crossing 0 7 (c 1) (c 2) [1] [2])
            :: (nat change_event list, nat) bus_race)
   in (\<exists>es. mset es = mset (br_published r)
        \<and> map_option sb_sender (fmlookup (nf_subscribers (br_notifier r)) 2) = Some (last_n 1 es))
      \<and> mset (map ev_sequence (local_ones (br_published r))) = {#1, 2#}"
  (is "let c = _; r = ?run c in _")
proof -
  let ?c = "\<lambda>k. change_set k 0 ''n'' ''d'' [1] [2]"
  define r :: "(nat change_event list, nat) bus_race" where "r = ?run ?c"
  have empty: "\<forall>sid sb. fmlookup (nf_subscribers two_subscribers) sid = Some sb \<longrightarrow> sb_sender sb = []"
    by (auto simp: two_subscribers_simps split: if_splits)
  note run = crossing_run [where iter = in_order and n = two_subscribers and xs = "[1]" and ys = "[2]"
      and send = "keep_last 1 :: nat change_event list \<Rightarrow> _" and channel = "\<lambda>b. Some ([], ())" and now = 7 and ?c1.0 = "?c 1" and ?c2.0 = "?c 2",
      OF in_order_two, unfolded two_subscribers_simps(2), folded r_def]
  then have quiet: "br_flight r = {#}" by (simp add: Let_def)
  note c = concurrent_notifications_conserve
    [OF keep_last_ring in_order_lists crossing_steady empty two_subscribers_simps(2) r_def [symmetric] quiet]
  obtain sb where "fmlookup (nf_subscribers (br_notifier r)) 2 = Some sb"
    using run by (auto simp: Let_def send_one_lookup two_subscribers_simps)
  with c show ?thesis
    unfolding Let_def r_def [symmetric] by (auto simp: crossing_begun)
qed

lemma two_in_a_list:
  assumes "a \<in> set ids" "b \<in> set ids" "a \<noteq> b"
  shows "\<exists>x y xs ys. ids = xs @ ys \<and> x \<in> set xs \<and> y \<in> set ys \<and> {x, y} = {a, b}"
proof -
  obtain pre post where ids: "ids = pre @ a # post" using split_list [OF assms(1)] by blast
  from assms(2,3) ids consider "b \<in> set pre" | "b \<in> set post" by auto
  then show ?thesis
  proof cases
    case 1
    with ids show ?thesis by (intro exI [of _ b] exI [of _ a] exI [of _ pre] exI [of _ "a # post"]) auto
  next
    case 2
    with ids show ?thesis by (intro exI [of _ a] exI [of _ b] exI [of _ "pre @ [a]"] exI [of _ post]) auto
  qed
qed

lemma ring_two:
  assumes "ring_channel send contents alive cap" "2 \<le> cap" "alive tx"
  shows "last_n 2 (contents (snd (send (snd (send tx e)) e'))) = [e, e']"
proof -
  have "contents (snd (send (snd (send tx e)) e')) = last_n cap (contents tx @ [e, e'])"
    using assms(1,3) last_n_snoc_last_n [of cap "contents tx @ [e]" e'] by (simp add: ring_channel_def)
  moreover have "last_n 2 (contents tx @ [e, e']) = [e, e']" by (simp add: last_n_def)
  ultimately show ?thesis using assms(2) by (simp add: min_def)
qed

text \<open>
  C19. The order is not kept: whenever a notifier has two subscribers with live receivers over
  channels that keep at least two events, for any two changes there are two overlapping calls of
  \<open>notify_local\<close>, with no subscription meanwhile, after which nothing is in flight,
  one of the two subscribers has received the changes in the order of their numbers and the other
  one in the opposite order, whatever the order in which the table of subscribers is iterated.
\<close>

theorem concurrent_notifications_reorder:
  assumes "ring_channel send contents alive cap" "2 \<le> cap" "\<And>S. distinct (iter S) \<and> set (iter S) = fset S"
    and "a \<noteq> b" "fmlookup (nf_subscribers n) a = Some sa" "alive (sb_sender sa)"
    and "fmlookup (nf_subscribers n) b = Some sb" "alive (sb_sender sb)"
  shows "\<exists>ops x y sx sy.
     (let r = foldl (bus_step send channel iter) \<lparr>br_notifier = n, br_flight = {#}, br_published = []\<rparr> ops;
          e1 = numbered_event now (nf_sequence n + 1) c1; e2 = numbered_event now (nf_sequence n + 2) c2
      in list_all steady ops \<and> begun ops = [c1, c2] \<and> br_flight r = {#} \<and> {x, y} = {a, b}
         \<and> fmlookup (nf_subscribers (br_notifier r)) x = Some sx \<and> last_n 2 (contents (sb_sender sx)) = [e1, e2]
         \<and> fmlookup (nf_subscribers (br_notifier r)) y = Some sy \<and> last_n 2 (contents (sb_sender sy)) = [e2, e1])"
proof -
  let ?ids = "iter (fmdom (nf_subscribers n))"
  let ?e1 = "numbered_event now (nf_sequence n + 1) c1" and ?e2 = "numbered_event now (nf_sequence n + 2) c2"
  have ids: "distinct ?ids" "a \<in> set ?ids" "b \<in> set ?ids"
    using assms(3,5,7) by (simp_all add: fmdomI)
  obtain x y xs ys where split: "?ids = xs @ ys" "x \<in> set xs" "y \<in> set ys" "{x, y} = {a, b}"
    using two_in_a_list [OF ids(2,3) assms(4)] by blast
  obtain sx sy where subs: "fmlookup (nf_subscribers n) x = Some sx" "alive (sb_sender sx)"
      "fmlookup (nf_subscribers n) y = Some sy" "alive (sb_sender sy)"
    using split(4) assms(5-8) by (metis doubleton_eq_iff)
  have d: "distinct xs" "distinct ys" "distinct (xs @ ys)" "x \<notin> set ys" "y \<notin> set xs"
    using ids(1) split(1-3) by auto
  let ?twice = "\<lambda>s e e'. s\<lparr>sb_sender := snd (send (snd (send (sb_sender s) e)) e')\<rparr>"
  let ?n' = "fold (send_one send ?e1) ys (fold (send_one send ?e2) (xs @ ys) (fold (send_one send ?e1) xs
      (n\<lparr>nf_sequence := nf_sequence n + 2\<rparr>)))"
  have "fmlookup (nf_subscribers ?n') x = Some (?twice sx ?e1 ?e2)" "fmlookup (nf_subscribers ?n') y = Some (?twice sy ?e2 ?e1)"
    using split(2,3) subs(1,3) d by (simp_all only: send_each_lookup [OF d(1)] send_each_lookup [OF d(2)] send_each_lookup [OF d(3)]) simp_all
  with ring_two [OF assms(1,2)] subs(2,4) split(4) crossing_run [where iter = iter and n = n and xs = xs and ys = ys and send = send and channel = channel
      and now = now and ?c1.0 = c1 and ?c2.0 = c2, OF split(1)] show ?thesis
    by (intro exI [of _ "crossing (nf_sequence n) now c1 c2 xs ys"] exI [of _ x] exI [of _ y] exI [of _ "?twice sx ?e1 ?e2"]
        exI [of _ "?twice sy ?e2 ?e1"]) (simp add: Let_def crossing_steady crossing_begun)
qed

theorem concurrent_notifications_reorder_witness:
  "\<exists>ops x y sx sy.
     (let r = (foldl (bus_step (keep_last 100) (\<lambda>b. Some ([], ())) in_order)
                \<lparr>br_notifier = two_subscribers, br_flight = {#}, br_published = []\<rparr> ops
               :: (nat change_event list, nat) bus_race)
      in br_flight r = {#} \<and> {x, y} = {1, 2}
         \<and> fmlookup (nf_subscribers (br_notifier r)) x = Some sx \<and> map ev_sequence (last_n 2 (sb_sender sx)) = [1, 2]
         \<and> fmlookup (nf_subscribers (br_notifier r)) y = Some sy \<and> map ev_sequence (last_n 2 (sb_sender sy)) = [2, 1])"
proof -
  have le: "(2 :: nat) \<le> 100" by simp
  have subs: "(1 :: u64) \<noteq> 2"
      "fmlookup (nf_subscribers two_subscribers) 1 = Some \<lparr>sb_filter = filter_everything, sb_sender = []\<rparr>"
      "fmlookup (nf_subscribers two_subscribers) 2 = Some \<lparr>sb_filter = filter_everything, sb_sender = []\<rparr>"
    by (simp_all add: two_subscribers_simps)
  note crossed = concurrent_notifications_reorder
    [where send = "keep_last 100 :: nat change_event list \<Rightarrow> _", OF keep_last_ring [of 100] le in_order_lists subs(1,2) TrueI subs(3) TrueI, of "\<lambda>b. Some ([], ())" 7
      "change_set 1 0 ''n'' ''d'' [1] [2]" "change_set 2 0 ''n'' ''d'' [1] [2]", unfolded two_subscribers_simps(2)]
  show ?thesis
    using crossed by (elim ex_forward) (simp add: Let_def numbered_event_def)
qed

end
