(* ===== verification/Flush_Task.thy ===== *)
theory Flush_Task
  imports Batch "HOL-Library.Multiset"
begin

section \<open>Starting and stopping the flush task of a batcher\<close>

text \<open>
  \<open>start_background_flush_task\<close> looks at the handle, stores a new shutdown sender
  (dropping the old one, which its receiver notices), spawns the task and stores its handle, under
  a lock each time. A task that leaves its loop clears the handle, whichever it is. Starts,
  shutdowns and tasks interleave here section by section; the model of \<open>Batch\<close> takes
  each as one step.
\<close>

datatype task_phase = Created | Looping | Ending | Ended

record flush_task =
  tk_phase :: task_phase
  tk_told :: bool \<comment> \<open>its receiver has seen a signal or the loss of its sender\<close>

datatype start_phase = Checked | Stored nat | Spawned nat

record flush_tasks =
  ft_tasks :: "flush_task list"
  ft_handle :: "nat option"
  ft_shutdown_tx :: "nat option" \<comment> \<open>the task that listens to the stored sender\<close>
  ft_starts :: "start_phase multiset"

datatype task_op =
    StartCheck | StartStore | StartSpawn nat | StartFinish nat
  | LeaveLoop nat | ClearHandle nat | ShutdownSend | ShutdownTake

definition no_tasks :: flush_tasks where
  "no_tasks = \<lparr>ft_tasks = [], ft_handle = None, ft_shutdown_tx = None, ft_starts = {#}\<rparr>"

definition set_phase :: "nat \<Rightarrow> task_phase \<Rightarrow> flush_tasks \<Rightarrow> flush_tasks" where
  "set_phase k p s = s\<lparr>ft_tasks := (ft_tasks s)[k := (ft_tasks s ! k)\<lparr>tk_phase := p\<rparr>]\<rparr>"

text \<open>Sending on a sender, and dropping it, wake the task that listens to it.\<close>

definition tell :: "nat option \<Rightarrow> flush_tasks \<Rightarrow> flush_tasks" where
  "tell k s =
     (case k of
        None \<Rightarrow> s
      | Some k \<Rightarrow> s\<lparr>ft_tasks := (ft_tasks s)[k := (ft_tasks s ! k)\<lparr>tk_told := True\<rparr>]\<rparr>)"

definition start_check :: "flush_tasks \<Rightarrow> flush_tasks" where
  "start_check s =
     (if ft_handle s = None then s\<lparr>ft_starts := add_mset Checked (ft_starts s)\<rparr> else s)"

definition start_store :: "flush_tasks \<Rightarrow> flush_tasks" where
  "start_store s =
     (if Checked \<in># ft_starts s then
        let s1 = tell (ft_shutdown_tx s) s; k = length (ft_tasks s1)
        in s1\<lparr>ft_tasks := ft_tasks s1 @ [\<lparr>tk_phase = Created, tk_told = False\<rparr>],
              ft_shutdown_tx := Some k, ft_starts := add_mset (Stored k) (ft_starts s1 - {#Checked#})\<rparr>
      else s)"

definition start_spawn :: "nat \<Rightarrow> flush_tasks \<Rightarrow> flush_tasks" where
  "start_spawn k s =
     (if Stored k \<in># ft_starts s then
        (set_phase k Looping s)\<lparr>ft_starts := add_mset (Spawned k) (ft_starts s - {#Stored k#})\<rparr>
      else s)"

definition start_finish :: "nat \<Rightarrow> flush_tasks \<Rightarrow> flush_tasks" where
  "start_finish k s =
     (if Spawned k \<in># ft_starts s then
        s\<lparr>ft_handle := Some k, ft_starts := ft_starts s - {#Spawned k#}\<rparr>
      else s)"

definition phase_is :: "flush_tasks \<Rightarrow> nat \<Rightarrow> task_phase \<Rightarrow> bool" where
  "phase_is s k p \<longleftrightarrow> k < length (ft_tasks s) \<and> tk_phase (ft_tasks s ! k) = p"

definition leave_loop :: "nat \<Rightarrow> flush_tasks \<Rightarrow> flush_tasks" where
  "leave_loop k s = (if phase_is s k Looping \<and> tk_told (ft_tasks s ! k) then set_phase k Ending s else s)"

definition clear_handle :: "nat \<Rightarrow> flush_tasks \<Rightarrow> flush_tasks" where
  "clear_handle k s = (if phase_is s k Ending then (set_phase k Ended s)\<lparr>ft_handle := None\<rparr> else s)"

definition shutdown_send :: "flush_tasks \<Rightarrow> flush_tasks" where
  "shutdown_send s = tell (ft_shutdown_tx s) s"

definition shutdown_take :: "flush_tasks \<Rightarrow> flush_tasks" where
  "shutdown_take s = s\<lparr>ft_handle := None\<rparr>"

fun task_step :: "flush_tasks \<Rightarrow> task_op \<Rightarrow> flush_tasks" where
  "task_step s StartCheck = start_check s"
| "task_step s StartStore = start_store s"
| "task_step s (StartSpawn k) = start_spawn k s"
| "task_step s (StartFinish k) = start_finish k s"
| "task_step s (LeaveLoop k) = leave_loop k s"
| "task_step s (ClearHandle k) = clear_handle k s"
| "task_step s ShutdownSend = shutdown_send s"
| "task_step s ShutdownTake = shutdown_take s"

lemmas task_defs = start_check_def start_store_def start_spawn_def start_finish_def leave_loop_def
  clear_handle_def shutdown_send_def shutdown_take_def set_phase_def tell_def

text \<open>A start that nobody interrupts is the one step of \<open>Batch\<close>, seen through the two fields.\<close>

definition task_fields :: "flush_tasks \<Rightarrow> bool \<times> bool" where
  "task_fields s = (ft_shutdown_tx s \<noteq> None, ft_handle s \<noteq> None)"

lemma uninterrupted_start:
  assumes "task_fields s = (bt_shutdown_tx b, bt_task b)" "ft_starts s = {#}"
    and "k = length (ft_tasks s)"
  shows "task_fields (foldl task_step s [StartCheck, StartStore, StartSpawn k, StartFinish k])
       = (bt_shutdown_tx (start_background_flush_task b), bt_task (start_background_flush_task b))"
  using assms
  by (auto simp: task_defs task_fields_def start_background_flush_task_def Let_def split: option.splits)

subsection \<open>Every task but one has been told to stop\<close>

definition tasks_inv :: "flush_tasks \<Rightarrow> bool" where
  "tasks_inv s \<longleftrightarrow>
     (\<forall>k < length (ft_tasks s). tk_told (ft_tasks s ! k) \<or> ft_shutdown_tx s = Some k)
     \<and> (\<forall>k. ft_shutdown_tx s = Some k \<longrightarrow> k < length (ft_tasks s))
     \<and> (\<forall>k < length (ft_tasks s). tk_phase (ft_tasks s ! k) \<in> {Ending, Ended} \<longrightarrow> tk_told (ft_tasks s ! k))"

lemma tasks_inv_step: "tasks_inv s \<Longrightarrow> tasks_inv (task_step s op)"
proof (cases op)
  case StartStore
  assume "tasks_inv s"
  with StartStore show ?thesis
    by (auto simp: tasks_inv_def task_defs Let_def nth_append nth_list_update less_Suc_eq split: option.splits)
next
  case (StartSpawn k)
  assume inv: "tasks_inv s"
  show ?thesis
  proof (cases "k < length (ft_tasks s)")
    case True
    with inv StartSpawn show ?thesis by (auto simp: tasks_inv_def task_defs nth_list_update)
  next
    case False
    with inv StartSpawn show ?thesis by (simp add: tasks_inv_def task_defs)
  qed
qed (auto simp: tasks_inv_def task_defs phase_is_def nth_list_update split: option.splits)

interpretation flush_machine: machine task_step tasks_inv "\<lambda>op. True"
  by unfold_locales (rule tasks_inv_step)

lemma tasks_inv_start: "tasks_inv no_tasks"
  by (simp add: tasks_inv_def no_tasks_def)

subsection \<open>Properties\<close>

text \<open>
  C20. However starts, shutdowns and tasks interleave, at most one flush task has not been told to
  stop, and it is the one the stored sender reaches: after the signal of \<open>shutdown\<close>
  every task in its loop has been told to stop.
\<close>

theorem flush_tasks_stoppable:
  assumes "foldl task_step no_tasks ops = s"
  shows "(\<forall>j k. phase_is s j Looping \<and> \<not> tk_told (ft_tasks s ! j) \<and> phase_is s k Looping \<and> \<not> tk_told (ft_tasks s ! k)
            \<longrightarrow> j = k)
     \<and> (\<forall>k. phase_is (shutdown_send s) k Looping \<longrightarrow> tk_told (ft_tasks (shutdown_send s) ! k))"
proof -
  have inv: "tasks_inv s" "tasks_inv (shutdown_send s)"
    using flush_machine.inv_run [OF tasks_inv_start, of ops] assms tasks_inv_step [of s ShutdownSend]
    by (simp_all add: list_all_iff)
  have "tk_told (ft_tasks (shutdown_send s) ! k)" if "phase_is (shutdown_send s) k Looping" for k
    using that inv by (auto simp: tasks_inv_def phase_is_def shutdown_send_def tell_def nth_list_update split: option.splits)
  moreover have "j = k" if "phase_is s j Looping" "\<not> tk_told (ft_tasks s ! j)" "phase_is s k Looping" "\<not> tk_told (ft_tasks s ! k)" for j k
    using inv(1) that unfolding tasks_inv_def phase_is_def by (metis option.inject)
  ultimately show ?thesis by blast
qed

theorem flush_tasks_stoppable_witness:
  "let s = foldl task_step no_tasks [StartCheck, StartCheck, StartStore, StartSpawn 0, StartStore, StartSpawn 1]
   in phase_is s 0 Looping \<and> phase_is s 1 Looping \<and> (tk_told (ft_tasks s ! 0) \<or> tk_told (ft_tasks s ! 1))"
proof -
  let ?ops = "[StartCheck, StartCheck, StartStore, StartSpawn 0, StartStore, StartSpawn 1]"
  have "phase_is (foldl task_step no_tasks ?ops) 0 Looping" "phase_is (foldl task_step no_tasks ?ops) 1 Looping"
    by (simp_all add: task_defs no_tasks_def Let_def phase_is_def)
  with flush_tasks_stoppable [OF refl, of ?ops] show ?thesis
    unfolding Let_def by (metis zero_neq_one)
qed

text \<open>
  The handle is not the state of the task. Two overlapping starts can leave a running task with no
  handle, so that \<open>is_task_running\<close> denies it; a shutdown that overlaps a start can
  leave the handle of a task that has ended, with no other task, so that every later start does
  nothing and the batcher has no flush task.
\<close>

theorem flush_task_handle_stale:
  "(let s = foldl task_step no_tasks
          [StartCheck, StartCheck, StartStore, StartSpawn 0, StartFinish 0, StartStore, StartSpawn 1, StartFinish 1,
           LeaveLoop 0, ClearHandle 0]
    in phase_is s 1 Looping \<and> \<not> tk_told (ft_tasks s ! 1) \<and> ft_handle s = None \<and> ft_starts s = {#})
   \<and> (let s = foldl task_step no_tasks
          [StartCheck, StartStore, StartSpawn 0, ShutdownSend, ShutdownTake, LeaveLoop 0, ClearHandle 0, StartFinish 0]
      in \<not> (\<exists>k. phase_is s k Looping \<or> phase_is s k Created) \<and> ft_starts s = {#}
         \<and> foldl task_step s (replicate n StartCheck) = s)"
proof -
  let ?ops = "[StartCheck, StartStore, StartSpawn 0, ShutdownSend, ShutdownTake, LeaveLoop 0, ClearHandle 0, StartFinish 0]"
  have s: "foldl task_step no_tasks ?ops
      = \<lparr>ft_tasks = [\<lparr>tk_phase = Ended, tk_told = True\<rparr>], ft_handle = Some 0, ft_shutdown_tx = Some 0, ft_starts = {#}\<rparr>"
    by (simp add: task_defs no_tasks_def Let_def phase_is_def)
  have "foldl task_step s (replicate n StartCheck) = s" if "ft_handle s \<noteq> None" for s
    using that by (induction n) (auto simp: start_check_def)
  then show ?thesis
    unfolding s Let_def by (auto simp: phase_is_def) (simp_all add: task_defs no_tasks_def Let_def phase_is_def)
qed

end
