(* ===== verification/Locks.thy ===== *)
theory Locks
  imports Prelude
begin

section \<open>Threads and read-write locks\<close>

text \<open>
  The locks of the crate are \<open>parking_lot::RwLock\<close>s: any number of readers or one
  writer, not reentrant. A writer that waits keeps new readers out (\<open>queued\<close>), but
  one that has not asked yet does not, so steps are taken without that rule, and that somebody can
  go on is shown with it. A thread is what it still does with locks and the guards it holds; a
  configuration is a list of threads. Where every thread takes its locks in the order of a rank,
  somebody can always go on.
\<close>

datatype mode = Shared | Exclusive

datatype 'l lock_act = Acquire mode 'l | Release 'l

type_synonym 'l thread = "'l lock_act list \<times> (mode \<times> 'l) list"

definition holds :: "mode \<Rightarrow> 'l \<Rightarrow> 'l thread \<Rightarrow> bool" where
  "holds m l t \<longleftrightarrow> List.member (snd t) (m, l)"

fun wants_exclusive :: "'l \<Rightarrow> 'l thread \<Rightarrow> bool" where
  "wants_exclusive l (Acquire Exclusive k # acts, held) \<longleftrightarrow> k = l"
| "wants_exclusive l t \<longleftrightarrow> False"

fun grantable :: "bool \<Rightarrow> 'l thread list \<Rightarrow> mode \<Rightarrow> 'l \<Rightarrow> bool" where
  "grantable queued ts Exclusive l \<longleftrightarrow> \<not> list_ex (\<lambda>t. holds Shared l t \<or> holds Exclusive l t) ts"
| "grantable queued ts Shared l \<longleftrightarrow>
     \<not> list_ex (holds Exclusive l) ts \<and> \<not> (queued \<and> list_ex (wants_exclusive l) ts)"

definition unlock :: "'l \<Rightarrow> (mode \<times> 'l) list \<Rightarrow> (mode \<times> 'l) list" where
  "unlock l held = filter (\<lambda>(m, k). k \<noteq> l) held"

fun thread_step :: "bool \<Rightarrow> 'l thread list \<Rightarrow> 'l thread \<Rightarrow> 'l thread option" where
  "thread_step queued ts ([], held) = None"
| "thread_step queued ts (Release l # acts, held) = Some (acts, unlock l held)"
| "thread_step queued ts (Acquire m l # acts, held) =
     (if grantable queued ts m l then Some (acts, (m, l) # held) else None)"

inductive lock_step :: "bool \<Rightarrow> 'l thread list \<Rightarrow> 'l thread list \<Rightarrow> bool" for queued where
  lock_stepI: "i < length ts \<Longrightarrow> thread_step queued ts (ts ! i) = Some t \<Longrightarrow> lock_step queued ts (ts[i := t])"

inductive_cases lock_stepE: "lock_step queued ts ts'"

definition running :: "'l lock_act list list \<Rightarrow> 'l thread list" where
  "running programs = map (\<lambda>p. (p, [])) programs"

definition finished :: "'l thread list \<Rightarrow> bool" where
  "finished ts \<longleftrightarrow> list_all (\<lambda>t. fst t = []) ts"

text \<open>Nobody can go on, not even past waiting writers.\<close>

definition deadlocked :: "'l thread list \<Rightarrow> bool" where
  "deadlocked ts \<longleftrightarrow> \<not> finished ts \<and> list_all (\<lambda>t. thread_step False ts t = None) ts"

lemma no_step_iff: "(\<forall>ts'. \<not> lock_step queued ts ts') \<longleftrightarrow> list_all (\<lambda>t. thread_step queued ts t = None) ts"
  by (auto simp: list_all_length elim!: lock_stepE intro: lock_stepI) (metis lock_stepI option.exhaust)

lemma thread_step_unqueued: "thread_step True ts t = Some t' \<Longrightarrow> thread_step False ts t = Some t'"
proof (induction True ts t rule: thread_step.induct)
  case (3 ts m l acts held)
  then show ?case by (cases m) (auto split: if_splits)
qed simp_all

lemma lock_step_unqueued: "lock_step True ts ts' \<Longrightarrow> lock_step False ts ts'"
  by (auto elim!: lock_stepE intro: lock_stepI thread_step_unqueued)

subsection \<open>Every run ends\<close>

definition work :: "'l thread list \<Rightarrow> nat" where
  "work ts = sum_list (map (length \<circ> fst) ts)"

lemma thread_step_shorter: "thread_step queued ts t = Some t' \<Longrightarrow> Suc (length (fst t')) = length (fst t)"
  by (induction queued ts t rule: thread_step.induct) (auto split: if_splits)

lemma lock_step_work: "lock_step queued ts ts' \<Longrightarrow> Suc (work ts') = work ts"
proof (erule lock_stepE)
  fix i t assume i: "i < length ts" and t: "thread_step queued ts (ts ! i) = Some t" and "ts' = ts[i := t]"
  then show "Suc (work ts') = work ts"
    using thread_step_shorter [OF t] sum_list_update [of i "map (length \<circ> fst) ts" "length (fst t)"]
      elem_le_sum_list [of i "map (length \<circ> fst) ts"] by (simp add: work_def map_update)
qed

subsection \<open>Taking locks in order\<close>

fun in_order :: "('l \<Rightarrow> nat) \<Rightarrow> (mode \<times> 'l) list \<Rightarrow> 'l lock_act list \<Rightarrow> bool" where
  "in_order rank held [] \<longleftrightarrow> held = []"
| "in_order rank held (Acquire m l # acts) \<longleftrightarrow>
     list_all (\<lambda>(m', k). rank k < rank l) held \<and> in_order rank ((m, l) # held) acts"
| "in_order rank held (Release l # acts) \<longleftrightarrow> in_order rank (unlock l held) acts"

definition orderly :: "('l \<Rightarrow> nat) \<Rightarrow> 'l thread list \<Rightarrow> bool" where
  "orderly rank ts \<longleftrightarrow> list_all (\<lambda>t. in_order rank (snd t) (fst t)) ts"

lemma in_order_append:
  "in_order rank held acts \<Longrightarrow> in_order rank [] acts' \<Longrightarrow> in_order rank held (acts @ acts')"
  by (induction rank held acts rule: in_order.induct) simp_all

lemma in_order_concat: "list_all (in_order rank []) programs \<Longrightarrow> in_order rank [] (concat programs)"
  by (induction programs) (simp_all add: in_order_append)

lemma thread_step_in_order:
  "thread_step queued ts t = Some t' \<Longrightarrow> in_order rank (snd t) (fst t) \<Longrightarrow> in_order rank (snd t') (fst t')"
  by (induction queued ts t rule: thread_step.induct) (auto split: if_splits)

lemma orderly_step:
  assumes "orderly rank ts" "lock_step queued ts ts'" shows "orderly rank ts'"
proof -
  obtain i t where i: "i < length ts" "thread_step queued ts (ts ! i) = Some t" "ts' = ts[i := t]"
    using assms(2) by (rule lock_stepE)
  then have "in_order rank (snd t) (fst t)"
    using assms(1) thread_step_in_order [OF i(2)] by (simp add: orderly_def list_all_length)
  with i assms(1) show ?thesis by (simp add: orderly_def list_all_length nth_list_update)
qed

lemma orderly_running: "orderly rank (running programs) \<longleftrightarrow> list_all (in_order rank []) programs"
  by (simp add: orderly_def running_def list_all_iff)

text \<open>The lock a blocked thread waits for.\<close>

fun awaited :: "'l thread \<Rightarrow> 'l option" where
  "awaited (Acquire m l # acts, held) = Some l"
| "awaited t = None"

lemma in_order_holder:
  assumes "in_order rank (snd t) (fst t)" "holds m l t" "thread_step queued ts t = None"
  shows "\<exists>k. awaited t = Some k \<and> rank l < rank k"
  using assms
  by (cases t; cases "fst t"; cases "hd (fst t)") (auto simp: holds_def list_all_iff split: if_splits)

lemma wants_exclusive_awaited: "wants_exclusive l t \<Longrightarrow> \<exists>acts held. t = (Acquire Exclusive l # acts, held)"
  by (induction l t rule: wants_exclusive.induct) auto

text \<open>
  Among the blocked threads take one that waits for a lock of the highest rank: whoever holds
  the lock would wait for a higher one, so it is free, and a writer waiting for it may take it.
\<close>

lemma orderly_progress:
  assumes "orderly rank ts" "\<not> finished ts" shows "\<exists>ts'. lock_step True ts ts'"
proof (rule ccontr)
  assume "\<not> ?thesis"
  then have stuck: "thread_step True ts t = None" if "t \<in> set ts" for t
    using that no_step_iff [of True ts] by (simp add: list_all_iff)
  have ord: "in_order rank (snd t) (fst t)" if "t \<in> set ts" for t
    using assms(1) that by (simp add: orderly_def list_all_iff)
  let ?R = "(\<lambda>t. rank (the (awaited t))) ` {t \<in> set ts. awaited t \<noteq> None}"
  have "?R \<noteq> {}"
  proof -
    obtain t0 where t0: "t0 \<in> set ts" "fst t0 \<noteq> []"
      using assms(2) by (auto simp: finished_def list_all_iff)
    then have "awaited t0 \<noteq> None" using stuck [of t0] by (cases t0 rule: awaited.cases) auto
    with t0 show ?thesis by blast
  qed
  then have "Max ?R \<in> ?R" by (intro Max_in) simp_all
  then obtain l t where t: "t \<in> set ts" "awaited t = Some l" and l: "rank l = Max ?R" by auto
  have top: "rank k \<le> rank l" if "u \<in> set ts" "awaited u = Some k" for u k
    unfolding l using that by (intro Max_ge) (simp_all add: rev_image_eqI [of u])
  have free: "\<not> holds m l u" if "u \<in> set ts" for u m
    using in_order_holder [OF ord [OF that] _ stuck [OF that]] top [OF that] by fastforce
  then have writer: "\<not> wants_exclusive l u" if "u \<in> set ts" for u
    using stuck [OF that] wants_exclusive_awaited [of l u] by (auto simp: list_ex_iff split: if_splits)
  obtain m acts held where "t = (Acquire m l # acts, held)"
    using t(2) by (cases t rule: awaited.cases) auto
  with stuck [OF t(1)] have "\<not> grantable True ts m l" by (simp split: if_splits)
  then show False
    using free writer by (cases m) (auto simp: list_ex_iff)
qed

subsection \<open>The interface\<close>

text \<open>
  A discipline: programs that each take their locks in the order of a rank and give them back.
  Threads that execute any sequences of them never deadlock, and all of them finish.
\<close>

locale lock_discipline =
  fixes rank :: "'l \<Rightarrow> nat" and allowed :: "'l lock_act list \<Rightarrow> bool"
  assumes disciplined: "allowed p \<Longrightarrow> in_order rank [] p"
begin

lemma orderly_reachable:
  assumes "list_all (list_all allowed) threads" "(lock_step False)\<^sup>*\<^sup>* (running (map concat threads)) ts"
  shows "orderly rank ts"
proof -
  have "orderly rank (running (map concat threads))"
    using assms(1) disciplined by (auto simp: orderly_running list_all_iff intro!: in_order_concat)
  with assms(2) show ?thesis by (induction rule: rtranclp_induct) (auto intro: orderly_step)
qed

lemma all_finish:
  assumes "list_all (list_all allowed) threads" "(lock_step False)\<^sup>*\<^sup>* (running (map concat threads)) ts"
  shows "\<exists>ts'. (lock_step True)\<^sup>*\<^sup>* ts ts' \<and> finished ts'"
  using orderly_reachable [OF assms]
proof (induction "work ts" arbitrary: ts rule: less_induct)
  case less
  show ?case
  proof (cases "finished ts")
    case False
    then obtain ts' where step: "lock_step True ts ts'" using orderly_progress less.prems by blast
    then have "work ts' < work ts" "orderly rank ts'"
      using lock_step_work [OF step] orderly_step [OF less.prems step] by simp_all
    then show ?thesis using less.hyps step by (meson converse_rtranclp_into_rtranclp)
  qed blast
qed

lemma progress:
  assumes "list_all (list_all allowed) threads" "(lock_step False)\<^sup>*\<^sup>* (running (map concat threads)) ts"
  shows "finished ts \<or> (\<exists>ts'. lock_step True ts ts')"
  using orderly_progress [OF orderly_reachable [OF assms]] by blast

end

end
