(* ===== verification/Lock_Order.thy ===== *)
theory Lock_Order
  imports Locks
begin

section \<open>The locks of the crate\<close>

text \<open>
  What every operation does with the locks of its object, as programs of the theory \<open>Locks\<close>:
  which guards it takes, in which mode, in which order, and when it drops them. Branches of the
  code that decide about locks are arguments. A lock belongs to an object, so the locks of a
  running system are pairs of an object's number and one of the names below. Calls of one
  component from another are calls of their own in a thread, because no guard is held across
  them; hooks are assumed to take no locks of the crate.
\<close>

datatype crate_lock =
    BatchPending | BatchStart | BatchSequence | BatchShutdown | BatchHandle | BatchCrashed | BatchBatches
  | StoreFile | StoreBuffer | StoreIndex | StoreTail | MemoryChanges
  | SyncChanges | SyncPeers | SyncReceiver
  | RepEndpoint | RepDiscovery | DiscoveredPeers | RunnerHooks
  | NotifySubscribers | NotifySequence | PoolConnections
  | Reputations | ConnectionStarts | PendingChanges | ReceivedChunks | TotalChunks

type_synonym lock_program = "crate_lock lock_act list"

definition guarded :: "mode \<Rightarrow> crate_lock \<Rightarrow> lock_program \<Rightarrow> lock_program" where
  "guarded m l body = Acquire m l # body @ [Release l]"

abbreviation reading :: "crate_lock \<Rightarrow> lock_program" where
  "reading l \<equiv> guarded Shared l []"

abbreviation writing :: "crate_lock \<Rightarrow> lock_program" where
  "writing l \<equiv> guarded Exclusive l []"

subsection \<open>The batcher\<close>

definition flush_locks :: "bool \<Rightarrow> lock_program" where
  "flush_locks is_empty =
     guarded Exclusive BatchPending (if is_empty then [] else writing BatchStart)
     @ (if is_empty then [] else writing BatchSequence)"

definition check_flush_locks :: "bool \<Rightarrow> bool \<Rightarrow> lock_program" where
  "check_flush_locks full is_empty = reading BatchPending @ (if full then flush_locks is_empty else [])"

definition try_restart_locks :: "bool \<Rightarrow> bool \<Rightarrow> lock_program" where
  "try_restart_locks crashed task =
     reading BatchCrashed
     @ (if crashed then reading BatchHandle @ (if task then [] else writing BatchCrashed) else [])"

definition add_locks :: "bool \<Rightarrow> bool \<Rightarrow> bool \<Rightarrow> bool \<Rightarrow> bool \<Rightarrow> lock_program" where
  "add_locks crashed task enabled full is_empty =
     reading BatchCrashed @ (if crashed then try_restart_locks crashed task else [])
     @ (if enabled then writing BatchStart @ writing BatchPending @ check_flush_locks full is_empty
        else writing BatchSequence)"

text \<open>The flush task at its flush time: the guard of the start time is held while the changes are counted.\<close>

definition age_tick_locks :: "bool \<Rightarrow> bool \<Rightarrow> bool \<Rightarrow> lock_program" where
  "age_tick_locks due should_flush is_empty =
     guarded Shared BatchStart (if due then reading BatchPending else [])
     @ (if due \<and> should_flush then flush_locks is_empty else [])"

definition start_task_locks :: "bool \<Rightarrow> lock_program" where
  "start_task_locks task =
     reading BatchHandle @ (if task then [] else writing BatchShutdown @ writing BatchHandle)"

definition shutdown_locks :: "bool \<Rightarrow> lock_program" where
  "shutdown_locks panicked =
     reading BatchShutdown @ writing BatchHandle @ (if panicked then writing BatchCrashed else [])"

subsection \<open>The change stores\<close>

definition store_flush_locks :: "bool \<Rightarrow> bool \<Rightarrow> lock_program" where
  "store_flush_locks is_empty indexes =
     writing StoreBuffer
     @ (if is_empty then []
        else guarded Exclusive StoreFile
               (if indexes then guarded Exclusive StoreIndex (reading StoreTail) else []))"

definition store_append_locks :: "bool \<Rightarrow> bool \<Rightarrow> bool \<Rightarrow> lock_program" where
  "store_append_locks threshold is_empty indexes =
     writing StoreTail @ writing StoreBuffer
     @ (if threshold then store_flush_locks is_empty indexes else [])"

definition store_close_locks :: "bool \<Rightarrow> bool \<Rightarrow> lock_program" where
  "store_close_locks is_empty indexes = store_flush_locks is_empty indexes @ writing StoreFile"

definition compact_locks :: lock_program where
  "compact_locks = writing StoreIndex @ writing StoreTail"

definition memory_append_locks :: lock_program where
  "memory_append_locks = reading MemoryChanges @ writing MemoryChanges"

subsection \<open>Replicator, sync manager, snapshots, reputations\<close>

definition rep_start_locks :: lock_program where
  "rep_start_locks = writing RepEndpoint @ writing RepDiscovery"

definition generate_ticket_locks :: "bool \<Rightarrow> lock_program" where
  "generate_ticket_locks started =
     guarded Shared RepEndpoint (if started then reading RepDiscovery else [])"

definition connect_ticket_locks :: "bool \<Rightarrow> lock_program" where
  "connect_ticket_locks with_addresses =
     (if with_addresses then [] else reading RepDiscovery) @ reading RepEndpoint"

text \<open>One peer of the periodic pass; \<open>connect_to_peer\<close> updates the shared peer table.\<close>

definition sync_peer_locks :: "bool \<Rightarrow> lock_program" where
  "sync_peer_locks connected =
     reading RepDiscovery @ reading RepEndpoint @ (if connected then writing DiscoveredPeers else [])"

definition sync_snapshot_locks :: lock_program where
  "sync_snapshot_locks = reading SyncChanges @ reading SyncPeers"

definition sync_restore_locks :: lock_program where
  "sync_restore_locks = writing SyncChanges @ writing SyncPeers"

definition import_chunk_locks :: "bool \<Rightarrow> lock_program" where
  "import_chunk_locks valid = writing TotalChunks @ (if valid then writing ReceivedChunks else [])"

definition is_complete_locks :: lock_program where
  "is_complete_locks = guarded Shared ReceivedChunks (reading TotalChunks)"

definition finalize_locks :: "bool \<Rightarrow> lock_program" where
  "finalize_locks complete = is_complete_locks @ (if complete then reading ReceivedChunks else [])"

definition importer_reset_locks :: lock_program where
  "importer_reset_locks = writing ReceivedChunks @ writing TotalChunks"

definition connection_locks :: lock_program where
  "connection_locks = writing ConnectionStarts @ writing Reputations"

definition reputation_remove_locks :: lock_program where
  "reputation_remove_locks = guarded Exclusive Reputations (writing ConnectionStarts)"

definition notify_local_locks :: lock_program where
  "notify_local_locks = writing NotifySequence @ reading NotifySubscribers"

definition get_connection_locks :: "bool \<Rightarrow> bool \<Rightarrow> lock_program" where
  "get_connection_locks hit connected =
     writing PoolConnections @ (if \<not> hit \<and> connected then writing PoolConnections else [])"

subsection \<open>Calls\<close>

text \<open>\<open>Single\<close> stands for every operation that takes one guard and drops it.\<close>

datatype crate_call =
    Single mode crate_lock
  | Flush bool | Add bool bool bool bool bool | AgeTick bool bool bool | StartTask bool | StopTask bool
  | StoreFlush bool bool | StoreAppend bool bool bool | StoreClose bool bool | Compact | MemoryAppend
  | RepStart | GenerateTicket bool | ConnectTicket bool | SyncPeer bool | SyncSnapshot | SyncRestore
  | ImportChunk bool | IsComplete | Finalize bool | ImporterReset
  | ConnectionOpened | ConnectionClosed | ReputationRemove | NotifyLocal | GetConnection bool bool

fun call_locks :: "crate_call \<Rightarrow> lock_program" where
  "call_locks (Single m l) = guarded m l []"
| "call_locks (Flush e) = flush_locks e"
| "call_locks (Add c t en f e) = add_locks c t en f e"
| "call_locks (AgeTick d s e) = age_tick_locks d s e"
| "call_locks (StartTask t) = start_task_locks t"
| "call_locks (StopTask p) = shutdown_locks p"
| "call_locks (StoreFlush e i) = store_flush_locks e i"
| "call_locks (StoreAppend t e i) = store_append_locks t e i"
| "call_locks (StoreClose e i) = store_close_locks e i"
| "call_locks Compact = compact_locks"
| "call_locks MemoryAppend = memory_append_locks"
| "call_locks RepStart = rep_start_locks"
| "call_locks (GenerateTicket s) = generate_ticket_locks s"
| "call_locks (ConnectTicket a) = connect_ticket_locks a"
| "call_locks (SyncPeer c) = sync_peer_locks c"
| "call_locks SyncSnapshot = sync_snapshot_locks"
| "call_locks SyncRestore = sync_restore_locks"
| "call_locks (ImportChunk v) = import_chunk_locks v"
| "call_locks IsComplete = is_complete_locks"
| "call_locks (Finalize c) = finalize_locks c"
| "call_locks ImporterReset = importer_reset_locks"
| "call_locks ConnectionOpened = connection_locks"
| "call_locks ConnectionClosed = connection_locks"
| "call_locks ReputationRemove = reputation_remove_locks"
| "call_locks NotifyLocal = notify_local_locks"
| "call_locks (GetConnection h c) = get_connection_locks h c"

text \<open>A call on object number \<open>n\<close>.\<close>

definition call_on :: "nat \<times> crate_call \<Rightarrow> (nat \<times> crate_lock) lock_act list" where
  "call_on nc = map (map_lock_act (Pair (fst nc))) (call_locks (snd nc))"

definition overdue_tick :: "crate_call \<Rightarrow> bool" where
  "overdue_tick c \<longleftrightarrow> (case c of AgeTick due s e \<Rightarrow> due | _ \<Rightarrow> False)"

subsection \<open>The order\<close>

fun lock_rank :: "crate_lock \<Rightarrow> nat" where
  "lock_rank BatchPending = 0" | "lock_rank BatchStart = 1"
| "lock_rank StoreFile = 0" | "lock_rank StoreIndex = 1" | "lock_rank StoreTail = 2"
| "lock_rank RepEndpoint = 0" | "lock_rank RepDiscovery = 1"
| "lock_rank Reputations = 0" | "lock_rank ConnectionStarts = 1"
| "lock_rank ReceivedChunks = 0" | "lock_rank TotalChunks = 1"
| "lock_rank _ = 0"

lemmas lock_programs = guarded_def flush_locks_def check_flush_locks_def try_restart_locks_def add_locks_def
  age_tick_locks_def start_task_locks_def shutdown_locks_def store_flush_locks_def store_append_locks_def
  store_close_locks_def compact_locks_def memory_append_locks_def rep_start_locks_def
  generate_ticket_locks_def connect_ticket_locks_def sync_peer_locks_def sync_snapshot_locks_def
  sync_restore_locks_def import_chunk_locks_def is_complete_locks_def finalize_locks_def
  importer_reset_locks_def connection_locks_def reputation_remove_locks_def notify_local_locks_def
  get_connection_locks_def

lemma unlock_simps [simp]:
  "unlock l [] = []" "unlock l ((m, k) # held) = (if k = l then unlock l held else (m, k) # unlock l held)"
  by (simp_all add: unlock_def)

lemma unlock_pairs:
  "unlock (n, l) (map (\<lambda>(m, k). (m, n, k)) held) = map (\<lambda>(m, k). (m, n, k)) (unlock l held)"
  by (induction held) auto

lemma in_order_on:
  "in_order rank held p \<Longrightarrow>
     in_order (rank \<circ> snd) (map (\<lambda>(m, k). (m, n, k)) held) (map (map_lock_act (Pair n)) p)"
  by (induction rank held p rule: in_order.induct) (auto simp: list_all_iff unlock_pairs)

lemma call_in_order: "\<not> overdue_tick c \<Longrightarrow> in_order lock_rank [] (call_locks c)"
  by (cases c) (simp_all add: lock_programs overdue_tick_def)

lemma call_on_in_order: "\<not> overdue_tick (snd nc) \<Longrightarrow> in_order (lock_rank \<circ> snd) [] (call_on nc)"
  using in_order_on [OF call_in_order, of "snd nc" "fst nc"] by (simp add: call_on_def)

interpretation crate: lock_discipline "lock_rank \<circ> snd" "\<lambda>p. \<exists>nc. p = call_on nc \<and> \<not> overdue_tick (snd nc)"
  by unfold_locales (auto intro: call_on_in_order)

subsection \<open>Properties\<close>

text \<open>
  C10. No deadlock without an overdue flush: any number of threads, each making any sequence of
  calls on any objects of the crate, never block each other for ever as long as no flush task
  wakes up with a batch that is older than \<open>max_batch_age\<close>: from every configuration they
  reach, some thread can go on, also when waiting writers keep readers out, and there is a way
  for all of them to finish.
\<close>

theorem crate_lock_order:
  assumes "list_all (list_all (\<lambda>(n, c). \<not> overdue_tick c)) threads"
    and "(lock_step False)\<^sup>*\<^sup>* (running (map (concat \<circ> map call_on) threads)) ts"
  shows "(finished ts \<or> (\<exists>ts'. lock_step True ts ts'))
     \<and> (\<exists>ts'. (lock_step True)\<^sup>*\<^sup>* ts ts' \<and> finished ts') \<and> \<not> deadlocked ts"
proof -
  have calls: "list_all (list_all (\<lambda>p. \<exists>nc. p = call_on nc \<and> \<not> overdue_tick (snd nc))) (map (map call_on) threads)"
    using assms(1) by (fastforce simp: list_all_iff)
  have run: "(lock_step False)\<^sup>*\<^sup>* (running (map concat (map (map call_on) threads))) ts"
    using assms(2) by (simp add: comp_def)
  from crate.progress [OF calls run] have "finished ts \<or> (\<exists>ts'. lock_step True ts ts')" .
  moreover from this have "\<not> deadlocked ts"
    using lock_step_unqueued no_step_iff [of False ts] by (auto simp: deadlocked_def)
  ultimately show ?thesis using crate.all_finish [OF calls run] by blast
qed

theorem crate_lock_order_witness:
  "\<exists>ts. (lock_step True)\<^sup>*\<^sup>* (running (map (concat \<circ> map call_on)
      [[(0, Add False True True True False), (1, GenerateTicket True)], [(0, Flush False), (0, AgeTick False False True)],
       [(2, IsComplete), (2, ImportChunk True)]])) ts \<and> finished ts"
  using crate_lock_order
    [where threads = "[[(0, Add False True True True False), (1, GenerateTicket True)],
       [(0, Flush False), (0, AgeTick False False True)], [(2, IsComplete), (2, ImportChunk True)]]",
     OF _ rtranclp.rtrancl_refl]
  by (simp add: overdue_tick_def)

text \<open>A schedule: whose turn it is, step by step.\<close>

fun run_schedule :: "bool \<Rightarrow> nat list \<Rightarrow> 'l thread list \<Rightarrow> 'l thread list option" where
  "run_schedule queued [] ts = Some ts"
| "run_schedule queued (i # is) ts =
     (if i < length ts then
        (case thread_step queued ts (ts ! i) of Some t \<Rightarrow> run_schedule queued is (ts[i := t]) | None \<Rightarrow> None)
      else None)"

lemma run_schedule_reaches: "run_schedule queued is ts = Some ts' \<Longrightarrow> (lock_step queued)\<^sup>*\<^sup>* ts ts'"
proof (induction "is" arbitrary: ts)
  case (Cons i "is")
  then obtain t where "i < length ts" "thread_step queued ts (ts ! i) = Some t"
      "run_schedule queued is (ts[i := t]) = Some ts'"
    by (auto split: if_splits option.splits)
  then show ?case
    using Cons.IH lock_stepI by (metis converse_rtranclp_into_rtranclp)
qed simp

text \<open>
  C26. The deadlock: \<open>flush\<close> takes the start time of the batch while it holds the
  pending changes, the flush task counts the pending changes while it holds the start time. An
  \<open>add\<close> that fills the batch and a wake-up of the task that finds the batch overdue
  can reach a configuration in which neither ever goes on.
\<close>

theorem overdue_flush_deadlocks:
  "\<exists>ts. (lock_step queued)\<^sup>*\<^sup>*
      (running [call_on (n, AgeTick True True False), call_on (n, Add False True True True False)]) ts
     \<and> deadlocked ts"
proof -
  let ?ts = "running [call_on (n, AgeTick True True False), call_on (n, Add False True True True False)]"
  obtain ts where "run_schedule queued (replicate 8 1 @ [0, 1]) ?ts = Some ts" "deadlocked ts"
    by (simp add: running_def call_on_def lock_programs holds_def eval_nat_numeral deadlocked_def finished_def)
  then show ?thesis using run_schedule_reaches by blast
qed

end
