(* ===== verification/Node.thy ===== *)
theory Node
  imports Hook Connections
begin

section \<open>A whole node\<close>

text \<open>
  The parts of a running node together: the runner with its queue, hooks and replicator
  (\<open>hook.rs\<close>, \<open>replicator.rs\<close>), the accept tasks that
  \<open>start\<close> spawns, the connections they serve and the ones the node opens
  (\<open>protocol.rs\<close>, in the sections of \<open>Connections\<close>), all over the one
  sync manager of the replicator. Calls, moves of the loop and sections interleave in any order.
\<close>

subsection \<open>State and steps\<close>

text \<open>
  \<open>nd_accepting\<close> are the endpoints with an accept task. A connection has an
  identifier, which the network gives its peer and its link; None is one that does not exist yet.
  \<open>nd_writer\<close> only remembers, for each peer, the connection whose shown state changed
  last.
\<close>

record ('cid, 'id, 'addr, 'ep, 'ch, 'w) node =
  nd_runner :: "('id, 'addr, 'ep, 'ch, 'w) replicator_runner"
  nd_world :: 'w
  nd_accepting :: "'ep list"
  nd_conns :: "'cid \<Rightarrow> connection option"
  nd_writer :: "'id \<Rightarrow> 'cid option"

definition node_new ::
  "(nat \<Rightarrow> 'ch) \<Rightarrow> 'addr replicator_config \<Rightarrow> 'w \<Rightarrow> ('cid, 'id, 'addr, 'ep, 'ch, 'w) node" where
  "node_new closed_channel config w =
     \<lparr>nd_runner = runner_new closed_channel config, nd_world = w, nd_accepting = [], nd_conns = (\<lambda>cid. None),
      nd_writer = (\<lambda>pid. None)\<rparr>"

abbreviation nd_rep :: "('cid, 'id, 'addr, 'ep, 'ch, 'w) node \<Rightarrow> ('id, 'addr, 'ep, 'ch) replicator" where
  "nd_rep nd \<equiv> rr_replicator (nd_runner nd)"

abbreviation nd_manager :: "('cid, 'id, 'addr, 'ep, 'ch, 'w) node \<Rightarrow> 'id sync_manager" where
  "nd_manager nd \<equiv> rp_sync_manager (nd_rep nd)"

definition on_replicator ::
  "(('id, 'addr, 'ep, 'ch) replicator \<Rightarrow> ('id, 'addr, 'ep, 'ch) replicator)
     \<Rightarrow> ('cid, 'id, 'addr, 'ep, 'ch, 'w) node \<Rightarrow> ('cid, 'id, 'addr, 'ep, 'ch, 'w) node" where
  "on_replicator f nd = nd\<lparr>nd_runner := (nd_runner nd)\<lparr>rr_replicator := f (nd_rep nd)\<rparr>\<rparr>"

text \<open>A successful \<open>start\<close> leaves an accept task for the new endpoint behind.\<close>

definition node_start ::
  "'ep result \<Rightarrow> ('cid, 'id, 'addr, 'ep, 'ch, 'w) node \<Rightarrow> ('cid, 'id, 'addr, 'ep, 'ch, 'w) node" where
  "node_start built nd =
     (case runner_start built (nd_runner nd) of
        (Ok _, rr) \<Rightarrow>
          nd\<lparr>nd_runner := rr,
             nd_accepting := (case rp_endpoint (rr_replicator rr) of Some ep \<Rightarrow> ep # nd_accepting nd | None \<Rightarrow> nd_accepting nd)\<rparr>
      | (_, rr) \<Rightarrow> nd\<lparr>nd_runner := rr\<rparr>)"

text \<open>The accept task spawns the handler of a connection; \<open>connect_ticket\<close> drives one.\<close>

definition accept_conn ::
  "link \<Rightarrow> 'cid \<Rightarrow> ('cid, 'id, 'addr, 'ep, 'ch, 'w) node \<Rightarrow> ('cid, 'id, 'addr, 'ep, 'ch, 'w) node" where
  "accept_conn lk cid nd =
     (if nd_accepting nd \<noteq> [] \<and> nd_conns nd cid = None
      then nd\<lparr>nd_conns := (nd_conns nd)(cid \<mapsto> Incoming (serve_start lk))\<rparr> else nd)"

definition accept_ends ::
  "'ep \<Rightarrow> ('cid, 'id, 'addr, 'ep, 'ch, 'w) node \<Rightarrow> ('cid, 'id, 'addr, 'ep, 'ch, 'w) node" where
  "accept_ends ep nd = nd\<lparr>nd_accepting := remove1 ep (nd_accepting nd)\<rparr>"

definition dial_conn ::
  "link \<Rightarrow> 'cid \<Rightarrow> ('cid, 'id, 'addr, 'ep, 'ch, 'w) node \<Rightarrow> ('cid, 'id, 'addr, 'ep, 'ch, 'w) node" where
  "dial_conn lk cid nd =
     (if rp_endpoint (nd_rep nd) \<noteq> None \<and> nd_conns nd cid = None
      then nd\<lparr>nd_conns := (nd_conns nd)(cid \<mapsto> Outgoing (drive_start lk))\<rparr> else nd)"

definition conn_section ::
  "'id proto_lib \<Rightarrow> link \<Rightarrow> 'id \<Rightarrow> 'cid \<Rightarrow> ('cid, 'id, 'addr, 'ep, 'ch, 'w) node \<Rightarrow> ('cid, 'id, 'addr, 'ep, 'ch, 'w) node" where
  "conn_section lib lk pid cid nd =
     (case nd_conns nd cid of
        None \<Rightarrow> nd
      | Some c \<Rightarrow>
          (case connection_section lib lk pid (nd_manager nd) c of
             (m, c') \<Rightarrow> (on_replicator (\<lambda>r. r\<lparr>rp_sync_manager := m\<rparr>) nd)
               \<lparr>nd_conns := (nd_conns nd)(cid \<mapsto> c'),
                nd_writer := (if shown_state lk c' = shown_state lk c then nd_writer nd else (nd_writer nd)(pid \<mapsto> cid))\<rparr>))"

datatype ('cid, 'id, 'ep) node_op =
    NodeStart "'ep result" | NodeShutdown | NodeDrop | NodeRecord change | NodeForward
  | LoopSubscribes | LoopTicks "'id \<Rightarrow> string option" nat | LoopExits
  | AcceptConn 'cid | AcceptEnds 'ep | DialConn 'cid | ConnSection 'cid

text \<open>\<open>iter\<close> is the order in which a hash map is iterated, \<open>try_send\<close> the channel of the replicator.\<close>

record ('cid, 'id, 'ch) node_env =
  ne_lib :: "'id proto_lib"
  ne_iter :: "(string \<rightharpoonup> 'id peer_sync_state) \<Rightarrow> (string \<times> 'id peer_sync_state) list"
  ne_try_send :: "'ch change_send"
  ne_link :: "'cid \<Rightarrow> link"
  ne_peer :: "'cid \<Rightarrow> 'id"

fun node_step ::
  "('cid, 'id, 'ch) node_env \<Rightarrow> ('cid, 'id, 'addr, 'ep, 'ch, 'w) node \<Rightarrow> ('cid, 'id, 'ep) node_op
     \<Rightarrow> ('cid, 'id, 'addr, 'ep, 'ch, 'w) node" where
  "node_step env nd (NodeStart built) = node_start built nd"
| "node_step env nd NodeShutdown = nd\<lparr>nd_runner := snd (runner_shutdown (nd_runner nd))\<rparr>"
| "node_step env nd NodeDrop = on_replicator replicator_drop nd"
| "node_step env nd (NodeRecord c) = nd\<lparr>nd_runner := runner_record_change c (nd_runner nd)\<rparr>"
| "node_step env nd NodeForward =
     (case runner_forward (ne_try_send env) (nd_runner nd, nd_world nd) of
        (rr, w) \<Rightarrow> nd\<lparr>nd_runner := rr, nd_world := w\<rparr>)"
| "node_step env nd LoopSubscribes = on_replicator loop_subscribe nd"
| "node_step env nd (LoopTicks outcome now) =
     on_replicator (loop_tick outcome now (ne_iter env (sm_peer_states (nd_manager nd)))) nd"
| "node_step env nd LoopExits = on_replicator loop_exit nd"
| "node_step env nd (AcceptConn cid) = accept_conn (ne_link env cid) cid nd"
| "node_step env nd (AcceptEnds ep) = accept_ends ep nd"
| "node_step env nd (DialConn cid) = dial_conn (ne_link env cid) cid nd"
| "node_step env nd (ConnSection cid) = conn_section (ne_lib env) (ne_link env cid) (ne_peer env cid) cid nd"

subsection \<open>What a step leaves alone\<close>

text \<open>
  Only the section of a connection writes the manager; every other step keeps the manager, and
  changes the connections at most by adding one at its start.
\<close>

definition adds_connection ::
  "('cid \<Rightarrow> link) \<Rightarrow> ('cid \<Rightarrow> connection option) \<Rightarrow> ('cid \<Rightarrow> connection option) \<Rightarrow> bool" where
  "adds_connection links conns conns' \<longleftrightarrow>
     conns' = conns
     \<or> (\<exists>cid c. conns cid = None \<and> at_start (links cid) c \<and> conns' = conns(cid \<mapsto> c))"

lemma adds_none [simp]: "adds_connection links conns conns"
  by (simp add: adds_connection_def)

lemma adds_one: "conns cid = None \<Longrightarrow> at_start (links cid) c \<Longrightarrow> adds_connection links conns (conns(cid \<mapsto> c))"
  by (auto simp: adds_connection_def)

lemma on_replicator_simps [simp]:
  "nd_rep (on_replicator f nd) = f (nd_rep nd)" "nd_accepting (on_replicator f nd) = nd_accepting nd"
  "nd_conns (on_replicator f nd) = nd_conns nd" "nd_writer (on_replicator f nd) = nd_writer nd"
  by (simp_all add: on_replicator_def)

lemma runner_start_replicator: "rr_replicator (snd (runner_start built rr)) = snd (replicator_start built (rr_replicator rr))"
  by (simp add: runner_start_def split_beta Let_def)

lemma node_start_simps [simp]:
  "nd_rep (node_start built nd) = snd (replicator_start built (nd_rep nd))"
  "nd_conns (node_start built nd) = nd_conns nd" "nd_writer (node_start built nd) = nd_writer nd"
  using runner_start_replicator [of built "nd_runner nd"]
  by (auto simp: node_start_def split: prod.split outcome.split)

lemma runner_forward_replicator:
  "rr_replicator (fst (runner_forward try_send s)) = rr_replicator (fst s)
   \<or> (\<exists>c. rr_replicator (fst (runner_forward try_send s)) = replicator_record_change try_send c (rr_replicator (fst s)))"
  by (auto simp: runner_forward_def split: list.split)

lemma node_forward_replicator:
  "nd_rep (node_step env nd NodeForward) = nd_rep nd
   \<or> (\<exists>c. nd_rep (node_step env nd NodeForward) = replicator_record_change (ne_try_send env) c (nd_rep nd))"
  using runner_forward_replicator [of "ne_try_send env" "(nd_runner nd, nd_world nd)"] by (simp add: split_beta)

lemma node_quiet_step:
  assumes "\<forall>cid. op \<noteq> ConnSection cid"
  shows "nd_manager (node_step env nd op) = nd_manager nd
     \<and> nd_writer (node_step env nd op) = nd_writer nd
     \<and> adds_connection (ne_link env) (nd_conns nd) (nd_conns (node_step env nd op))"
proof (cases op)
  case NodeForward
  then show ?thesis
    using node_forward_replicator [of env nd]
    by (auto simp: replicator_record_change_def split: prod.split)
next
  case (NodeStart built)
  then show ?thesis by (simp add: start_frame)
next
  case (LoopTicks outcome now)
  then show ?thesis by (simp add: loop_tick_def sync_with_peers_frame)
next
  case (DialConn cid)
  then show ?thesis by (auto simp: dial_conn_def intro!: adds_one)
next
  case (AcceptConn cid)
  then show ?thesis by (auto simp: accept_conn_def intro!: adds_one)
qed (use assms in \<open>simp_all add: runner_shutdown_def shutdown_frame split_beta Let_def replicator_drop_def
       loop_subscribe_def loop_exit_def runner_record_change_def accept_ends_def\<close>)

lemma node_section_step:
  "nd_conns nd cid = Some c \<Longrightarrow> connection_section (ne_lib env) (ne_link env cid) (ne_peer env cid) (nd_manager nd) c = (m, c')
     \<Longrightarrow> nd_manager (node_step env nd (ConnSection cid)) = m
         \<and> nd_conns (node_step env nd (ConnSection cid)) = (nd_conns nd)(cid \<mapsto> c')
         \<and> nd_writer (node_step env nd (ConnSection cid))
             = (if shown_state (ne_link env cid) c' = shown_state (ne_link env cid) c then nd_writer nd
                else (nd_writer nd)(ne_peer env cid \<mapsto> cid))"
  "nd_conns nd cid = None \<Longrightarrow> node_step env nd (ConnSection cid) = nd"
  by (simp_all add: conn_section_def)

subsection \<open>The lifecycle and the peer table\<close>

text \<open>Before a first successful start nothing is accepted, dialled or served.\<close>

definition node_up :: "('cid, 'id, 'addr, 'ep, 'ch, 'w) node \<Rightarrow> bool" where
  "node_up nd \<longleftrightarrow>
     rep_inv (nd_rep nd)
     \<and> (rp_discovery (nd_rep nd) = None \<longrightarrow> nd_accepting nd = [] \<and> nd_conns nd = (\<lambda>cid. None))"

lemma node_up_rep:
  assumes "node_up nd" "rep_inv r" "rp_discovery r = None \<longrightarrow> rp_discovery (nd_rep nd) = None"
    and "nd_rep nd' = r" "nd_accepting nd' = nd_accepting nd" "nd_conns nd' = nd_conns nd"
  shows "node_up nd'"
  using assms by (simp add: node_up_def)

lemma start_discovery:
  "rp_discovery (snd (replicator_start built r)) = None \<Longrightarrow>
     rp_discovery r = None \<and> (\<forall>u. fst (replicator_start built r) \<noteq> Ok u)"
  by (auto simp: replicator_start_def discovery_new_def Let_def split: if_splits outcome.splits)

lemma node_up_step:
  assumes up: "node_up nd"
  shows "node_up (node_step env nd op)"
proof -
  have inv: "rep_inv (nd_rep nd)" using up by (simp add: node_up_def)
  note lifecycle = rep_inv_step [OF inv]
  show ?thesis
  proof (cases op)
    case (NodeStart built)
    let ?r = "snd (replicator_start built (nd_rep nd))"
    have "nd_accepting (node_start built nd) = nd_accepting nd" if "rp_discovery ?r = None"
      using start_discovery [OF that] by (auto simp: node_start_def runner_start_def split_beta Let_def split: outcome.split)
    then show ?thesis
      using NodeStart up lifecycle [OF step_start] start_discovery [of built "nd_rep nd"] by (auto simp: node_up_def)
  next
    case NodeForward
    show ?thesis
      using node_forward_replicator [of env nd] up
      by (elim disjE exE; intro node_up_rep [OF up _ _ refl])
         (auto simp: NodeForward node_up_def rep_inv_def replicator_record_change_def split: prod.split)
  next
    case (LoopTicks outcome now)
    then show ?thesis
      using up by (simp add: node_up_def rep_inv_def loop_tick_def sync_with_peers_frame del: not_None_eq)
  next
    case (ConnSection cid)
    then show ?thesis
    proof (cases "nd_conns nd cid")
      case (Some c)
      then have "rp_discovery (nd_rep nd) \<noteq> None" using up by (auto simp: node_up_def)
      then show ?thesis
        using up ConnSection Some by (auto simp: node_up_def rep_inv_def conn_section_def split: prod.split)
    qed (use up ConnSection in \<open>simp add: conn_section_def\<close>)
  qed (use up inv lifecycle [OF step_shutdown] lifecycle [OF step_drop] lifecycle [OF step_subscribe] lifecycle [OF step_exit] in
      \<open>auto simp: node_up_def runner_shutdown_def split_beta Let_def runner_record_change_def accept_ends_def
         accept_conn_def dial_conn_def rep_inv_def replicator_shutdown_def replicator_drop_def loop_subscribe_def loop_exit_def\<close>)
qed

text \<open>A connection that does not exist yet is one at its start.\<close>

definition seen :: "('cid \<Rightarrow> link) \<Rightarrow> ('cid \<Rightarrow> connection option) \<Rightarrow> 'cid \<Rightarrow> connection" where
  "seen links conns cid = (case conns cid of None \<Rightarrow> Incoming (serve_start (links cid)) | Some c \<Rightarrow> c)"

lemma seen_upd [simp]: "seen links (conns(cid \<mapsto> c)) = (seen links conns)(cid := c)"
  by (rule ext) (simp add: seen_def)

lemma seen_Some [simp]: "conns cid = Some c \<Longrightarrow> seen links conns cid = c"
  by (simp add: seen_def)

definition reached_state ::
  "('cid, 'id, 'ch) node_env \<Rightarrow> ('cid, 'id, 'addr, 'ep, 'ch, 'w) node \<Rightarrow> 'cid \<Rightarrow> sync_state option" where
  "reached_state env nd cid =
     (case nd_conns nd cid of None \<Rightarrow> None | Some c \<Rightarrow> shown_state (ne_link env cid) c)"

lemma seen_state: "shown_state (ne_link env cid) (seen (ne_link env) (nd_conns nd) cid) = reached_state env nd cid"
  by (simp add: reached_state_def seen_def serve_start_def split: option.split)

lemma table_inv_adds:
  assumes "adds_connection links conns conns'" "sm_peer_states m' = sm_peer_states m"
    and "table_inv lib links peers m0 writer (m, seen links conns)"
  shows "table_inv lib links peers m0 writer (m', seen links conns')"
proof -
  have same: "table_state lib m' pid = table_state lib m pid" for pid
    using assms(2) by (simp add: table_state_def)
  have seen: "stream_opened (links i) (seen links conns' i) \<and> shown_state (links i) (seen links conns' i) = shown_state (links i) (seen links conns i)" for i
  proof (cases "conns' i = conns i")
    case True
    then show ?thesis using assms(3) by (simp add: table_inv_def seen_def)
  next
    case False
    then obtain c where "conns i = None" "at_start (links i) c" "conns' i = Some c"
      using assms(1) by (auto simp: adds_connection_def split: if_splits)
    then show ?thesis
      using at_start_shows [of "links i" c] at_start_shows [of "links i" "Incoming (serve_start (links i))"]
      by (simp add: seen_def)
  qed
  have "entry_right lib links peers m0 m' (seen links conns') pid w = entry_right lib links peers m0 m (seen links conns) pid w" for pid w
    by (rule entry_right_cong) (simp_all add: same seen)
  with assms(3) seen show ?thesis by (simp add: table_inv_def)
qed

definition node_table ::
  "('cid, 'id, 'ch) node_env \<Rightarrow> 'id sync_manager \<Rightarrow> ('cid, 'id, 'addr, 'ep, 'ch, 'w) node \<Rightarrow> bool" where
  "node_table env m0 nd \<longleftrightarrow>
     inj (peer_key (pl_id_bytes (ne_lib env)))
     \<and> table_inv (ne_lib env) (ne_link env) (ne_peer env) m0 (nd_writer nd) (nd_manager nd, seen (ne_link env) (nd_conns nd))"

lemma node_table_step:
  assumes "node_table env m0 nd"
  shows "node_table env m0 (node_step env nd op)"
proof (cases "\<exists>cid. op = ConnSection cid")
  case False
  then have quiet: "nd_manager (node_step env nd op) = nd_manager nd" "nd_writer (node_step env nd op) = nd_writer nd"
      "adds_connection (ne_link env) (nd_conns nd) (nd_conns (node_step env nd op))"
    using node_quiet_step [of op env nd] by auto
  from table_inv_adds [OF quiet(3) refl conjunct2 [OF assms [unfolded node_table_def]]] assms show ?thesis
    by (simp add: node_table_def quiet(1,2))
next
  case True
  then obtain cid where op: "op = ConnSection cid" by blast
  show ?thesis
  proof (cases "nd_conns nd cid")
    case (Some c)
    obtain m c' where sec: "connection_section (ne_lib env) (ne_link env cid) (ne_peer env cid) (nd_manager nd) c = (m, c')"
      by (metis prod.collapse)
    have inj: "inj (peer_key (pl_id_bytes (ne_lib env)))"
      and "table_inv (ne_lib env) (ne_link env) (ne_peer env) m0 (nd_writer nd) (nd_manager nd, seen (ne_link env) (nd_conns nd))"
      using assms by (simp_all add: node_table_def)
    from table_inv_section [OF this, of cid m c'] sec Some node_section_step(1) [OF Some sec] inj
    show ?thesis by (simp add: node_table_def op)
  qed (use assms op in \<open>simp add: conn_section_def\<close>)
qed

interpretation node_runs: machine "node_step env" "\<lambda>nd. node_up nd \<and> node_table env m0 nd" "\<lambda>op. True"
  by unfold_locales (simp add: node_up_step node_table_step)

subsection \<open>Where the log comes from\<close>

text \<open>The changes of the batches in a stream, up to its first frame that is not a message.\<close>

function received :: "'id proto_lib \<Rightarrow> bytes \<Rightarrow> change list" where
  "received lib rx =
     (case recv_frame rx of
        RecvFrame msg rest \<Rightarrow>
          (case decode_message (pl_from_json lib) msg of
             Ok (Response b) \<Rightarrow> cb_changes b @ received lib rest
           | Ok _ \<Rightarrow> received lib rest
           | _ \<Rightarrow> [])
      | _ \<Rightarrow> [])"
  by pat_completeness auto

termination
  by (relation "measure (\<lambda>(lib, rx). length rx)") (auto dest: recv_frame_shorter)

declare received.simps [simp del]

lemma received_frame:
  "recv_frame rx = RecvFrame msg rest \<Longrightarrow> decode_message (pl_from_json lib) msg = Ok q \<Longrightarrow>
     received lib rx = (case q of Response b \<Rightarrow> cb_changes b | _ \<Rightarrow> []) @ received lib rest"
  by (subst received.simps) (simp split: sync_message.split)

text \<open>
  Where a connection stands in its stream: what it has recorded, is recording, and has not read. One
  that is leaving has recorded a prefix.
\<close>

definition conn_recorded :: "'id proto_lib \<Rightarrow> link \<Rightarrow> serve_pc conn \<Rightarrow> change list \<Rightarrow> bool" where
  "conn_recorded lib lk c hs \<longleftrightarrow>
     (case cn_pc c of
        SvFinish \<Rightarrow> prefix hs (received lib (lk_recv lk))
      | SvDone r \<Rightarrow> prefix hs (received lib (lk_recv lk))
      | SvRecord lo off chs \<Rightarrow> received lib (lk_recv lk) = hs @ chs @ received lib (cn_rx c)
      | SvPush lo off ch chs \<Rightarrow> received lib (lk_recv lk) = hs @ ch # chs @ received lib (cn_rx c)
      | _ \<Rightarrow> received lib (lk_recv lk) = hs @ received lib (cn_rx c))"

lemma conn_recorded_prefix: "conn_recorded lib lk c hs \<Longrightarrow> prefix hs (received lib (lk_recv lk))"
  by (auto simp: conn_recorded_def split: serve_pc.splits)

lemma conn_recorded_send:
  assumes "received lib (lk_recv lk) = hs @ received lib (cn_rx c)"
  shows "conn_recorded lib lk (serve_send lib lk lo response c) hs"
  using assms by (auto simp: conn_recorded_def serve_send_def split: outcome.split option.split prod.split)

lemma conn_recorded_read:
  assumes "received lib (lk_recv lk) = hs @ received lib (cn_rx c)"
  shows "conn_recorded lib lk (serve_read lib lk lo m c) hs"
proof (cases "\<exists>msg rest q. recv_frame (cn_rx c) = RecvFrame msg rest \<and> decode_message (pl_from_json lib) msg = Ok q")
  case True
  then obtain msg rest q where f: "recv_frame (cn_rx c) = RecvFrame msg rest" "decode_message (pl_from_json lib) msg = Ok q"
    by blast
  have "received lib (lk_recv lk) = hs @ (case q of Response b \<Rightarrow> cb_changes b | _ \<Rightarrow> []) @ received lib rest"
    using assms received_frame [OF f] by simp
  moreover from this have "conn_recorded lib lk (serve_send lib lk lo response (c\<lparr>cn_rx := rest\<rparr>)) hs"
      if "\<forall>b. q \<noteq> Response b" for response
    using that by (intro conn_recorded_send) (simp split: sync_message.splits)
  ultimately show ?thesis
    by (cases q) (simp_all add: f serve_read_def serve_dispatch_def Let_def, simp_all add: conn_recorded_def)
next
  case False
  then show ?thesis
    using assms by (auto simp: conn_recorded_def serve_read_def split: recv.split outcome.split)
qed

text \<open>What one section records: the change it pushes.\<close>

definition section_records :: "connection \<Rightarrow> change list" where
  "section_records conn =
     (case conn of
        Incoming c \<Rightarrow> (case cn_pc c of SvPush lo off ch chs \<Rightarrow> [ch] | _ \<Rightarrow> [])
      | Outgoing c \<Rightarrow> [])"

lemma serve_section_records:
  assumes "serve_section lib lk pid m c = (m', c')"
  shows "(conn_recorded lib lk c hs \<longrightarrow> conn_recorded lib lk c' (hs @ section_records (Incoming c)))
     \<and> (sm_changes m = last_n (sm_max_changes m) h \<longrightarrow> sm_changes m' = last_n (sm_max_changes m) (h @ section_records (Incoming c)))
     \<and> sm_max_changes m' = sm_max_changes m"
proof (cases "cn_pc c")
  case (SvRecord lo off chs)
  then show ?thesis
    using assms conn_recorded_send [of lib lk hs c lo "Ack off"]
    by (cases chs) (auto simp: serve_section_def section_records_def conn_recorded_def record_claim_def)
next
  case (SvPush lo off ch chs)
  then show ?thesis
    using assms record_push_changes [of m h ch]
    by (auto simp: serve_section_def section_records_def conn_recorded_def record_push_simps)
next
  case (SvRead lo)
  then show ?thesis
    using assms conn_recorded_read [of lib lk hs c lo m]
    by (auto simp: serve_section_def section_records_def conn_recorded_def [of lib lk c])
next
  case (SvFinal lo off chs)
  then show ?thesis
    using assms conn_recorded_send [of lib lk hs c]
    by (auto simp: serve_section_def section_records_def conn_recorded_def [of lib lk c])
qed (use assms in \<open>auto simp: serve_section_def section_records_def conn_recorded_def update_peer_state_def Let_def
       split: option.splits\<close>)

lemma drive_section_records:
  "drive_section lib lk pid m c = (m', c') \<Longrightarrow> sm_changes m' = sm_changes m \<and> sm_max_changes m' = sm_max_changes m"
  by (cases "cn_pc c")
     (auto simp: drive_section_def drive_finish_def update_peer_state_def Let_def split: option.splits prod.splits list.splits)

text \<open>
  The history of a node pairs every change with the connection that brought it. The log is its end,
  and for each connection it holds a prefix of what was received there.
\<close>

definition brought :: "'cid \<Rightarrow> ('cid \<times> change) list \<Rightarrow> change list" where
  "brought cid h = map snd (filter (\<lambda>p. fst p = cid) h)"

lemma brought_simps [simp]:
  "brought cid [] = []" "brought cid (h @ h') = brought cid h @ brought cid h'"
  "brought cid (map (Pair cid') cs) = (if cid = cid' then cs else [])"
  by (simp_all add: brought_def comp_def)

definition stands :: "'id proto_lib \<Rightarrow> link \<Rightarrow> connection option \<Rightarrow> change list \<Rightarrow> bool" where
  "stands lib lk conn hs \<longleftrightarrow> (case conn of Some (Incoming c) \<Rightarrow> conn_recorded lib lk c hs | _ \<Rightarrow> hs = [])"

definition node_history ::
  "('cid, 'id, 'ch) node_env \<Rightarrow> nat \<Rightarrow> ('cid, 'id, 'addr, 'ep, 'ch, 'w) node \<Rightarrow> ('cid \<times> change) list \<Rightarrow> bool" where
  "node_history env n nd h \<longleftrightarrow>
     sm_max_changes (nd_manager nd) = n \<and> sm_changes (nd_manager nd) = last_n n (map snd h)
     \<and> (\<forall>cid. stands (ne_lib env) (ne_link env cid) (nd_conns nd cid) (brought cid h))"

lemma stands_start: "at_start lk c \<Longrightarrow> stands lib lk None hs \<Longrightarrow> stands lib lk (Some c) hs"
  by (cases c) (auto simp: stands_def conn_recorded_def serve_start_def)

lemma stands_adds:
  "adds_connection links conns conns' \<Longrightarrow> stands lib (links i) (conns i) hs \<Longrightarrow> stands lib (links i) (conns' i) hs"
  using stands_start by (auto simp: adds_connection_def)

lemma connection_section_records:
  assumes "connection_section lib lk pid m conn = (m', conn')"
  shows "(stands lib lk (Some conn) hs \<longrightarrow> stands lib lk (Some conn') (hs @ section_records conn))
     \<and> (sm_changes m = last_n (sm_max_changes m) h \<longrightarrow> sm_changes m' = last_n (sm_max_changes m) (h @ section_records conn))
     \<and> sm_max_changes m' = sm_max_changes m"
proof (cases conn)
  case (Incoming c)
  obtain m1 c1 where sec: "serve_section lib lk pid m c = (m1, c1)" by (metis prod.collapse)
  with assms Incoming have "m' = m1" "conn' = Incoming c1" by simp_all
  with serve_section_records [OF sec, of hs h] Incoming show ?thesis by (simp add: stands_def)
next
  case (Outgoing c)
  obtain m1 c1 where sec: "drive_section lib lk pid m c = (m1, c1)" by (metis prod.collapse)
  with assms Outgoing have "m' = m1" "conn' = Outgoing c1" by simp_all
  with drive_section_records [OF sec] Outgoing show ?thesis by (simp add: stands_def section_records_def)
qed

lemma node_history_step:
  assumes "node_history env n nd h"
  shows "\<exists>h'. node_history env n (node_step env nd op) h'"
proof (cases "\<exists>cid. op = ConnSection cid \<and> nd_conns nd cid \<noteq> None")
  case True
  then obtain cid c where op: "op = ConnSection cid" and c: "nd_conns nd cid = Some c" by blast
  obtain m c' where sec: "connection_section (ne_lib env) (ne_link env cid) (ne_peer env cid) (nd_manager nd) c = (m, c')"
    by (metis prod.collapse)
  note step = node_section_step(1) [OF c sec]
  note rec = connection_section_records [OF sec, of "brought cid h" "map snd h"]
  have "stands (ne_lib env) (ne_link env i) (((nd_conns nd)(cid \<mapsto> c')) i) (brought i (h @ map (Pair cid) (section_records c)))" for i
    using assms rec c unfolding node_history_def by (cases "i = cid") (auto dest: spec [of _ i])
  with assms rec step show ?thesis
    unfolding node_history_def op by (intro exI [of _ "h @ map (Pair cid) (section_records c)"]) (simp add: comp_def)
next
  case False
  then have "nd_manager (node_step env nd op) = nd_manager nd
      \<and> adds_connection (ne_link env) (nd_conns nd) (nd_conns (node_step env nd op))"
  proof (cases "\<exists>cid. op = ConnSection cid")
    case True
    with False show ?thesis by (auto simp: conn_section_def)
  next
    case False
    then have "\<forall>cid. op \<noteq> ConnSection cid" by simp
    from node_quiet_step [OF this] show ?thesis by blast
  qed
  with assms have "node_history env n (node_step env nd op) h"
    unfolding node_history_def by (metis stands_adds)
  then show ?thesis ..
qed

interpretation node_log: machine "node_step env" "\<lambda>nd. \<exists>h. node_history env n nd h" "\<lambda>op. True"
  by unfold_locales (blast intro: node_history_step)

lemma node_history_new: "node_history env 10000 (node_new closed_channel config w) []"
  by (simp add: node_history_def node_new_def runner_new_def replicator_new_def sync_manager_new_def stands_def)

lemma node_up_new: "node_up (node_new closed_channel config w)"
  by (simp add: node_up_def node_new_def runner_new_def rep_inv_new)

subsection \<open>Properties\<close>

text \<open>
  C14. The log of a node comes from its peers and from nothing else: in every run of the node, with
  whatever calls, restarts and connections in whatever order, the log is the last 10000 entries of
  an interleaving that has, for each served connection, a prefix of the changes in the batches its
  peer sent, in their order, and everything the connection has read when it stands between two
  messages. What the host records and what driven connections receive is not in it.
\<close>

theorem log_interleaves_peers:
  "\<exists>h. let nd = foldl (node_step env) (node_new closed_channel config w) ops
       in sm_changes (nd_manager nd) = last_n 10000 (map snd h)
          \<and> (\<forall>cid. case nd_conns nd cid of
                 Some (Incoming c) \<Rightarrow>
                   prefix (brought cid h) (received (ne_lib env) (lk_recv (ne_link env cid)))
                   \<and> (case cn_pc c of
                        SvRead lo \<Rightarrow> received (ne_lib env) (lk_recv (ne_link env cid))
                                      = brought cid h @ received (ne_lib env) (cn_rx c)
                      | _ \<Rightarrow> True)
               | _ \<Rightarrow> brought cid h = [])"
proof -
  have "\<exists>h. node_history env 10000 (node_new closed_channel config w) h"
    by (intro exI) (rule node_history_new)
  from node_log.inv_run [OF this, of ops]
  obtain h where h: "node_history env 10000 (foldl (node_step env) (node_new closed_channel config w) ops) h"
    by (auto simp: list_all_iff)
  have "case conn of
          Some (Incoming c) \<Rightarrow>
            prefix hs (received lib (lk_recv lk))
            \<and> (case cn_pc c of SvRead lo \<Rightarrow> received lib (lk_recv lk) = hs @ received lib (cn_rx c) | _ \<Rightarrow> True)
        | _ \<Rightarrow> hs = []" if "stands lib lk conn hs" for lib lk conn hs
    using that conn_recorded_prefix
    by (auto simp: stands_def conn_recorded_def split: option.splits connection.splits serve_pc.splits)
  with h show ?thesis unfolding node_history_def Let_def by blast
qed

text \<open>
  C15. Lifecycle and connections together: in every run of a node, with any number of connections per
  peer, the lifecycle invariant of the replicator holds, nothing is served or dialled before a
  successful start, and the peer table shows for every peer what the connection of it that wrote last
  has reached, across shutdowns and restarts, and nothing for a peer of which no connection has
  written; so for a peer with one connection in the whole run it shows exactly what that has reached.
\<close>

theorem node_table_exact:
  assumes "id_codec (pl_id_bytes (ne_lib env)) id_from_bytes"
    and "foldl (node_step env) (node_new closed_channel config w) ops = nd"
  shows "rep_inv (nd_rep nd)
     \<and> (nd_conns nd cid \<noteq> None \<longrightarrow> rp_discovery (nd_rep nd) \<noteq> None)
     \<and> (case nd_writer nd pid of
          None \<Rightarrow> (\<forall>i. ne_peer env i = pid \<longrightarrow> reached_state env nd i = None)
                  \<and> table_state (ne_lib env) (nd_manager nd) pid = None
        | Some i \<Rightarrow> ne_peer env i = pid \<and> reached_state env nd i \<noteq> None
                  \<and> table_state (ne_lib env) (nd_manager nd) pid = reached_state env nd i)
     \<and> ((\<forall>i. ne_peer env i = ne_peer env cid \<longrightarrow> i = cid) \<longrightarrow>
          table_state (ne_lib env) (nd_manager nd) (ne_peer env cid) = reached_state env nd cid)"
proof -
  let ?nd0 = "node_new closed_channel config w" and ?m0 = "sync_manager_new 10000"
  have "node_table env ?m0 ?nd0"
    using at_start_shows [of _ "Incoming (serve_start _)"] peer_key_inj [OF assms(1)]
    by (simp add: node_table_def table_inv_def node_new_def runner_new_def replicator_new_def seen_def entry_right_def)
  with node_up_new have "node_up ?nd0 \<and> node_table env ?m0 ?nd0" ..
  from node_runs.inv_run [OF this, of ops] have up: "node_up nd" and table: "node_table env ?m0 nd"
    using assms(2) by (simp_all add: list_all_iff)
  have none: "table_state (ne_lib env) ?m0 pid = None" for pid
    by (simp add: table_state_def sync_manager_new_def)
  note inv = conjunct2 [OF table [unfolded node_table_def]]
  note exact = table_inv_entry [OF inv, of pid, unfolded none seen_state]
    and sole = table_inv_sole [OF inv, of cid, unfolded none seen_state]
  from up have lifecycle: "rep_inv (nd_rep nd)" "nd_conns nd cid \<noteq> None \<longrightarrow> rp_discovery (nd_rep nd) \<noteq> None"
    by (auto simp: node_up_def)
  have "table_state (ne_lib env) (nd_manager nd) (ne_peer env cid) = reached_state env nd cid"
    if "\<forall>i. ne_peer env i = ne_peer env cid \<longrightarrow> i = cid"
    using sole [OF that] by (simp split: option.splits)
  with lifecycle exact show ?thesis by (intro conjI) simp_all
qed

definition quiet_node_env :: "(u8, u8, unit) node_env" where
  "quiet_node_env =
     \<lparr>ne_lib = keepalive_lib, ne_iter = (\<lambda>m. []), ne_try_send = (\<lambda>ch c. (False, ch)),
      ne_link = (\<lambda>cid. perfect_link []), ne_peer = (\<lambda>cid. min cid 2)\<rparr>"

theorem node_table_exact_witness:
  "let nd = foldl (node_step quiet_node_env) (node_new (\<lambda>n. ()) default_config ())
         [NodeStart (Ok ''endpoint''), LoopSubscribes, AcceptConn 1, ConnSection 1, AcceptConn 2, ConnSection 1,
          AcceptConn 3, ConnSection 3, NodeShutdown, LoopExits, ConnSection 1, ConnSection 1, ConnSection 2,
          ConnSection 3, ConnSection 3, ConnSection 3]
   in table_state keepalive_lib (nd_manager nd) 1 = Some Synchronized
      \<and> reached_state quiet_node_env nd 2 = Some Syncing \<and> nd_writer nd 2 = Some 3
      \<and> table_state keepalive_lib (nd_manager nd) 2 = Some Synchronized" (is "let nd = ?nd in _")
proof -
  define nd where "nd = ?nd"
  have conns: "reached_state quiet_node_env nd 1 = Some Synchronized" "reached_state quiet_node_env nd 2 = Some Syncing"
      "reached_state quiet_node_env nd 3 = Some Synchronized" "nd_writer nd 1 = Some 1" "nd_writer nd 2 = Some 3"
    unfolding nd_def
    by (simp_all add: quiet_node_env_def node_start_def runner_start_def replicator_start_def discovery_new_def
        node_new_def runner_new_def replicator_new_def accept_conn_def conn_section_def on_replicator_def
        runner_shutdown_def replicator_shutdown_def loop_subscribe_def loop_exit_def signal_loop_def
        serve_section_def serve_start_def serve_read_def perfect_link_def reached_state_def min_def)
  have codec: "id_codec (pl_id_bytes (ne_lib quiet_node_env)) (\<lambda>bs. Inr (hd bs))"
    using u8_id_codec by (simp add: keepalive_lib_def quiet_node_env_def)
  note table = node_table_exact [OF codec nd_def [symmetric]]
  have "table_state (ne_lib quiet_node_env) (nd_manager nd) 1 = Some Synchronized"
      "table_state (ne_lib quiet_node_env) (nd_manager nd) 2 = Some Synchronized"
    using table [of _ 1] table [of _ 2] conns by simp_all
  then show ?thesis
    unfolding Let_def nd_def [symmetric] using conns by (simp add: quiet_node_env_def)
qed

end
