(* ===== verification/Dialogue.thy ===== *)
theory Dialogue
  imports Protocol
begin

section \<open>Both ends over byte streams\<close>

text \<open>
  \<open>Protocol\<close> follows a session of \<open>connect_and_sync\<close> with
  \<open>handle_connection\<close> at the level of messages. Here the two ends run over the bytes
  of one bidirectional stream, with every way out of their loops: the size check, the errors of
  the codec, the zero length, the end of the stream and the loss of the connection. One turn of an
  end is one turn of its loop; it waits while the bytes it needs have not come. The connection
  loses nothing, writes succeed while it is open, and an end that returns closes it (its handle is
  dropped), which the other end sees when it reads or writes.
\<close>

subsection \<open>State and turns\<close>

datatype serving = Serving | Leaving | Left "unit result"

record 'id dialogue =
  dg_client :: "'id sync_manager"
  dg_result :: "unit result option"
  dg_server :: "'id sync_manager"
  dg_serving :: serving
  dg_to_server :: bytes
  dg_to_client :: bytes
  dg_client_fin :: bool
  dg_server_fin :: bool
  dg_closed :: bool

text \<open>Both have opened the stream and marked the peer; the client has sent its request.\<close>

definition dialogue_start ::
  "'id proto_lib \<Rightarrow> 'id \<Rightarrow> 'id \<Rightarrow> 'id sync_manager \<Rightarrow> 'id sync_manager \<Rightarrow> 'id dialogue" where
  "dialogue_start lib server_id client_id client server =
     \<lparr>dg_client = update_peer_state (pl_id_bytes lib) client server_id Syncing, dg_result = None,
      dg_server = update_peer_state (pl_id_bytes lib) server client_id Syncing, dg_serving = Serving,
      dg_to_server = frame (enc lib (Request (sm_offset client) (Some 1000))), dg_to_client = [],
      dg_client_fin = False, dg_server_fin = False, dg_closed = False\<rparr>"

text \<open>The server after its loop finishes its stream and waits for the connection to close.\<close>

definition server_leaves :: "'id dialogue \<Rightarrow> 'id dialogue" where
  "server_leaves d = d\<lparr>dg_serving := Leaving, dg_server_fin := True\<rparr>"

definition server_turn :: "'id proto_lib \<Rightarrow> 'id \<Rightarrow> u64 \<Rightarrow> 'id dialogue \<Rightarrow> 'id dialogue option" where
  "server_turn lib client_id local_offset d =
     (case dg_serving d of
        Serving \<Rightarrow>
          if dg_closed d then Some (server_leaves d)
          else (case recv_frame (dg_to_server d) of
             RecvFrame msg rest \<Rightarrow>
               (case serve_frame lib (perfect_link []) local_offset (dg_server d, [], 0) msg of
                  Continue (m, out, k) \<Rightarrow>
                    Some (d\<lparr>dg_server := m, dg_to_server := rest, dg_to_client := dg_to_client d @ out\<rparr>)
                | Break (m, out, k) \<Rightarrow> Some (server_leaves (d\<lparr>dg_server := m, dg_to_server := rest\<rparr>))
                | Return e (m, out, k) \<Rightarrow>
                    Some (d\<lparr>dg_server := m, dg_to_server := rest, dg_serving := Left (Err e), dg_closed := True\<rparr>))
           | RecvTooLarge \<Rightarrow> Some (d\<lparr>dg_serving := Left (Err too_large), dg_closed := True\<rparr>)
           | RecvEnd \<Rightarrow> Some (server_leaves d)
           | _ \<Rightarrow> if dg_client_fin d then Some (server_leaves d) else None)
      | Leaving \<Rightarrow>
          if dg_closed d then
            Some (d\<lparr>dg_server := update_peer_state (pl_id_bytes lib) (dg_server d) client_id Synchronized,
                    dg_serving := Left (Ok ())\<rparr>)
          else None
      | Left r \<Rightarrow> None)"

text \<open>The client after its loop writes the end marker, finishes, and closes the connection.\<close>

definition client_ends :: "'id proto_lib \<Rightarrow> 'id \<Rightarrow> 'id sync_manager \<Rightarrow> 'id dialogue \<Rightarrow> 'id dialogue" where
  "client_ends lib server_id m d =
     d\<lparr>dg_client := update_peer_state (pl_id_bytes lib) m server_id Synchronized, dg_result := Some (Ok ()),
       dg_to_server := dg_to_server d @ [0, 0, 0, 0], dg_client_fin := True, dg_closed := True\<rparr>"

definition client_fails :: "error \<Rightarrow> 'id dialogue \<Rightarrow> 'id dialogue" where
  "client_fails e d = d\<lparr>dg_result := Some (Err e), dg_closed := True\<rparr>"

text \<open>On a lost connection the client leaves its loop, and the write of the end marker fails.\<close>

definition client_turn :: "'id proto_lib \<Rightarrow> 'id \<Rightarrow> string \<Rightarrow> 'id dialogue \<Rightarrow> 'id dialogue option" where
  "client_turn lib server_id lost d =
     (if dg_result d \<noteq> None then None
      else if dg_closed d then Some (client_fails (Connection lost) d)
      else case recv_frame (dg_to_client d) of
        RecvFrame msg rest \<Rightarrow>
          (case decode_message (pl_from_json lib) msg of
             Ok response \<Rightarrow>
               (case client_message (dg_client d) response of
                  (m, stop) \<Rightarrow>
                    Some (if stop then client_ends lib server_id m (d\<lparr>dg_to_client := rest\<rparr>)
                          else d\<lparr>dg_client := m, dg_to_client := rest\<rparr>))
           | Err e \<Rightarrow> Some (client_fails (Encoding (pl_codec_text lib e)) (d\<lparr>dg_to_client := rest\<rparr>))
           | Panic \<Rightarrow> Some (client_ends lib server_id (dg_client d) (d\<lparr>dg_to_client := rest\<rparr>)))
      | RecvTooLarge \<Rightarrow> Some (client_fails too_large d)
      | RecvEnd \<Rightarrow> Some (client_ends lib server_id (dg_client d) d)
      | RecvClosed \<Rightarrow> if dg_server_fin d then Some (client_ends lib server_id (dg_client d) d) else None
      | RecvTruncated \<Rightarrow> if dg_server_fin d then Some (client_fails (Connection lost) d) else None)"

inductive dialogue_step ::
  "'id proto_lib \<Rightarrow> 'id \<Rightarrow> 'id \<Rightarrow> string \<Rightarrow> u64 \<Rightarrow> 'id dialogue \<Rightarrow> 'id dialogue \<Rightarrow> bool"
  for lib server_id client_id lost local_offset where
  server_moves: "server_turn lib client_id local_offset d = Some d' \<Longrightarrow>
    dialogue_step lib server_id client_id lost local_offset d d'"
| client_moves: "client_turn lib server_id lost d = Some d' \<Longrightarrow>
    dialogue_step lib server_id client_id lost local_offset d d'"

inductive_simps dialogue_step_iff: "dialogue_step lib server_id client_id lost local_offset d d'"

text \<open>Both ends are in their loops, nothing is on its way, and nobody will send anything.\<close>

definition both_wait :: "'id dialogue \<Rightarrow> bool" where
  "both_wait d \<longleftrightarrow> dg_result d = None \<and> dg_serving d = Serving \<and> dg_to_server d = [] \<and> dg_to_client d = []
     \<and> \<not> dg_client_fin d \<and> \<not> dg_server_fin d \<and> \<not> dg_closed d"

subsection \<open>Runs of bounded length\<close>

text \<open>At most \<open>n\<close> steps are possible, and every state on the way satisfies \<open>P\<close>.\<close>

primrec within :: "('s \<Rightarrow> 's \<Rightarrow> bool) \<Rightarrow> ('s \<Rightarrow> bool) \<Rightarrow> nat \<Rightarrow> 's \<Rightarrow> bool" where
  "within step P 0 s \<longleftrightarrow> P s \<and> (\<forall>t. \<not> step s t)"
| "within step P (Suc n) s \<longleftrightarrow> P s \<and> (\<forall>t. step s t \<longrightarrow> within step P n t)"

lemma within_run: "within step P n s \<Longrightarrow> (step ^^ m) s t \<Longrightarrow> m \<le> n \<and> P t"
proof (induction n arbitrary: s m)
  case 0
  then show ?case by (cases m) (auto dest: relpowp_Suc_D2 simp del: relpowp.simps(2))
next
  case (Suc n)
  show ?case
  proof (cases m)
    case (Suc k)
    then have "(step ^^ Suc k) s t" using Suc.prems(2) by simp
    from relpowp_Suc_D2 [OF this] obtain u where "step s u" "(step ^^ k) u t" by blast
    with Suc.IH Suc.prems(1) Suc show ?thesis by fastforce
  qed (use Suc.prems in auto)
qed

lemma within_stuck: "P s \<Longrightarrow> (\<And>t. \<not> step s t) \<Longrightarrow> within step P n s"
  by (cases n) simp_all

lemma within_only: "P s \<Longrightarrow> (\<And>t. step s t \<longleftrightarrow> t = u) \<Longrightarrow> within step P n u \<Longrightarrow> within step P (Suc n) s"
  by simp

subsection \<open>The codec and the first messages\<close>

text \<open>
  What is relied on of \<open>serde_json\<close>: a message that it prints has a text that is not
  empty, is valid UTF-8, and is parsed back to the message.
\<close>

definition json_codec :: "'id proto_lib \<Rightarrow> bool" where
  "json_codec lib \<longleftrightarrow>
     (\<forall>msg s. pl_to_json lib msg = Inr s \<longrightarrow> s \<noteq> [] \<and> utf8_valid (as_bytes s) \<and> pl_from_json lib s = Inr msg)"

lemma json_codec_encoded:
  assumes "json_codec lib" "encode_message (pl_to_json lib) msg = Ok bs"
  shows "bs \<noteq> []" "decode_message (pl_from_json lib) bs = Ok msg" "enc lib msg = bs"
proof -
  obtain s where s: "pl_to_json lib msg = Inr s" "bs = as_bytes s"
    using assms(2) by (auto simp: encode_message_Ok_iff)
  moreover have "s \<noteq> []" "utf8_valid (as_bytes s)" "pl_from_json lib s = Inr msg"
    using assms(1) s(1) unfolding json_codec_def by blast+
  ultimately show "bs \<noteq> []" "decode_message (pl_from_json lib) bs = Ok msg" "enc lib msg = bs"
    using assms(2) by (simp_all add: decode_message_def enc_def flip: length_greater_0_conv)
qed

lemma recv_large:
  assumes "MAX_MESSAGE_SIZE < length bs" "length bs < 2 ^ 32"
  shows "recv_frame (frame bs) = RecvTooLarge"
proof -
  have len: "unat (of_nat (length bs) :: u32) = length bs"
    by (rule unat_of_nat_u32) (rule assms(2))
  then have "(of_nat (length bs) :: u32) \<noteq> 0" using assms(1) by (metis gr_implies_not0 unat_0)
  with len assms(1) show ?thesis by (simp add: recv_frame_def frame_def Let_def)
qed

lemma recv_fits:
  assumes "bs \<noteq> []" "length bs \<le> MAX_MESSAGE_SIZE"
  shows "recv_frame (frame bs) = RecvFrame bs []"
  using recv_frame_frame [of bs "[]"] assms by (simp add: wire_valid_def)

lemma page_update_peer_state [simp]: "page (update_peer_state id_bytes m pid st) off limit = page m off limit"
  by (simp add: page_def get_changes_since_def update_peer_state_def Let_def split: option.split)

lemma offset_update_peer_state [simp]: "sm_offset (update_peer_state id_bytes m pid st) = sm_offset m"
  by (simp add: update_peer_state_def Let_def)

lemma encode_message_not_Panic [simp]: "encode_message to_json msg \<noteq> Panic"
  by (cases "to_json msg") (simp_all add: encode_message_def)

text \<open>The request is answered with the first response, or with an error of the codec.\<close>

lemma serve_request:
  assumes "json_codec lib" "encode_message (pl_to_json lib) (Request (sm_offset c) (Some 1000)) = Ok rq"
  shows "serve_frame lib (perfect_link []) lo (update_peer_state (pl_id_bytes lib) s pid Syncing, [], 0) rq
     = (case encode_message (pl_to_json lib) (Response (first_response c s)) of
          Ok rs \<Rightarrow> Continue (update_peer_state (pl_id_bytes lib) s pid Syncing, frame rs, 2)
        | Err e \<Rightarrow> Return (Encoding (pl_codec_text lib e)) (update_peer_state (pl_id_bytes lib) s pid Syncing, [], 0)
        | Panic \<Rightarrow> Break (update_peer_state (pl_id_bytes lib) s pid Syncing, [], 0))"
  using json_codec_encoded [OF assms]
  by (simp add: serve_frame_def process_request first_response_def Let_def
      send_message_reliable [OF reliable_perfect] split: outcome.split)

lemmas turns = dialogue_step_iff server_turn_def client_turn_def server_leaves_def client_fails_def

subsection \<open>How a session ends\<close>

text \<open>
  The client has not completed, and if no step is possible, both wait for each other, or the client
  has failed, which only happens if a message does not fit or cannot be encoded.
\<close>

definition outcome_of :: "bool \<Rightarrow> ('id dialogue \<Rightarrow> 'id dialogue \<Rightarrow> bool) \<Rightarrow> 'id dialogue \<Rightarrow> bool" where
  "outcome_of fits step d \<longleftrightarrow>
     dg_result d \<noteq> Some (Ok ())
     \<and> ((\<forall>t. \<not> step d t) \<longrightarrow> both_wait d \<or> \<not> fits \<and> (\<exists>e. dg_result d = Some (Err e)))"

abbreviation settles ::
  "bool \<Rightarrow> 'id proto_lib \<Rightarrow> 'id \<Rightarrow> 'id \<Rightarrow> string \<Rightarrow> u64 \<Rightarrow> nat \<Rightarrow> 'id dialogue \<Rightarrow> bool" where
  "settles fits lib server_id client_id lost lo \<equiv>
     within (dialogue_step lib server_id client_id lost lo)
       (outcome_of fits (dialogue_step lib server_id client_id lost lo))"

lemma outcome_moves: "dg_result d \<noteq> Some (Ok ()) \<Longrightarrow> step d t \<Longrightarrow> outcome_of fits step d"
  by (auto simp: outcome_of_def)

lemma outcome_failed: "dg_result d = Some (Err e) \<Longrightarrow> outcome_of False step d"
  by (auto simp: outcome_of_def)

lemma settles_only:
  assumes "dg_result d \<noteq> Some (Ok ())" "\<And>t. dialogue_step lib server_id client_id lost lo d t \<longleftrightarrow> t = u"
    and "settles fits lib server_id client_id lost lo n u"
  shows "settles fits lib server_id client_id lost lo (Suc n) d"
proof -
  have "outcome_of fits (dialogue_step lib server_id client_id lost lo) d"
    by (rule outcome_moves [OF assms(1), of _ u]) (simp add: assms(2))
  from within_only [OF this assms(2,3)] show ?thesis .
qed

lemma settles_failed:
  assumes "dg_result d = Some (Err e)" "dg_closed d"
  shows "settles False lib server_id client_id lost lo 2 d"
proof -
  let ?step = "dialogue_step lib server_id client_id lost lo"
  have left: "settles False lib server_id client_id lost lo n d"
    if "dg_result d = Some (Err e)" "dg_serving d = Left r" for d r n
    by (rule within_stuck) (rule outcome_failed [OF that(1)], simp add: turns that)
  have leaving: "settles False lib server_id client_id lost lo (Suc n) d"
    if d: "dg_result d = Some (Err e)" "dg_serving d = Leaving" "dg_closed d" for d n
  proof (rule settles_only)
    let ?u = "d\<lparr>dg_server := update_peer_state (pl_id_bytes lib) (dg_server d) client_id Synchronized, dg_serving := Left (Ok ())\<rparr>"
    show "?step d t \<longleftrightarrow> t = ?u" for t using d by (auto simp: turns)
    show "settles False lib server_id client_id lost lo n ?u" by (rule left) (simp_all add: d)
  qed (simp add: d)
  show ?thesis
  proof (cases "dg_serving d")
    case Serving
    have "settles False lib server_id client_id lost lo (Suc (Suc 0)) d"
    proof (rule settles_only)
      show "?step d t \<longleftrightarrow> t = server_leaves d" for t using assms Serving by (auto simp: turns)
      show "settles False lib server_id client_id lost lo (Suc 0) (server_leaves d)"
        by (rule leaving) (simp_all add: server_leaves_def assms)
    qed (simp add: assms)
    then show ?thesis by (simp only: numeral_2_eq_2)
  next
    case Leaving
    from leaving [OF assms(1) this assms(2), of "Suc 0"] show ?thesis by (simp only: numeral_2_eq_2)
  next
    case (Left r)
    from left [OF assms(1) this] show ?thesis .
  qed
qed

lemma settles_server_failed:
  assumes "dg_result d = None" "dg_serving d = Left r" "dg_closed d"
  shows "settles False lib server_id client_id lost lo 3 d"
proof -
  have "settles False lib server_id client_id lost lo (Suc 2) d"
  proof (rule settles_only)
    show "dialogue_step lib server_id client_id lost lo d t \<longleftrightarrow> t = client_fails (Connection lost) d" for t
      using assms by (auto simp: turns)
    show "settles False lib server_id client_id lost lo 2 (client_fails (Connection lost) d)"
      by (rule settles_failed) (simp_all add: client_fails_def)
  qed (simp add: assms)
  then show ?thesis by (simp only: Suc_numeral semiring_norm)
qed

lemma settles_waiting: "both_wait d \<Longrightarrow> settles fits lib server_id client_id lost lo n d"
  by (rule within_stuck) (auto simp: both_wait_def outcome_of_def turns)

text \<open>The response has been sent.\<close>

lemma settles_answered:
  assumes codec: "json_codec lib" and rs: "encode_message (pl_to_json lib) (Response b) = Ok rs" "length rs < 2 ^ 32"
    and d: "dg_result d = None" "dg_serving d = Serving" "dg_to_server d = []" "dg_to_client d = frame rs"
      "\<not> dg_client_fin d" "\<not> dg_server_fin d" "\<not> dg_closed d"
  shows "settles (length rs \<le> MAX_MESSAGE_SIZE) lib server_id client_id lost lo 3 d"
proof -
  have server: "server_turn lib client_id lo d = None" using d by (simp add: server_turn_def)
  have "settles (length rs \<le> MAX_MESSAGE_SIZE) lib server_id client_id lost lo (Suc 2) d"
  proof (cases "length rs \<le> MAX_MESSAGE_SIZE")
    case True
    let ?t = "d\<lparr>dg_client := snd (apply_changes (dg_client d) (cb_changes b)), dg_to_client := []\<rparr>"
    have "recv_frame (frame rs) = RecvFrame rs []"
      by (rule recv_fits [OF json_codec_encoded(1) [OF codec rs(1)] True])
    then have "client_turn lib server_id lost d = Some ?t"
      using d json_codec_encoded(2) [OF codec rs(1)] by (simp add: client_turn_def client_message_def)
    with server have only: "dialogue_step lib server_id client_id lost lo d t \<longleftrightarrow> t = ?t" for t
      by (auto simp: dialogue_step_iff)
    have "both_wait ?t" using d by (simp add: both_wait_def)
    then have "settles (length rs \<le> MAX_MESSAGE_SIZE) lib server_id client_id lost lo 2 ?t" by (rule settles_waiting)
    with only show ?thesis by (rule settles_only [rotated]) (simp add: d)
  next
    case False
    then have "recv_frame (frame rs) = RecvTooLarge" using recv_large rs(2) by simp
    then have "client_turn lib server_id lost d = Some (client_fails too_large d)" using d by (simp add: client_turn_def)
    with server have only: "dialogue_step lib server_id client_id lost lo d t \<longleftrightarrow> t = client_fails too_large d" for t
      by (auto simp: dialogue_step_iff)
    have "settles False lib server_id client_id lost lo 2 (client_fails too_large d)"
      by (rule settles_failed) (simp_all add: client_fails_def)
    with only have "settles False lib server_id client_id lost lo (Suc 2) d"
      by (rule settles_only [rotated]) (simp add: d)
    with False show ?thesis by (simp only: HOL.simp_thms)
  qed
  then show ?thesis by (simp only: Suc_numeral semiring_norm)
qed

lemma settles_started:
  assumes codec: "json_codec lib" and rq: "encode_message (pl_to_json lib) (Request (sm_offset c) (Some 1000)) = Ok rq" "length rq < 2 ^ 32"
    and small: "\<And>rs. encode_message (pl_to_json lib) (Response (first_response c s)) = Ok rs \<Longrightarrow> length rs < 2 ^ 32"
  shows "settles (length rq \<le> MAX_MESSAGE_SIZE
       \<and> (\<exists>rs. encode_message (pl_to_json lib) (Response (first_response c s)) = Ok rs \<and> length rs \<le> MAX_MESSAGE_SIZE))
     lib server_id client_id lost lo 4 (dialogue_start lib server_id client_id c s)" (is "settles ?fits _ _ _ _ _ _ ?d")
proof -
  let ?step = "dialogue_step lib server_id client_id lost lo" and ?s = "update_peer_state (pl_id_bytes lib) s client_id Syncing"
  note rq_enc = json_codec_encoded [OF codec rq(1)]
  have d: "dg_result ?d = None" "dg_serving ?d = Serving" "dg_to_server ?d = frame rq" "dg_to_client ?d = []"
      "\<not> dg_client_fin ?d" "\<not> dg_server_fin ?d" "\<not> dg_closed ?d" "dg_server ?d = ?s"
    by (simp_all add: dialogue_start_def rq_enc(3))
  have client: "client_turn lib server_id lost ?d = None" using d by (simp add: client_turn_def)
  have "\<exists>t. server_turn lib client_id lo ?d = Some t \<and> settles ?fits lib server_id client_id lost lo 3 t"
  proof (cases "length rq \<le> MAX_MESSAGE_SIZE")
    case False
    let ?t = "?d\<lparr>dg_serving := Left (Err too_large), dg_closed := True\<rparr>"
    have "recv_frame (frame rq) = RecvTooLarge" using recv_large rq(2) False by simp
    then have "server_turn lib client_id lo ?d = Some ?t" using d by (simp add: server_turn_def)
    moreover have "settles False lib server_id client_id lost lo 3 ?t"
      by (rule settles_server_failed [where r = "Err too_large"]) (simp_all add: d)
    ultimately show ?thesis using False by (simp only: HOL.simp_thms) blast
  next
    case True
    then have recv: "recv_frame (frame rq) = RecvFrame rq []" by (rule recv_fits [OF rq_enc(1)])
    note turn = serve_request [OF codec rq(1), of lo s client_id]
    show ?thesis
    proof (cases "encode_message (pl_to_json lib) (Response (first_response c s))")
      case (Ok rs)
      let ?t = "?d\<lparr>dg_server := ?s, dg_to_server := [], dg_to_client := frame rs\<rparr>"
      have "server_turn lib client_id lo ?d = Some ?t" using d recv turn Ok by (simp add: server_turn_def)
      moreover have "settles (length rs \<le> MAX_MESSAGE_SIZE) lib server_id client_id lost lo 3 ?t"
        by (rule settles_answered [OF codec Ok small [OF Ok]]) (simp_all add: d)
      moreover have "?fits = (length rs \<le> MAX_MESSAGE_SIZE)" using Ok True by simp
      ultimately show ?thesis by (simp only:) blast
    next
      case (Err e)
      let ?e = "Encoding (pl_codec_text lib e)"
      let ?t = "?d\<lparr>dg_server := ?s, dg_to_server := [], dg_serving := Left (Err ?e), dg_closed := True\<rparr>"
      have "server_turn lib client_id lo ?d = Some ?t" using d recv turn Err by (simp add: server_turn_def)
      moreover have "settles False lib server_id client_id lost lo 3 ?t"
        by (rule settles_server_failed [where r = "Err ?e"]) (simp_all add: d)
      moreover have "?fits = False" using Err by simp
      ultimately show ?thesis by (simp only:) blast
    qed simp
  qed
  then obtain t where t: "server_turn lib client_id lo ?d = Some t" "settles ?fits lib server_id client_id lost lo 3 t" by blast
  with client have "?step ?d u \<longleftrightarrow> u = t" for u by (auto simp: dialogue_step_iff)
  from settles_only [OF _ this t(2)] d(1) have "settles ?fits lib server_id client_id lost lo (Suc 3) ?d" by simp
  then show ?thesis by (simp only: Suc_numeral semiring_norm)
qed

subsection \<open>Properties\<close>

text \<open>
  C24. A session never completes: while nothing else touches the two managers, over a connection
  that loses nothing and with a JSON codec that parses back what it prints, as long as the request
  and the response stay below 4 GiB, every run of \<open>connect_and_sync\<close> against
  \<open>handle_connection\<close> ends after at most four turns without the client ever returning
  \<open>Ok\<close>: in the end either both are in their loops with nothing on its way, waiting
  for each other for ever, or the client has failed; and it is the deadlock whenever the response
  can be encoded and both messages fit into the 16 MiB that the loops accept. (The server answers
  the request and waits for the next message or the end marker; the client applies the response
  and waits for an acknowledgement.)
\<close>

theorem session_never_completes:
  assumes "json_codec lib"
    and "encode_message (pl_to_json lib) (Request (sm_offset c) (Some 1000)) = Ok rq" "length rq < 2 ^ 32"
    and "\<And>rs. encode_message (pl_to_json lib) (Response (first_response c s)) = Ok rs \<Longrightarrow> length rs < 2 ^ 32"
    and "(dialogue_step lib server_id client_id lost (sm_offset s) ^^ n) (dialogue_start lib server_id client_id c s) d"
  shows "n \<le> 4 \<and> dg_result d \<noteq> Some (Ok ())
     \<and> ((\<forall>t. \<not> dialogue_step lib server_id client_id lost (sm_offset s) d t) \<longrightarrow>
          both_wait d
          \<or> (\<exists>e. dg_result d = Some (Err e))
            \<and> \<not> (length rq \<le> MAX_MESSAGE_SIZE
                 \<and> (\<exists>rs. encode_message (pl_to_json lib) (Response (first_response c s)) = Ok rs
                      \<and> length rs \<le> MAX_MESSAGE_SIZE)))"
  using within_run [OF settles_started [OF assms(1-4)] assms(5)] unfolding outcome_of_def by blast

text \<open>A library that prints the request of an empty log and the empty response.\<close>

definition empty_session_lib :: "u8 proto_lib" where
  "empty_session_lib =
     (let response = Response \<lparr>cb_offset = 0, cb_changes = [], cb_is_final = True\<rparr>; request = Request 0 (Some 1000)
      in \<lparr>pl_to_json = (\<lambda>m. if m = request then Inr ''q'' else if m = response then Inr ''r'' else Inl ''unprintable''),
          pl_from_json = (\<lambda>s. if s = ''q'' then Inr request else if s = ''r'' then Inr response else Inl ''syntax''),
          pl_codec_text = (\<lambda>e. ''codec''), pl_id_bytes = (\<lambda>b. replicate 32 b)\<rparr>)"

theorem session_never_completes_witness:
  "let step = dialogue_step empty_session_lib 1 2 ''lost'' 0;
       start = dialogue_start empty_session_lib 1 2 (sync_manager_new 10) (sync_manager_new 10)
   in \<forall>n d. (step ^^ n) start d \<longrightarrow>
        n \<le> 4 \<and> dg_result d \<noteq> Some (Ok ()) \<and> ((\<forall>t. \<not> step d t) \<longrightarrow> both_wait d)"
proof -
  let ?m = "sync_manager_new 10 :: u8 sync_manager"
  have codec: "json_codec empty_session_lib"
    by (simp add: json_codec_def empty_session_lib_def Let_def as_bytes_def)
  have response: "first_response ?m ?m = \<lparr>cb_offset = 0, cb_changes = [], cb_is_final = True\<rparr>"
    by (simp add: first_response_def page_def get_changes_since_def sync_manager_new_def Let_def)
  have rs: "encode_message (pl_to_json empty_session_lib) (Response (first_response ?m ?m)) = Ok (as_bytes ''r'')"
    and rq: "encode_message (pl_to_json empty_session_lib) (Request (sm_offset ?m) (Some 1000)) = Ok (as_bytes ''q'')"
    unfolding response by (simp_all add: encode_message_def empty_session_lib_def Let_def sync_manager_new_def)
  have offset: "sm_offset ?m = 0" by (simp add: sync_manager_new_def)
  have "n \<le> 4 \<and> dg_result d \<noteq> Some (Ok ())
      \<and> ((\<forall>t. \<not> dialogue_step empty_session_lib 1 2 ''lost'' 0 d t) \<longrightarrow> both_wait d)"
    if "(dialogue_step empty_session_lib 1 2 ''lost'' 0 ^^ n) (dialogue_start empty_session_lib 1 2 ?m ?m) d" for n d
    using session_never_completes [OF codec rq _ _ that [folded offset]] rs
    by (simp add: MAX_MESSAGE_SIZE_def offset)
  then show ?thesis unfolding Let_def by blast
qed

end
