(* ===== verification/Telemetry.thy ===== *)
theory Telemetry
  imports Float64 Common
begin

section \<open>Telemetry (\<open>src/telemetry.rs\<close>)\<close>

text \<open>
  What the crate computes for its telemetry: the names of metrics, the events each recording
  function emits, and the normalisation of attribute values. The exporters behind the events
  are third-party code. The recording functions come in two variants, with the feature
  \<open>metrics\<close> and without; the flag selects one.
\<close>

subsection \<open>Metric names and events\<close>

definition METRIC_CONNECTIONS_INCOMING :: string where "METRIC_CONNECTIONS_INCOMING = ''iroh.sync.connections.incoming''"
definition METRIC_CONNECTIONS_OUTGOING :: string where "METRIC_CONNECTIONS_OUTGOING = ''iroh.sync.connections.outgoing''"
definition METRIC_CONNECTIONS_TOTAL :: string where "METRIC_CONNECTIONS_TOTAL = ''iroh.sync.connections.total''"
definition METRIC_CONNECTION_LATENCY :: string where "METRIC_CONNECTION_LATENCY = ''iroh.sync.connection.latency''"
definition METRIC_SYNC_SUCCESS :: string where "METRIC_SYNC_SUCCESS = ''iroh.sync.sync.success''"
definition METRIC_SYNC_FAILURE :: string where "METRIC_SYNC_FAILURE = ''iroh.sync.sync.failure''"
definition METRIC_SYNC_TOTAL :: string where "METRIC_SYNC_TOTAL = ''iroh.sync.sync.total''"
definition METRIC_SYNC_DURATION :: string where "METRIC_SYNC_DURATION = ''iroh.sync.sync.duration''"
definition METRIC_BYTES_SENT :: string where "METRIC_BYTES_SENT = ''iroh.sync.bytes.sent''"
definition METRIC_BYTES_RECEIVED :: string where "METRIC_BYTES_RECEIVED = ''iroh.sync.bytes.received''"
definition METRIC_BYTES_TOTAL :: string where "METRIC_BYTES_TOTAL = ''iroh.sync.bytes.total''"
definition METRIC_PEERS_ACTIVE :: string where "METRIC_PEERS_ACTIVE = ''iroh.sync.peers.active''"
definition METRIC_CHANGES_PENDING :: string where "METRIC_CHANGES_PENDING = ''iroh.sync.changes.pending''"
definition METRIC_POOL_SIZE :: string where "METRIC_POOL_SIZE = ''iroh.sync.pool.size''"
definition METRIC_RELAY_USED :: string where "METRIC_RELAY_USED = ''iroh.sync.relay.used''"
definition METRIC_TICKETS_GENERATED :: string where "METRIC_TICKETS_GENERATED = ''iroh.sync.tickets.generated''"
definition METRIC_TICKETS_RESOLVED :: string where "METRIC_TICKETS_RESOLVED = ''iroh.sync.tickets.resolved''"

lemmas metric_names = METRIC_CONNECTIONS_INCOMING_def METRIC_CONNECTIONS_OUTGOING_def METRIC_CONNECTIONS_TOTAL_def
  METRIC_CONNECTION_LATENCY_def METRIC_SYNC_SUCCESS_def METRIC_SYNC_FAILURE_def METRIC_SYNC_TOTAL_def
  METRIC_SYNC_DURATION_def METRIC_BYTES_SENT_def METRIC_BYTES_RECEIVED_def METRIC_BYTES_TOTAL_def
  METRIC_PEERS_ACTIVE_def METRIC_CHANGES_PENDING_def METRIC_POOL_SIZE_def METRIC_RELAY_USED_def
  METRIC_TICKETS_GENERATED_def METRIC_TICKETS_RESOLVED_def

datatype metric_event = Increment string u64 | SetGauge string f64 | Observe string f64

definition as_secs_f64 :: "duration \<Rightarrow> f64" where
  "as_secs_f64 d = f64_add (f64_of_nat (d div 10 ^ 9)) (f64_div (f64_of_nat (d mod 10 ^ 9)) (Fin (10 ^ 9)))"

definition record_connection_incoming :: "bool \<Rightarrow> metric_event list" where
  "record_connection_incoming metrics =
     (if metrics then [Increment METRIC_CONNECTIONS_INCOMING 1, Increment METRIC_CONNECTIONS_TOTAL 1] else [])"

definition record_connection_outgoing :: "bool \<Rightarrow> metric_event list" where
  "record_connection_outgoing metrics =
     (if metrics then [Increment METRIC_CONNECTIONS_OUTGOING 1, Increment METRIC_CONNECTIONS_TOTAL 1] else [])"

definition metrics_sync_success :: "bool \<Rightarrow> duration \<Rightarrow> metric_event list" where
  "metrics_sync_success metrics d =
     (if metrics then [Increment METRIC_SYNC_SUCCESS 1, Increment METRIC_SYNC_TOTAL 1,
                       Observe METRIC_SYNC_DURATION (as_secs_f64 d)] else [])"

definition metrics_sync_failure :: "bool \<Rightarrow> duration \<Rightarrow> metric_event list" where
  "metrics_sync_failure metrics d =
     (if metrics then [Increment METRIC_SYNC_FAILURE 1, Increment METRIC_SYNC_TOTAL 1,
                       Observe METRIC_SYNC_DURATION (as_secs_f64 d)] else [])"

definition record_bytes_sent :: "bool \<Rightarrow> u64 \<Rightarrow> metric_event list" where
  "record_bytes_sent metrics n =
     (if metrics then [Increment METRIC_BYTES_SENT n, Increment METRIC_BYTES_TOTAL n] else [])"

definition record_bytes_received :: "bool \<Rightarrow> u64 \<Rightarrow> metric_event list" where
  "record_bytes_received metrics n =
     (if metrics then [Increment METRIC_BYTES_RECEIVED n, Increment METRIC_BYTES_TOTAL n] else [])"

definition record_relay_used :: "bool \<Rightarrow> metric_event list" where
  "record_relay_used metrics = (if metrics then [Increment METRIC_RELAY_USED 1] else [])"

definition set_active_peers :: "bool \<Rightarrow> nat \<Rightarrow> metric_event list" where
  "set_active_peers metrics n = (if metrics then [SetGauge METRIC_PEERS_ACTIVE (f64_of_nat n)] else [])"

definition set_pending_changes :: "bool \<Rightarrow> nat \<Rightarrow> metric_event list" where
  "set_pending_changes metrics n = (if metrics then [SetGauge METRIC_CHANGES_PENDING (f64_of_nat n)] else [])"

definition set_pool_size :: "bool \<Rightarrow> nat \<Rightarrow> metric_event list" where
  "set_pool_size metrics n = (if metrics then [SetGauge METRIC_POOL_SIZE (f64_of_nat n)] else [])"

definition record_connection_latency :: "bool \<Rightarrow> duration \<Rightarrow> metric_event list" where
  "record_connection_latency metrics d =
     (if metrics then [Observe METRIC_CONNECTION_LATENCY (as_secs_f64 d)] else [])"

definition record_ticket_generated :: "bool \<Rightarrow> metric_event list" where
  "record_ticket_generated metrics = (if metrics then [Increment METRIC_TICKETS_GENERATED 1] else [])"

definition record_ticket_resolved :: "bool \<Rightarrow> metric_event list" where
  "record_ticket_resolved metrics = (if metrics then [Increment METRIC_TICKETS_RESOLVED 1] else [])"

text \<open>Where the feature is off, initialising fails.\<close>

definition init_without_feature :: "string \<Rightarrow> (string, unit) outcome" where
  "init_without_feature feature = Err (feature @ '' feature not enabled'')"

subsection \<open>Normalisation of attribute values\<close>

text \<open>
  \<open>to_lowercase\<close> on the ASCII letters. The letters beyond ASCII are left alone here: none of
  them, lowered, gives one of the texts compared with.
\<close>

definition lower_char :: "char \<Rightarrow> char" where
  "lower_char c = (let n = of_char c :: nat in if 65 \<le> n \<and> n \<le> 90 then char_of (n + 32) else c)"

definition to_lowercase :: "string \<Rightarrow> string" where
  "to_lowercase s = map lower_char s"

text \<open>The well-known values of the attributes.\<close>

definition DIRECT :: string where "DIRECT = ''direct''"
definition RELAY :: string where "RELAY = ''relay''"
definition HOLE_PUNCHED :: string where "HOLE_PUNCHED = ''hole_punched''"
definition PUSH :: string where "PUSH = ''push''"
definition PULL :: string where "PULL = ''pull''"
definition BIDIRECTIONAL :: string where "BIDIRECTIONAL = ''bidirectional''"
definition SNAPSHOT :: string where "SNAPSHOT = ''snapshot''"
definition INCREMENTAL :: string where "INCREMENTAL = ''incremental''"

lemmas well_known [simp] = DIRECT_def RELAY_def HOLE_PUNCHED_def PUSH_def PULL_def
  BIDIRECTIONAL_def SNAPSHOT_def INCREMENTAL_def

definition span_name :: "string \<Rightarrow> string \<Rightarrow> string" where
  "span_name operation resource = operation @ '' '' @ resource"

definition normalize_connection_type :: "string \<Rightarrow> string" where
  "normalize_connection_type v =
     (let l = to_lowercase v
      in if l \<in> set [''p2p'', ''peer'', ''direct''] then DIRECT
         else if l \<in> set [''relay'', ''server''] then RELAY
         else if l \<in> set [''holepunch'', ''hole-punch'', ''hole_punched''] then HOLE_PUNCHED
         else v)"

definition normalize_sync_direction :: "string \<Rightarrow> string" where
  "normalize_sync_direction v =
     (let l = to_lowercase v
      in if l \<in> set [''push'', ''send'', ''upload''] then PUSH
         else if l \<in> set [''pull'', ''receive'', ''download''] then PULL
         else if l \<in> set [''bidirectional'', ''bidir'', ''both'', ''sync''] then BIDIRECTIONAL
         else v)"

definition normalize_sync_type :: "string \<Rightarrow> string" where
  "normalize_sync_type v =
     (let l = to_lowercase v
      in if l \<in> set [''full'', ''snapshot'', ''initial''] then SNAPSHOT
         else if l \<in> set [''delta'', ''incremental'', ''diff''] then INCREMENTAL
         else v)"

subsection \<open>Counters\<close>

text \<open>The value of a counter after some events.\<close>

fun counter_after :: "string \<Rightarrow> metric_event list \<Rightarrow> u64" where
  "counter_after name [] = 0"
| "counter_after name (Increment n k # es) = (if n = name then k else 0) + counter_after name es"
| "counter_after name (e # es) = counter_after name es"

lemma counter_after_append [simp]:
  "counter_after name (xs @ ys) = counter_after name xs + counter_after name ys"
  by (induction xs rule: counter_after.induct) simp_all

datatype recording =
    ConnectionIncoming | ConnectionOutgoing | SyncDone duration | SyncFailed duration
  | BytesSent u64 | BytesReceived u64 | RelayUsed | ActivePeers nat | PendingChanges nat | PoolSize nat
  | ConnectionLatency duration | TicketGenerated | TicketResolved

fun emit :: "bool \<Rightarrow> recording \<Rightarrow> metric_event list" where
  "emit metrics ConnectionIncoming = record_connection_incoming metrics"
| "emit metrics ConnectionOutgoing = record_connection_outgoing metrics"
| "emit metrics (SyncDone d) = metrics_sync_success metrics d"
| "emit metrics (SyncFailed d) = metrics_sync_failure metrics d"
| "emit metrics (BytesSent n) = record_bytes_sent metrics n"
| "emit metrics (BytesReceived n) = record_bytes_received metrics n"
| "emit metrics RelayUsed = record_relay_used metrics"
| "emit metrics (ActivePeers n) = set_active_peers metrics n"
| "emit metrics (PendingChanges n) = set_pending_changes metrics n"
| "emit metrics (PoolSize n) = set_pool_size metrics n"
| "emit metrics (ConnectionLatency d) = record_connection_latency metrics d"
| "emit metrics TicketGenerated = record_ticket_generated metrics"
| "emit metrics TicketResolved = record_ticket_resolved metrics"

lemmas recording_defs = record_connection_incoming_def record_connection_outgoing_def metrics_sync_success_def
  metrics_sync_failure_def record_bytes_sent_def record_bytes_received_def record_relay_used_def
  set_active_peers_def set_pending_changes_def set_pool_size_def record_connection_latency_def
  record_ticket_generated_def record_ticket_resolved_def

definition emitted :: "bool \<Rightarrow> recording list \<Rightarrow> metric_event list" where
  "emitted metrics rs = concat (map (emit metrics) rs)"

lemma emitted_Nil [simp]: "emitted metrics [] = []"
  by (simp add: emitted_def)

lemma emitted_Cons [simp]: "emitted metrics (r # rs) = emit metrics r @ emitted metrics rs"
  by (simp add: emitted_def)

text \<open>A total stays the sum of its parts if every recording keeps it.\<close>

lemma counters_add_up:
  assumes "\<And>r. counter_after total_name (emit True r)
             = counter_after part1 (emit True r) + counter_after part2 (emit True r)"
  shows "counter_after total_name (emitted True rs)
             = counter_after part1 (emitted True rs) + counter_after part2 (emitted True rs)"
  using assms by (induction rs) simp_all

lemma emit_totals:
  "counter_after METRIC_CONNECTIONS_TOTAL (emit True r)
     = counter_after METRIC_CONNECTIONS_INCOMING (emit True r) + counter_after METRIC_CONNECTIONS_OUTGOING (emit True r)"
  "counter_after METRIC_SYNC_TOTAL (emit True r)
     = counter_after METRIC_SYNC_SUCCESS (emit True r) + counter_after METRIC_SYNC_FAILURE (emit True r)"
  "counter_after METRIC_BYTES_TOTAL (emit True r)
     = counter_after METRIC_BYTES_SENT (emit True r) + counter_after METRIC_BYTES_RECEIVED (emit True r)"
  by (cases r; simp add: recording_defs metric_names)+

subsection \<open>Properties\<close>

text \<open>
  The counters add up: whatever is recorded with the feature \<open>metrics\<close>, the totals of
  connections, syncs and bytes are the sums of their two parts, modulo the width of a counter;
  without the feature nothing is emitted.
\<close>

theorem counters_consistent:
  "counter_after METRIC_CONNECTIONS_TOTAL (emitted True rs)
     = counter_after METRIC_CONNECTIONS_INCOMING (emitted True rs) + counter_after METRIC_CONNECTIONS_OUTGOING (emitted True rs)
   \<and> counter_after METRIC_SYNC_TOTAL (emitted True rs)
     = counter_after METRIC_SYNC_SUCCESS (emitted True rs) + counter_after METRIC_SYNC_FAILURE (emitted True rs)
   \<and> counter_after METRIC_BYTES_TOTAL (emitted True rs)
     = counter_after METRIC_BYTES_SENT (emitted True rs) + counter_after METRIC_BYTES_RECEIVED (emitted True rs)
   \<and> emitted False rs = []"
proof (intro conjI)
  show "emitted False rs = []"
  proof (induction rs)
    case (Cons r rs)
    then show ?case by (cases r) (simp_all add: recording_defs)
  qed simp
qed (rule counters_add_up, rule emit_totals)+

lemma lower_simps [simp]:
  "to_lowercase [] = []" "to_lowercase (c # s) = lower_char c # to_lowercase s"
  by (simp_all add: to_lowercase_def)

lemma normalize_canonical:
  "normalize_connection_type ''direct'' = ''direct''" "normalize_connection_type ''relay'' = ''relay''"
  "normalize_connection_type ''hole_punched'' = ''hole_punched''"
  "normalize_sync_direction ''push'' = ''push''" "normalize_sync_direction ''pull'' = ''pull''"
  "normalize_sync_direction ''bidirectional'' = ''bidirectional''"
  "normalize_sync_type ''snapshot'' = ''snapshot''" "normalize_sync_type ''incremental'' = ''incremental''"
  by (simp_all add: normalize_connection_type_def normalize_sync_direction_def normalize_sync_type_def
      lower_char_def Let_def)

lemma normalize_case:
  assumes "to_lowercase w = to_lowercase v"
  shows "normalize_connection_type v = normalize_connection_type w
       \<or> normalize_connection_type v = v \<and> normalize_connection_type w = w"
    and "normalize_sync_direction v = normalize_sync_direction w
       \<or> normalize_sync_direction v = v \<and> normalize_sync_direction w = w"
    and "normalize_sync_type v = normalize_sync_type w \<or> normalize_sync_type v = v \<and> normalize_sync_type w = w"
  using assms by (simp_all add: normalize_connection_type_def normalize_sync_direction_def normalize_sync_type_def Let_def)

text \<open>
  Normalising attribute values: each normaliser ignores the case of a value it knows, leaves
  one it does not know unchanged, answers a well-known value for a known one, and is idempotent.
\<close>

theorem normalizers_canonical:
  assumes "to_lowercase w = to_lowercase v"
  shows "normalize_connection_type (normalize_connection_type v) = normalize_connection_type v
   \<and> normalize_sync_direction (normalize_sync_direction v) = normalize_sync_direction v
   \<and> normalize_sync_type (normalize_sync_type v) = normalize_sync_type v
   \<and> normalize_connection_type v \<in> {''direct'', ''relay'', ''hole_punched'', v}
   \<and> normalize_sync_direction v \<in> {''push'', ''pull'', ''bidirectional'', v}
   \<and> normalize_sync_type v \<in> {''snapshot'', ''incremental'', v}
   \<and> (normalize_connection_type v = normalize_connection_type w
       \<or> normalize_connection_type v = v \<and> normalize_connection_type w = w)
   \<and> (normalize_sync_direction v = normalize_sync_direction w
       \<or> normalize_sync_direction v = v \<and> normalize_sync_direction w = w)
   \<and> (normalize_sync_type v = normalize_sync_type w \<or> normalize_sync_type v = v \<and> normalize_sync_type w = w)"
proof (intro conjI normalize_case [OF assms])
  show c: "normalize_connection_type v \<in> {''direct'', ''relay'', ''hole_punched'', v}"
    by (simp add: normalize_connection_type_def Let_def)
  show d: "normalize_sync_direction v \<in> {''push'', ''pull'', ''bidirectional'', v}"
    by (simp add: normalize_sync_direction_def Let_def)
  show s: "normalize_sync_type v \<in> {''snapshot'', ''incremental'', v}"
    by (simp add: normalize_sync_type_def Let_def)
  show "normalize_connection_type (normalize_connection_type v) = normalize_connection_type v"
    using c normalize_canonical by (metis empty_iff insertE)
  show "normalize_sync_direction (normalize_sync_direction v) = normalize_sync_direction v"
    using d normalize_canonical by (metis empty_iff insertE)
  show "normalize_sync_type (normalize_sync_type v) = normalize_sync_type v"
    using s normalize_canonical by (metis empty_iff insertE)
qed

theorem normalizers_canonical_witness:
  "normalize_sync_direction ''SEND'' = ''push'' \<and> normalize_sync_direction ''Send'' = ''push''"
proof -
  have low: "to_lowercase ''Send'' = to_lowercase ''SEND''" by code_simp
  have "normalize_sync_direction ''SEND'' = ''push''" by code_simp
  with normalizers_canonical [OF low] show ?thesis by auto
qed

end
