(* ===== verification/Telemetry_Setup.thy ===== *)
theory Telemetry_Setup
  imports Telemetry
begin

section \<open>Setting telemetry up (\<open>src/telemetry.rs\<close>)\<close>

text \<open>
  The names of attributes and spans, the bucket boundaries, and the two initialisations with their
  variants without the features. What the initialisations ask of the exporters is a list of events,
  in their order; whether an exporter can be built, an address parsed or a subscriber installed are
  arguments.
\<close>

subsection \<open>Names\<close>

definition ATTR_RPC_SYSTEM :: string where "ATTR_RPC_SYSTEM = ''rpc.system''"
definition ATTR_RPC_METHOD :: string where "ATTR_RPC_METHOD = ''rpc.method''"
definition ATTR_RPC_STATUS_CODE :: string where "ATTR_RPC_STATUS_CODE = ''rpc.response.status_code''"
definition ATTR_SERVER_ADDRESS :: string where "ATTR_SERVER_ADDRESS = ''server.address''"
definition ATTR_SERVER_PORT :: string where "ATTR_SERVER_PORT = ''server.port''"
definition ATTR_DB_SYSTEM :: string where "ATTR_DB_SYSTEM = ''db.system''"
definition ATTR_DB_OPERATION :: string where "ATTR_DB_OPERATION = ''db.operation.name''"
definition ATTR_DB_NAMESPACE :: string where "ATTR_DB_NAMESPACE = ''db.namespace''"
definition ATTR_DB_NAME :: string where "ATTR_DB_NAME = ''db.name''"
definition ATTR_DB_STATEMENT :: string where "ATTR_DB_STATEMENT = ''db.statement''"
definition ATTR_NET_TRANSPORT :: string where "ATTR_NET_TRANSPORT = ''net.transport''"
definition ATTR_NET_PEER_ADDRESS :: string where "ATTR_NET_PEER_ADDRESS = ''net.peer.address''"
definition ATTR_NET_PEER_PORT :: string where "ATTR_NET_PEER_PORT = ''net.peer.port''"
definition ATTR_ERROR_TYPE :: string where "ATTR_ERROR_TYPE = ''error.type''"
definition ATTR_ERROR_MESSAGE :: string where "ATTR_ERROR_MESSAGE = ''error.message''"
definition ATTR_IROH_NAMESPACE :: string where "ATTR_IROH_NAMESPACE = ''iroh.sync''"
definition ATTR_IROH_RELAY_USED :: string where "ATTR_IROH_RELAY_USED = ''iroh.sync.relay.used''"
definition ATTR_IROH_PEER_COUNT :: string where "ATTR_IROH_PEER_COUNT = ''iroh.sync.peer.count''"
definition ATTR_IROH_CONNECTION_TYPE :: string where "ATTR_IROH_CONNECTION_TYPE = ''iroh.sync.connection.type''"
definition ATTR_IROH_SYNC_DIRECTION :: string where "ATTR_IROH_SYNC_DIRECTION = ''iroh.sync.sync.direction''"
definition ATTR_IROH_SYNC_CHANGES :: string where "ATTR_IROH_SYNC_CHANGES = ''iroh.sync.sync.changes''"
definition ATTR_IROH_SYNC_TYPE :: string where "ATTR_IROH_SYNC_TYPE = ''iroh.sync.sync.type''"
definition ATTR_IROH_BYTES_TRANSFERRED :: string where "ATTR_IROH_BYTES_TRANSFERRED = ''iroh.sync.bytes.transferred''"
definition ATTR_IROH_TICKET_HASH :: string where "ATTR_IROH_TICKET_HASH = ''iroh.sync.ticket.hash''"

definition SPAN_SYNC :: string where "SPAN_SYNC = ''sync''"
definition SPAN_CONNECT :: string where "SPAN_CONNECT = ''connect''"
definition SPAN_TICKET_RESOLVE :: string where "SPAN_TICKET_RESOLVE = ''ticket.resolve''"
definition SPAN_SEND_BATCH :: string where "SPAN_SEND_BATCH = ''send.batch''"
definition SPAN_RECEIVE_BATCH :: string where "SPAN_RECEIVE_BATCH = ''receive.batch''"

definition METRIC_SYNC_DIRECTION :: string where "METRIC_SYNC_DIRECTION = ''iroh.sync.sync.direction''"
definition METRIC_SYNC_TYPE :: string where "METRIC_SYNC_TYPE = ''iroh.sync.sync.type''"

subsection \<open>Buckets\<close>

text \<open>A decimal literal is the nearest \<open>f64\<close>.\<close>

definition SYNC_DURATION_BOUNDARIES :: "f64 list" where
  "SYNC_DURATION_BOUNDARIES = map (\<lambda>centis. f64_of (centis / 100))
     [1, 2, 4, 8, 16, 32, 64, 128, 256, 512, 1024, 2048, 4096, 8192]"

definition CONNECTION_LATENCY_BOUNDARIES :: "f64 list" where
  "CONNECTION_LATENCY_BOUNDARIES = map (\<lambda>millis. f64_of (millis / 1000))
     [1, 5, 10, 20, 50, 100, 250, 500, 1000, 2500, 5000]"

definition BYTES_TRANSFERRED_BOUNDARIES :: "f64 list" where
  "BYTES_TRANSFERRED_BOUNDARIES = map f64_of
     [1024, 4096, 16384, 65536, 262144, 1048576, 4194304, 16777216, 67108864]"

subsection \<open>Initialisation\<close>

datatype setup_event =
    BuildSpanExporter string
  | StartProvider "(string \<times> string) list"
  | InstallSubscriber string string
  | SetTracerProvider
  | DescribeCounter string string
  | DescribeGauge string string
  | DescribeHistogram string string "f64 list"
  | InstallMetricsExporter string
  | ShutdownProvider

text \<open>
  \<open>build\<close> tells whether the exporter can be built, \<open>env_filter\<close> is the
  filter of the environment, \<open>installable\<close> whether no global subscriber is installed
  yet (\<open>init\<close> panics on a second one).
\<close>

definition init_tracing ::
  "bool \<Rightarrow> (string \<Rightarrow> string option) \<Rightarrow> string option \<Rightarrow> bool \<Rightarrow> string \<Rightarrow> string
     \<Rightarrow> (string, unit) outcome \<times> setup_event list" where
  "init_tracing opentelemetry build env_filter installable endpoint service_name =
     (if \<not> opentelemetry then (init_without_feature ''opentelemetry'', [])
      else case build endpoint of
        Some e \<Rightarrow> (Err e, [])
      | None \<Rightarrow>
          let started = [BuildSpanExporter endpoint, StartProvider [(''service.name'', service_name), (''rpc.system'', ''iroh'')]];
              filter_text = (case env_filter of Some f \<Rightarrow> f | None \<Rightarrow> ''info'')
          in if \<not> installable then (Panic, started)
             else (Ok (), started @ [InstallSubscriber filter_text service_name, SetTracerProvider]))"

definition metric_descriptions :: "setup_event list" where
  "metric_descriptions =
     [DescribeCounter METRIC_CONNECTIONS_INCOMING ''Total incoming connections'',
      DescribeCounter METRIC_CONNECTIONS_OUTGOING ''Total outgoing connections'',
      DescribeCounter METRIC_SYNC_SUCCESS ''Successful sync operations'',
      DescribeCounter METRIC_SYNC_FAILURE ''Failed sync operations'',
      DescribeCounter METRIC_BYTES_SENT ''Bytes sent'',
      DescribeCounter METRIC_BYTES_RECEIVED ''Bytes received'',
      DescribeCounter METRIC_RELAY_USED ''Relay connections used'',
      DescribeGauge METRIC_PEERS_ACTIVE ''Currently connected peers'',
      DescribeGauge METRIC_CHANGES_PENDING ''Changes pending sync'',
      DescribeGauge METRIC_POOL_SIZE ''Connection pool size'',
      DescribeHistogram METRIC_SYNC_DURATION ''Sync operation duration in seconds'' SYNC_DURATION_BOUNDARIES,
      DescribeHistogram METRIC_CONNECTION_LATENCY ''Connection establishment latency in seconds'' CONNECTION_LATENCY_BOUNDARIES,
      DescribeHistogram ''iroh.sync.bytes.transferred'' ''Bytes transferred per operation'' BYTES_TRANSFERRED_BOUNDARIES]"

definition init_metrics ::
  "bool \<Rightarrow> (string \<Rightarrow> string option) \<Rightarrow> string option \<Rightarrow> string option \<Rightarrow> string
     \<Rightarrow> (string, unit) outcome \<times> setup_event list" where
  "init_metrics metrics parse_addr build_error install_error addr =
     (if \<not> metrics then (init_without_feature ''metrics'', [])
      else case parse_addr addr of
        Some e \<Rightarrow> (Err e, metric_descriptions)
      | None \<Rightarrow>
          (case build_error of
             Some e \<Rightarrow> (Err e, metric_descriptions)
           | None \<Rightarrow>
               (case install_error of
                  Some e \<Rightarrow> (Err e, metric_descriptions)
                | None \<Rightarrow> (Ok (), metric_descriptions @ [InstallMetricsExporter addr]))))"

definition telemetry_shutdown :: "bool \<Rightarrow> setup_event list" where
  "telemetry_shutdown opentelemetry = (if opentelemetry then [ShutdownProvider] else [])"

subsection \<open>Lemmas\<close>

lemma f64_of_le: "x \<le> y \<Longrightarrow> f64_of x \<le> f64_of y"
  using rnd_mono [of x y]
  by (auto simp: f64_of_def Let_def less_eq_f64_def f64_le_def f64_huge_def)

lemma sorted_f64_of: "sorted xs \<Longrightarrow> sorted (map f64_of xs)"
  by (induction xs) (auto intro: f64_of_le)

text \<open>The buckets ascend, rounding included.\<close>

lemma boundaries_sorted:
  "sorted SYNC_DURATION_BOUNDARIES" "sorted CONNECTION_LATENCY_BOUNDARIES" "sorted BYTES_TRANSFERRED_BOUNDARIES"
  unfolding SYNC_DURATION_BOUNDARIES_def CONNECTION_LATENCY_BOUNDARIES_def BYTES_TRANSFERRED_BOUNDARIES_def
  by (simp_all add: f64_of_le)

fun event_name :: "metric_event \<Rightarrow> string" where
  "event_name (Increment name n) = name"
| "event_name (SetGauge name v) = name"
| "event_name (Observe name v) = name"

fun described_name :: "setup_event \<Rightarrow> string list" where
  "described_name (DescribeCounter name d) = [name]"
| "described_name (DescribeGauge name d) = [name]"
| "described_name (DescribeHistogram name d bs) = [name]"
| "described_name _ = []"

text \<open>
  What is described and what is recorded differ: the totals and the tickets are recorded without a
  description, the histogram of transferred bytes is described and never recorded.
\<close>

lemma emit_names:
  "event_name ` set (emit metrics r)
     \<subseteq> set (concat (map described_name metric_descriptions))
        \<union> {METRIC_CONNECTIONS_TOTAL, METRIC_SYNC_TOTAL, METRIC_BYTES_TOTAL, METRIC_TICKETS_GENERATED, METRIC_TICKETS_RESOLVED}"
  by (cases r) (auto simp: recording_defs metric_descriptions_def split: if_splits)

lemma transferred_never_recorded:
  "''iroh.sync.bytes.transferred'' \<in> set (concat (map described_name metric_descriptions))
     \<and> ''iroh.sync.bytes.transferred'' \<notin> event_name ` set (emitted metrics rs)"
proof
  show "''iroh.sync.bytes.transferred'' \<in> set (concat (map described_name metric_descriptions))"
    by (simp add: metric_descriptions_def)
  have "''iroh.sync.bytes.transferred'' \<notin> event_name ` set (emit metrics r)" for r
    by (cases r) (auto simp: recording_defs metric_names split: if_splits)
  then show "''iroh.sync.bytes.transferred'' \<notin> event_name ` set (emitted metrics rs)"
    by (induction rs) auto
qed

text \<open>Initialising asks for the exporter last; nothing is installed when a step before it fails.\<close>

lemma init_metrics_installs:
  "fst (init_metrics metrics parse_addr build_error install_error addr) = Ok ()
     \<longleftrightarrow> InstallMetricsExporter addr \<in> set (snd (init_metrics metrics parse_addr build_error install_error addr))"
  by (auto simp: init_metrics_def init_without_feature_def metric_descriptions_def split: option.split)

lemma init_tracing_once:
  "fst (init_tracing opentelemetry build env_filter installable endpoint service_name) = Ok ()
     \<longleftrightarrow> opentelemetry \<and> build endpoint = None \<and> installable"
  by (auto simp: init_tracing_def init_without_feature_def Let_def split: option.split)

end
