(* ===== verification/Metered.thy ===== *)
theory Metered
  imports Telemetry Protocol Pool
begin

section \<open>Operations with the feature metrics\<close>

text \<open>
  With the feature \<open>metrics\<close> the protocol, the connection pool and the sync manager
  call the recording functions of \<open>telemetry.rs\<close>. Here these operations return their
  metric events beside their results; the results are those of the operations without events. (The
  crate does not build with the feature, because of two names in \<open>replicator.rs\<close> that
  do not exist; the calls modelled here are not affected.) Whether a connection goes over a relay
  is known to iroh only and an argument, as are the durations.
\<close>

unbundle bit_operations_syntax

subsection \<open>Serving\<close>

definition relay_events :: "bool \<Rightarrow> bool \<Rightarrow> metric_event list" where
  "relay_events metrics relay = (if metrics \<and> relay then record_relay_used metrics else [])"

definition met_serve_frame ::
  "bool \<Rightarrow> 'id proto_lib \<Rightarrow> link \<Rightarrow> u64 \<Rightarrow> 'id wire_state \<Rightarrow> bytes \<Rightarrow> 'id wire_state flow \<times> metric_event list" where
  "met_serve_frame metrics lib lk local_offset st msg =
     (case st of (m, out) \<Rightarrow>
        case decode_message (pl_from_json lib) msg of
          Ok request \<Rightarrow>
            (case process_message m request local_offset of
               (Ok response, m') \<Rightarrow>
                 (case encode_message (pl_to_json lib) response of
                    Ok encoded \<Rightarrow>
                      (case send_message lk encoded out of
                         (None, out') \<Rightarrow> (Continue (m', out'), record_bytes_sent metrics (4 + of_nat (length encoded)))
                       | (Some e, out') \<Rightarrow> (Return e (m', out'), []))
                  | Err e \<Rightarrow> (Return (Encoding (pl_codec_text lib e)) (m', out), [])
                  | Panic \<Rightarrow> (Break (m', out), []))
             | (Err e, m') \<Rightarrow> (Return e (m', out), [])
             | (Panic, m') \<Rightarrow> (Break (m', out), []))
        | _ \<Rightarrow> (Break (m, out), []))"

function met_handle_loop ::
  "bool \<Rightarrow> 'id proto_lib \<Rightarrow> link \<Rightarrow> u64 \<Rightarrow> 'id wire_state \<Rightarrow> bytes \<Rightarrow> (error option \<times> 'id wire_state) \<times> metric_event list" where
  "met_handle_loop metrics lib lk local_offset st rx =
     (case recv_frame rx of
        RecvClosed \<Rightarrow> ((None, st), [])
      | RecvEnd \<Rightarrow> ((None, st), [])
      | RecvTooLarge \<Rightarrow> ((Some too_large, st), [])
      | RecvTruncated \<Rightarrow> ((None, st), [])
      | RecvFrame msg rest \<Rightarrow>
          let received = record_bytes_received metrics (of_nat (length msg))
          in (case met_serve_frame metrics lib lk local_offset st msg of
                (Continue st', sent) \<Rightarrow>
                  (case met_handle_loop metrics lib lk local_offset st' rest of
                     (res, es) \<Rightarrow> (res, received @ sent @ es))
              | (Break st', sent) \<Rightarrow> ((None, st'), received @ sent)
              | (Return e st', sent) \<Rightarrow> ((Some e, st'), received @ sent)))"
  by pat_completeness auto

termination
  by (relation "measure (\<lambda>(metrics, lib, lk, off, st, rx). length rx)") (auto dest: recv_frame_shorter)

declare met_handle_loop.simps [simp del]

definition met_handle_connection ::
  "bool \<Rightarrow> bool \<Rightarrow> duration \<Rightarrow> 'id proto_lib \<Rightarrow> link \<Rightarrow> 'id \<Rightarrow> 'id sync_manager
     \<Rightarrow> (unit result \<times> 'id sync_manager \<times> bytes) \<times> metric_event list" where
  "met_handle_connection metrics relay elapsed lib lk pid m =
     (let begun = record_connection_incoming metrics @ relay_events metrics relay
      in case lk_open lk of
           Some e \<Rightarrow> ((Err (Connection e), m, []), begun)
         | None \<Rightarrow>
             let m1 = update_peer_state (pl_id_bytes lib) m pid Syncing
             in case met_handle_loop metrics lib lk (sm_offset m1) (m1, [], 0) (lk_recv lk) of
                  ((Some e, m2, out, k), es) \<Rightarrow> ((Err e, m2, out), begun @ es)
                | ((None, m2, out, k), es) \<Rightarrow>
                    (case lk_finish lk of
                       Some e \<Rightarrow> ((Err (ConnectionClosed e), m2, out), begun @ es)
                     | None \<Rightarrow> ((Ok (), update_peer_state (pl_id_bytes lib) m2 pid Synchronized, out),
                               begun @ es @ metrics_sync_success metrics elapsed)))"

subsection \<open>Connecting\<close>

function met_client_loop ::
  "bool \<Rightarrow> 'id proto_lib \<Rightarrow> link \<Rightarrow> 'id sync_manager \<Rightarrow> bytes \<Rightarrow> (error option \<times> 'id sync_manager) \<times> metric_event list" where
  "met_client_loop metrics lib lk m rx =
     (case recv_frame rx of
        RecvClosed \<Rightarrow> ((None, m), [])
      | RecvEnd \<Rightarrow> ((None, m), [])
      | RecvTooLarge \<Rightarrow> ((Some too_large, m), [])
      | RecvTruncated \<Rightarrow> ((Some (Connection (lk_recv_error lk)), m), [])
      | RecvFrame msg rest \<Rightarrow>
          let received = record_bytes_received metrics (of_nat (length msg))
          in (case decode_message (pl_from_json lib) msg of
                Ok response \<Rightarrow>
                  (case client_message m response of
                     (m', True) \<Rightarrow> ((None, m'), received)
                   | (m', False) \<Rightarrow>
                       (case met_client_loop metrics lib lk m' rest of (res, es) \<Rightarrow> (res, received @ es)))
              | Err e \<Rightarrow> ((Some (Encoding (pl_codec_text lib e)), m), received)
              | Panic \<Rightarrow> ((None, m), received)))"
  by pat_completeness auto

termination
  by (relation "measure (\<lambda>(metrics, lib, lk, m, rx). length rx)") (auto dest: recv_frame_shorter)

declare met_client_loop.simps [simp del]

definition met_connect_and_sync ::
  "bool \<Rightarrow> bool \<Rightarrow> duration \<Rightarrow> duration \<Rightarrow> 'id proto_lib \<Rightarrow> link \<Rightarrow> 'id \<Rightarrow> 'id sync_manager
     \<Rightarrow> (unit result \<times> 'id sync_manager \<times> bytes) \<times> metric_event list" where
  "met_connect_and_sync metrics relay latency elapsed lib lk pid m =
     (let begun = record_connection_outgoing metrics;
          connected = begun @ record_connection_latency metrics latency @ relay_events metrics relay
      in case lk_connect lk of
        Some e \<Rightarrow> ((Err (Connection e), m, []), begun)
      | None \<Rightarrow>
        case lk_open lk of
          Some e \<Rightarrow> ((Err (Connection e), m, []), connected)
        | None \<Rightarrow>
            let m1 = update_peer_state (pl_id_bytes lib) m pid Syncing;
                request = Request (sm_offset m1) (Some 1000)
            in case encode_message (pl_to_json lib) request of
                 Err e \<Rightarrow> ((Err (Encoding (pl_codec_text lib e)), m1, []), connected)
               | Panic \<Rightarrow> ((Panic, m1, []), connected)
               | Ok encoded \<Rightarrow>
                   (case send_message lk encoded ([], 0) of
                      (Some e, out, k) \<Rightarrow> ((Err e, m1, out), connected)
                    | (None, out, k) \<Rightarrow>
                        (case met_client_loop metrics lib lk m1 (lk_recv lk) of
                           ((Some e, m2), es) \<Rightarrow> ((Err e, m2, out), connected @ es)
                         | ((None, m2), es) \<Rightarrow>
                             (case write_all lk [0, 0, 0, 0] (out, k) of
                                (Some e, out', k') \<Rightarrow> ((Err e, m2, out'), connected @ es)
                              | (None, out', k') \<Rightarrow>
                                  (case lk_finish lk of
                                     Some e \<Rightarrow> ((Err (ConnectionClosed e), m2, out'), connected @ es)
                                   | None \<Rightarrow>
                                       ((Ok (), update_peer_state (pl_id_bytes lib) m2 pid Synchronized, out'),
                                        connected @ es @ metrics_sync_success metrics elapsed))))))"

subsection \<open>The events change nothing\<close>

lemma met_serve_frame_erase: "fst (met_serve_frame metrics lib lk lo st msg) = serve_frame lib lk lo st msg"
  by (simp add: met_serve_frame_def serve_frame_def split: prod.split outcome.split option.split)

lemma met_handle_loop_erase: "fst (met_handle_loop metrics lib lk lo st rx) = handle_loop lib lk lo st rx"
proof (induction metrics lib lk lo st rx rule: met_handle_loop.induct)
  case (1 metrics lib lk lo st rx)
  show ?case
  proof (cases "recv_frame rx")
    case (RecvFrame msg rest)
    obtain fl sent where f: "met_serve_frame metrics lib lk lo st msg = (fl, sent)" by force
    then have "serve_frame lib lk lo st msg = fl"
      using met_serve_frame_erase [of metrics lib lk lo st msg] by simp
    then show ?thesis
      using 1 [OF RecvFrame refl f [symmetric]] RecvFrame f
      by (cases fl) (simp_all add: met_handle_loop.simps [of metrics] handle_loop.simps [of lib lk lo st rx] split_beta Let_def)
  qed (simp_all add: met_handle_loop.simps [of metrics] handle_loop.simps [of lib lk lo st rx])
qed

lemma met_client_loop_erase: "fst (met_client_loop metrics lib lk m rx) = client_loop lib lk m rx"
proof (induction metrics lib lk m rx rule: met_client_loop.induct)
  case (1 metrics lib lk m rx)
  show ?case
  proof (cases "recv_frame rx")
    case (RecvFrame msg rest)
    show ?thesis
    proof (cases "decode_message (pl_from_json lib) msg")
      case (Ok response)
      obtain m' b where c: "client_message m response = (m', b)" by force
      show ?thesis
      proof (cases b)
        case False
        have "fst (met_client_loop metrics lib lk m' rest) = client_loop lib lk m' rest"
          by (rule 1 [OF RecvFrame refl Ok]) (use c False in simp_all)
        with RecvFrame Ok c False show ?thesis
          by (simp add: met_client_loop.simps [of metrics lib lk m rx] client_loop.simps [of lib lk m rx] split_beta Let_def)
      qed (use RecvFrame Ok c in
          \<open>simp add: met_client_loop.simps [of metrics lib lk m rx] client_loop.simps [of lib lk m rx] Let_def\<close>)
    qed (use RecvFrame in \<open>simp_all add: met_client_loop.simps [of metrics] client_loop.simps [of lib lk m rx] Let_def\<close>)
  qed (simp_all add: met_client_loop.simps [of metrics] client_loop.simps [of lib lk m rx])
qed

lemma met_handle_erase: "fst (met_handle_connection metrics relay elapsed lib lk pid m) = handle_connection lib lk pid m"
proof -
  let ?m1 = "update_peer_state (pl_id_bytes lib) m pid Syncing"
  obtain e m2 out k es where l: "met_handle_loop metrics lib lk (sm_offset ?m1) (?m1, [], 0) (lk_recv lk) = ((e, m2, out, k), es)"
    by (metis prod.collapse)
  then have "handle_loop lib lk (sm_offset ?m1) (?m1, [], 0) (lk_recv lk) = (e, m2, out, k)"
    using met_handle_loop_erase [of metrics lib lk "sm_offset ?m1" "(?m1, [], 0)" "lk_recv lk"] by simp
  with l show ?thesis
    by (cases e) (simp_all add: met_handle_connection_def handle_connection_def Let_def split: option.split)
qed

lemma met_connect_erase:
  "fst (met_connect_and_sync metrics relay latency elapsed lib lk pid m) = connect_and_sync lib lk pid m"
proof -
  let ?m1 = "update_peer_state (pl_id_bytes lib) m pid Syncing"
  obtain e m2 es where l: "met_client_loop metrics lib lk ?m1 (lk_recv lk) = ((e, m2), es)"
    by (metis prod.collapse)
  then have "client_loop lib lk ?m1 (lk_recv lk) = (e, m2)"
    using met_client_loop_erase [of metrics lib lk ?m1 "lk_recv lk"] by simp
  with l show ?thesis
    by (cases e)
       (simp_all add: met_connect_and_sync_def connect_and_sync_def Let_def split: option.split outcome.split prod.split)
qed

subsection \<open>What the counters say of a connection\<close>

lemma to_le_bytes_from_le_bytes:
  assumes "length bs = 4"
  shows "to_le_bytes (from_le_bytes bs) = bs"
proof -
  obtain a b c d where bs: "bs = [a, b, c, d]"
    using assms by (auto simp: length_Suc_conv numeral_eq_Suc)
  show ?thesis
    unfolding bs to_le_bytes_eq
    by (simp, intro conjI bit_word_eqI) (auto simp: bit_simps not_le dest: bit_imp_le_length)
qed

lemma recv_frame_split: "recv_frame rx = RecvFrame msg rest \<Longrightarrow> rx = frame msg @ rest"
  by (auto simp: recv_frame_def frame_def Let_def read_exact_Some_iff to_be_bytes_def from_be_bytes_def
      to_le_bytes_from_le_bytes split: option.splits if_splits)

text \<open>The counters of the connection functions, read from a list of events.\<close>

record traffic =
  tf_incoming :: u64
  tf_outgoing :: u64
  tf_success :: u64
  tf_failure :: u64
  tf_sent :: u64
  tf_received :: u64

definition traffic_of :: "metric_event list \<Rightarrow> traffic" where
  "traffic_of es =
     \<lparr>tf_incoming = counter_after METRIC_CONNECTIONS_INCOMING es, tf_outgoing = counter_after METRIC_CONNECTIONS_OUTGOING es,
      tf_success = counter_after METRIC_SYNC_SUCCESS es, tf_failure = counter_after METRIC_SYNC_FAILURE es,
      tf_sent = counter_after METRIC_BYTES_SENT es, tf_received = counter_after METRIC_BYTES_RECEIVED es\<rparr>"

definition traffic_plus :: "traffic \<Rightarrow> traffic \<Rightarrow> traffic" where
  "traffic_plus a b =
     \<lparr>tf_incoming = tf_incoming a + tf_incoming b, tf_outgoing = tf_outgoing a + tf_outgoing b,
      tf_success = tf_success a + tf_success b, tf_failure = tf_failure a + tf_failure b,
      tf_sent = tf_sent a + tf_sent b, tf_received = tf_received a + tf_received b\<rparr>"

definition no_traffic :: traffic where
  "no_traffic = \<lparr>tf_incoming = 0, tf_outgoing = 0, tf_success = 0, tf_failure = 0, tf_sent = 0, tf_received = 0\<rparr>"

lemma traffic_append [simp]: "traffic_of (xs @ ys) = traffic_plus (traffic_of xs) (traffic_of ys)"
  by (simp add: traffic_of_def traffic_plus_def)

lemma traffic_plus_assoc: "traffic_plus (traffic_plus a b) c = traffic_plus a (traffic_plus b c)"
  by (simp add: traffic_plus_def add.assoc)

definition payload_traffic :: "nat \<Rightarrow> bytes list \<Rightarrow> traffic" where
  "payload_traffic sent msgs = no_traffic\<lparr>tf_sent := of_nat sent, tf_received := of_nat (sum_list (map length msgs))\<rparr>"

lemma payload_plus:
  "traffic_plus (payload_traffic n msgs) (payload_traffic n' msgs') = payload_traffic (n + n') (msgs @ msgs')"
  by (simp add: payload_traffic_def traffic_plus_def no_traffic_def)

lemmas traffic_simps = traffic_of_def no_traffic_def payload_traffic_def recording_defs relay_events_def metric_names

lemma traffic_recordings [simp]:
  "traffic_of [] = payload_traffic 0 []"
  "traffic_of (record_bytes_sent True (4 + of_nat n)) = payload_traffic (4 + n) []"
  "traffic_of (record_bytes_received True (of_nat (length msg))) = payload_traffic 0 [msg]"
  "traffic_of (record_connection_incoming True) = no_traffic\<lparr>tf_incoming := 1\<rparr>"
  "traffic_of (record_connection_outgoing True) = no_traffic\<lparr>tf_outgoing := 1\<rparr>"
  "traffic_of (metrics_sync_success True d) = no_traffic\<lparr>tf_success := 1\<rparr>"
  "traffic_of (record_connection_latency True d) = no_traffic"
  "traffic_of (relay_events True relay) = no_traffic"
  by (simp_all add: traffic_simps)

lemma met_serve_frame_traffic:
  assumes "\<forall>k. lk_write lk k = None" "met_serve_frame True lib lk lo (m, out, k) msg = (fl, es)"
  shows "\<exists>m' sent k'. (fl = Continue (m', out @ sent, k') \<or> fl = Break (m', out @ sent, k') \<or> (\<exists>e. fl = Return e (m', out @ sent, k')))
     \<and> traffic_of es = payload_traffic (length sent) []"
proof -
  have send: "send_message lk encoded (out, k) = (None, out @ frame encoded, k + 2)"
    and len: "length (frame encoded) = 4 + length encoded" for encoded
    using assms(1) by (simp_all add: send_message_def frame_def)
  have nothing_sent: ?thesis if "fl \<in> {Break (m', out, k), Return e (m', out, k)}" "es = []" for m' e
    using that by (intro exI [of _ m'] exI [of _ "[]"] exI [of _ k]) auto
  from assms(2) send show ?thesis
    by (auto simp: met_serve_frame_def len intro!: nothing_sent split: outcome.splits prod.splits)
qed

text \<open>
  Where reading stops: no whole message is left, or the last one ended the loop, on the server
  because it was not answered, on the client because it did not decode or was the final one.
\<close>

definition stops_at :: "(bytes \<Rightarrow> bool) \<Rightarrow> bytes list \<Rightarrow> bytes \<Rightarrow> bool" where
  "stops_at stop msgs rest \<longleftrightarrow>
     (\<forall>msg rest'. recv_frame rest \<noteq> RecvFrame msg rest') \<or> (msgs \<noteq> [] \<and> stop (last msgs))"

definition not_answered :: "'id proto_lib \<Rightarrow> link \<Rightarrow> u64 \<Rightarrow> bytes \<Rightarrow> bool" where
  "not_answered lib lk lo msg \<longleftrightarrow> (\<exists>st. \<forall>st'. serve_frame lib lk lo st msg \<noteq> Continue st')"

definition ends_client :: "'id proto_lib \<Rightarrow> bytes \<Rightarrow> bool" where
  "ends_client lib msg \<longleftrightarrow>
     (\<forall>response. decode_message (pl_from_json lib) msg = Ok response
        \<longrightarrow> (\<exists>m :: 'id sync_manager. snd (client_message m response)))"

lemma stops_at_Cons: "stops_at stop msgs rest \<Longrightarrow> stops_at stop (msg # msgs) rest"
  by (auto simp: stops_at_def)

lemma stops_at_last: "stop msg \<Longrightarrow> stops_at stop [msg] rest"
  by (simp add: stops_at_def)

lemma met_handle_loop_traffic:
  "\<lbrakk>\<forall>k. lk_write lk k = None; met_handle_loop True lib lk lo st rx = ((e, st'), es)\<rbrakk> \<Longrightarrow>
   \<exists>sent msgs rest. fst (snd st') = fst (snd st) @ sent \<and> rx = concat (map frame msgs) @ rest
     \<and> traffic_of es = payload_traffic (length sent) msgs \<and> stops_at (not_answered lib lk lo) msgs rest"
proof (induction True lib lk lo st rx arbitrary: e st' es rule: met_handle_loop.induct)
  case (1 lib lk lo st rx)
  show ?case
  proof (cases "recv_frame rx")
    case (RecvFrame msg rest)
    obtain m out k where st: "st = (m, out, k)" by (cases st)
    obtain fl es1 where f: "met_serve_frame True lib lk lo st msg = (fl, es1)" by force
    obtain m1 sent1 k1 where f1: "fl = Continue (m1, out @ sent1, k1) \<or> fl = Break (m1, out @ sent1, k1) \<or> (\<exists>e. fl = Return e (m1, out @ sent1, k1))"
      and t1: "traffic_of es1 = payload_traffic (length sent1) []"
      using met_serve_frame_traffic [OF 1(2) f [unfolded st]] by auto
    note rx = recv_frame_split [OF RecvFrame]
    show ?thesis
    proof (cases "fl = Continue (m1, out @ sent1, k1)")
      case True
      obtain res es2 where l: "met_handle_loop True lib lk lo (m1, out @ sent1, k1) rest = (res, es2)" by (meson surj_pair)
      with 1(3) RecvFrame f True have r: "res = (e, st')" "es = record_bytes_received True (of_nat (length msg)) @ es1 @ es2"
        by (simp_all add: met_handle_loop.simps [of True lib lk lo st rx] Let_def)
      obtain sent msgs rest' where "fst (snd st') = (out @ sent1) @ sent" "rest = concat (map frame msgs) @ rest'"
          "traffic_of es2 = payload_traffic (length sent) msgs" "stops_at (not_answered lib lk lo) msgs rest'"
        using 1(1) [OF RecvFrame refl f [symmetric] True 1(2) l [unfolded r(1)]] by auto
      with rx r t1 st show ?thesis
        by (intro exI [of _ "sent1 @ sent"] exI [of _ "msg # msgs"] exI [of _ rest']) (simp add: payload_plus stops_at_Cons)
    next
      case False
      then have "not_answered lib lk lo msg"
        using f f1 met_serve_frame_erase [of True lib lk lo st msg] unfolding not_answered_def
        by (intro exI [of _ st]) auto
      moreover from False 1(3) RecvFrame f f1 have "fst (snd st') = out @ sent1" "es = record_bytes_received True (of_nat (length msg)) @ es1"
        by (auto simp: met_handle_loop.simps [of True lib lk lo st rx] Let_def)
      ultimately show ?thesis using rx t1 st
        by (intro exI [of _ sent1] exI [of _ "[msg]"] exI [of _ rest]) (simp add: payload_plus stops_at_last)
    qed
  qed (use 1(3) in \<open>auto simp: met_handle_loop.simps [of True lib lk lo st rx] stops_at_def intro: exI [of _ "[]"]\<close>)
qed

lemma met_client_loop_traffic:
  "met_client_loop True lib lk m rx = (res, es) \<Longrightarrow>
   \<exists>msgs rest. rx = concat (map frame msgs) @ rest \<and> traffic_of es = payload_traffic 0 msgs
     \<and> stops_at (ends_client lib) msgs rest"
proof (induction True lib lk m rx arbitrary: res es rule: met_client_loop.induct)
  case (1 lib lk m rx)
  show ?case
  proof (cases "recv_frame rx")
    case (RecvFrame msg rest)
    note rx = recv_frame_split [OF RecvFrame]
    show ?thesis
    proof (cases "\<exists>response m'. decode_message (pl_from_json lib) msg = Ok response \<and> client_message m response = (m', False)")
      case True
      then obtain response m' where d: "decode_message (pl_from_json lib) msg = Ok response" "client_message m response = (m', False)"
        by blast
      obtain res2 es2 where l: "met_client_loop True lib lk m' rest = (res2, es2)" by (meson surj_pair)
      with 1(2) RecvFrame d have r: "es = record_bytes_received True (of_nat (length msg)) @ es2"
        by (simp add: met_client_loop.simps [of True lib lk m rx] Let_def)
      obtain msgs rest' where "rest = concat (map frame msgs) @ rest'" "traffic_of es2 = payload_traffic 0 msgs"
          "stops_at (ends_client lib) msgs rest'"
        using 1(1) [OF RecvFrame refl d(1) d(2) [symmetric] refl l] by auto
      with rx r show ?thesis
        by (intro exI [of _ "msg # msgs"] exI [of _ rest']) (simp add: payload_plus stops_at_Cons)
    next
      case False
      then have "ends_client lib msg"
        by (metis (full_types) ends_client_def prod.collapse)
      moreover from False 1(2) RecvFrame have "es = record_bytes_received True (of_nat (length msg))"
        by (auto simp: met_client_loop.simps [of True lib lk m rx] Let_def split: outcome.splits prod.splits bool.splits)
      ultimately show ?thesis using rx
        by (intro exI [of _ "[msg]"] exI [of _ rest]) (simp add: stops_at_last)
    qed
  qed (use 1(2) in \<open>auto simp: met_client_loop.simps [of True lib lk m rx] stops_at_def intro: exI [of _ "[]"]\<close>)
qed


lemma met_handle_traffic:
  assumes "\<forall>k. lk_write lk k = None"
    and h: "met_handle_connection True relay elapsed lib lk pid m = ((res, m', out), es)"
  shows "\<exists>msgs rest. lk_recv lk = concat (map frame msgs) @ rest
     \<and> traffic_of es = (payload_traffic (length out) msgs)\<lparr>tf_incoming := 1, tf_success := (if res = Ok () then 1 else 0)\<rparr>
     \<and> (if lk_open lk = None then stops_at (not_answered lib lk (sm_offset m)) msgs rest else msgs = [])"
proof (cases "lk_open lk")
  case None
  let ?m1 = "update_peer_state (pl_id_bytes lib) m pid Syncing"
  obtain e m2 out2 k es2 where l: "met_handle_loop True lib lk (sm_offset ?m1) (?m1, [], 0) (lk_recv lk) = ((e, m2, out2, k), es2)"
    by (metis prod.collapse)
  obtain sent msgs rest where "out2 = sent" "lk_recv lk = concat (map frame msgs) @ rest"
      "traffic_of es2 = payload_traffic (length sent) msgs" "stops_at (not_answered lib lk (sm_offset m)) msgs rest"
    using met_handle_loop_traffic [OF assms(1) l] by (auto simp: update_peer_state_def Let_def)
  with h None l show ?thesis
    by (intro exI [of _ msgs] exI [of _ rest])
       (auto simp: met_handle_connection_def Let_def traffic_plus_def no_traffic_def payload_traffic_def
         split: option.splits)
next
  case (Some e)
  with h show ?thesis
    by (intro exI [of _ "[]"] exI [of _ "lk_recv lk"])
       (auto simp: met_handle_connection_def traffic_plus_def no_traffic_def payload_traffic_def)
qed

lemma met_connect_traffic:
  assumes h: "met_connect_and_sync True relay latency elapsed lib lk pid m = ((res, m', out), es)"
  shows "\<exists>msgs rest. lk_recv lk = concat (map frame msgs) @ rest
     \<and> traffic_of es = (payload_traffic 0 msgs)\<lparr>tf_outgoing := 1, tf_success := (if res = Ok () then 1 else 0)\<rparr>
     \<and> (res = Ok () \<longrightarrow> stops_at (ends_client lib) msgs rest)"
proof -
  let ?m1 = "update_peer_state (pl_id_bytes lib) m pid Syncing"
  obtain e m2 es2 where l: "met_client_loop True lib lk ?m1 (lk_recv lk) = ((e, m2), es2)"
    by (metis prod.collapse)
  obtain msgs rest where "lk_recv lk = concat (map frame msgs) @ rest" "traffic_of es2 = payload_traffic 0 msgs"
      "stops_at (ends_client lib) msgs rest"
    using met_client_loop_traffic [OF l] by auto
  note l = this l
  show ?thesis
  proof (cases "es = record_connection_outgoing True \<and> res \<noteq> Ok ()
      \<or> es = (record_connection_outgoing True @ record_connection_latency True latency) @ relay_events True relay \<and> res \<noteq> Ok ()")
    case True
    then show ?thesis
      by (intro exI [of _ "[]"] exI [of _ "lk_recv lk"]) (auto simp: traffic_plus_def no_traffic_def payload_traffic_def)
  next
    case False
    with h l(4) have "es = ((record_connection_outgoing True @ record_connection_latency True latency) @ relay_events True relay) @ es2
          @ (if res = Ok () then metrics_sync_success True elapsed else [])"
      by (auto simp: met_connect_and_sync_def Let_def split: option.splits outcome.splits prod.splits)
    with l(1,2,3) show ?thesis
      by (intro exI [of _ msgs] exI [of _ rest]) (simp add: traffic_plus_def no_traffic_def payload_traffic_def)
  qed
qed

text \<open>
  What the counters say of a connection, as long as no write fails: with the feature
  \<open>metrics\<close> a connection does to its peer and its manager what it does without. A
  connection served counts as one incoming one, as a success exactly if it returns
  \<open>Ok\<close>, and all bytes written are counted as sent, their length prefixes included; a
  connection driven counts as one outgoing one and a success exactly if it returns
  \<open>Ok\<close>, and nothing it sends is counted. Of the bytes received both count the
  payloads of the messages read and not their prefixes: all whole messages of the stream, up to
  the one that ended the loop. A failed sync is never counted.
\<close>

theorem metered_connections:
  assumes "\<forall>k. lk_write lk k = None"
  shows "(case met_handle_connection True relay elapsed lib lk pid m of ((res, m', out), es) \<Rightarrow>
     handle_connection lib lk pid m = (res, m', out)
     \<and> (\<exists>msgs rest. lk_recv lk = concat (map frame msgs) @ rest
         \<and> traffic_of es =
             \<lparr>tf_incoming = 1, tf_outgoing = 0, tf_success = (if res = Ok () then 1 else 0), tf_failure = 0,
              tf_sent = of_nat (length out), tf_received = of_nat (sum_list (map length msgs))\<rparr>
         \<and> (if lk_open lk = None then stops_at (not_answered lib lk (sm_offset m)) msgs rest else msgs = [])))
   \<and> (case met_connect_and_sync True relay latency elapsed lib lk pid m of ((res, m', out), es) \<Rightarrow>
     connect_and_sync lib lk pid m = (res, m', out)
     \<and> (\<exists>msgs rest. lk_recv lk = concat (map frame msgs) @ rest
         \<and> traffic_of es =
             \<lparr>tf_incoming = 0, tf_outgoing = 1, tf_success = (if res = Ok () then 1 else 0), tf_failure = 0,
              tf_sent = 0, tf_received = of_nat (sum_list (map length msgs))\<rparr>
         \<and> (res = Ok () \<longrightarrow> stops_at (ends_client lib) msgs rest)))"
proof (rule conjI, goal_cases)
  case 1
  show ?case
    using met_handle_traffic [OF assms, of relay elapsed lib pid m] met_handle_erase [of True relay elapsed lib lk pid m]
    by (simp add: payload_traffic_def no_traffic_def split: prod.split) fastforce
next
  case 2
  show ?case
    using met_connect_traffic [of relay latency elapsed lib lk pid m] met_connect_erase [of True relay latency elapsed lib lk pid m]
    by (auto simp: payload_traffic_def no_traffic_def split: prod.split)
qed

theorem metered_connections_witness:
  "\<exists>n. traffic_of (snd (met_handle_connection True False 0 keepalive_lib (perfect_link (frame (enc keepalive_lib Ping))) 7 (sync_manager_new 10)))
     = \<lparr>tf_incoming = 1, tf_outgoing = 0, tf_success = 1, tf_failure = 0, tf_sent = 19, tf_received = n\<rparr>"
proof -
  let ?lk = "perfect_link (frame (enc keepalive_lib Ping))"
  have "\<forall>k. lk_write ?lk k = None" by (simp add: perfect_link_def)
  note metered_connections [OF this, where relay = False and elapsed = 0 and latency = 0 and lib = keepalive_lib
      and pid = 7 and m = "sync_manager_new 10", THEN conjunct1]
  moreover have "fst (handle_connection keepalive_lib ?lk 7 (sync_manager_new 10)) = Ok ()
      \<and> length (snd (snd (handle_connection keepalive_lib ?lk 7 (sync_manager_new 10)))) = 19"
  proof -
    let ?m = "update_peer_state (pl_id_bytes keepalive_lib) (sync_manager_new 10) 7 Syncing"
    have "handle_loop keepalive_lib ?lk 0 (?m, [], 0) (frame (enc keepalive_lib Ping) @ [])
        = handle_loop keepalive_lib ?lk 0 (?m, frame (enc keepalive_lib Pong), Suc (Suc 0)) []"
      using handle_loop_answers [of ?lk "[Ping]" keepalive_lib 0 ?m "[]" 0 "[]"] by (simp add: process_keepalive)
    then show ?thesis
      using handle_connection_loop [of ?lk keepalive_lib "sync_manager_new 10" 7]
      by (simp add: handle_loop_stop sync_manager_new_def update_peer_state_def Let_def frame_def enc_def
          encode_message_def keepalive_lib_def as_bytes_def)
  qed
  ultimately show ?thesis
    by (auto split: prod.splits)
qed

subsection \<open>Gauges\<close>

text \<open>The value of a gauge after some events; \<open>None\<close> where it was never set.\<close>

fun gauge_after :: "string \<Rightarrow> metric_event list \<Rightarrow> f64 option" where
  "gauge_after name [] = None"
| "gauge_after name (e # es) =
     (case gauge_after name es of
        Some x \<Rightarrow> Some x
      | None \<Rightarrow> (case e of SetGauge n x \<Rightarrow> if n = name then Some x else None | _ \<Rightarrow> None))"

lemma gauge_after_append [simp]:
  "gauge_after name (xs @ ys) = (case gauge_after name ys of Some x \<Rightarrow> Some x | None \<Rightarrow> gauge_after name xs)"
  by (induction xs) (simp_all split: option.split)

definition met_pool_insert ::
  "bool \<Rightarrow> (string \<times> 'c pooled_connection) list \<Rightarrow> nat \<Rightarrow> string \<Rightarrow> 'c \<Rightarrow> 'c pool \<Rightarrow> 'c pool \<times> metric_event list" where
  "met_pool_insert metrics kvs now key conn p =
     (let p' = pool_insert kvs now key conn p in (p', set_pool_size metrics (fmsize (pl_connections p'))))"

definition met_pool_remove :: "bool \<Rightarrow> ('id \<Rightarrow> string) \<Rightarrow> 'id \<Rightarrow> 'c pool \<Rightarrow> 'c pool \<times> metric_event list" where
  "met_pool_remove metrics id_text pid p =
     (let p' = pool_remove id_text pid p in (p', set_pool_size metrics (fmsize (pl_connections p'))))"

definition met_pool_cleanup :: "bool \<Rightarrow> nat \<Rightarrow> 'c pool \<Rightarrow> 'c pool \<times> metric_event list" where
  "met_pool_cleanup metrics now p =
     (let p' = pool_cleanup now p in (p', set_pool_size metrics (fmsize (pl_connections p'))))"

definition met_record_change :: "bool \<Rightarrow> 'id sync_manager \<Rightarrow> change \<Rightarrow> (u64 \<times> 'id sync_manager) \<times> metric_event list" where
  "met_record_change metrics m c =
     (let (off, m') = record_change m c in ((off, m'), set_pending_changes metrics (length (sm_changes m'))))"

text \<open>A step of the pool or of the manager, with the events so far.\<close>

fun met_pool_step ::
  "('id \<Rightarrow> string) \<Rightarrow> ((string, 'c pooled_connection) fmap \<Rightarrow> (string \<times> 'c pooled_connection) list)
     \<Rightarrow> 'c pool \<times> metric_event list \<Rightarrow> ('id, 'c) pool_op \<Rightarrow> 'c pool \<times> metric_event list" where
  "met_pool_step id_text iter (p, es) (Connected now pid conn) =
     map_prod id ((@) es) (met_pool_insert True (iter (pl_connections p)) now (id_text pid) conn p)"
| "met_pool_step id_text iter (p, es) (RemoveConn pid) = map_prod id ((@) es) (met_pool_remove True id_text pid p)"
| "met_pool_step id_text iter (p, es) (Cleanup now) = map_prod id ((@) es) (met_pool_cleanup True now p)"
| "met_pool_step id_text iter (p, es) op = (pool_step id_text iter p op, es)"

fun met_sync_step ::
  "('id \<Rightarrow> bytes) \<Rightarrow> 'id sync_manager \<times> metric_event list \<Rightarrow> 'id sync_op \<Rightarrow> 'id sync_manager \<times> metric_event list" where
  "met_sync_step id_bytes (m, es) (Record c) = map_prod snd ((@) es) (met_record_change True m c)"
| "met_sync_step id_bytes (m, es) op = (sync_step id_bytes m op, es)"

definition gauge_shows :: "string \<Rightarrow> nat \<Rightarrow> metric_event list \<Rightarrow> bool" where
  "gauge_shows name n es \<longleftrightarrow> gauge_after name es = (if gauge_after name es = None \<and> n = 0 then None else Some (f64_of_nat n))"

lemma gauge_shows_set [simp]:
  "gauge_shows METRIC_POOL_SIZE n (es @ set_pool_size True n)"
  "gauge_shows METRIC_CHANGES_PENDING n (es @ set_pending_changes True n)"
  by (simp_all add: gauge_shows_def set_pool_size_def set_pending_changes_def)

lemma gauge_shows_in:
  "gauge_shows name n es \<Longrightarrow>
   gauge_after name es = Some (f64_of_nat n) \<or> gauge_after name es = None \<and> n = 0"
  by (simp add: gauge_shows_def split: if_splits)

lemma pool_len_unchanged:
  "pool_reuse now key p = Some (conn, p') \<Longrightarrow> fmsize (pl_connections p') = fmsize (pl_connections p)"
  "fmsize (pl_connections (pool_release id_text now pid p)) = fmsize (pl_connections p)"
  by (auto simp: pool_reuse_def pool_release_def fmsize_def finsert_absorb fmdomI split: option.splits if_splits)

interpretation pool_gauge: simulation "met_pool_step id_text iter" "pool_step id_text iter"
    "\<lambda>s q. fst s = q \<and> gauge_shows METRIC_POOL_SIZE (fmsize (pl_connections q)) (snd s)" "\<lambda>op. True"
proof unfold_locales
  fix s :: "'b pool \<times> metric_event list" and q and op :: "('a, 'b) pool_op"
  assume "fst s = q \<and> gauge_shows METRIC_POOL_SIZE (fmsize (pl_connections q)) (snd s)"
  then show "fst (met_pool_step id_text iter s op) = pool_step id_text iter q op
      \<and> gauge_shows METRIC_POOL_SIZE (fmsize (pl_connections (pool_step id_text iter q op))) (snd (met_pool_step id_text iter s op))"
    by (cases s; cases op)
       (auto simp: met_pool_insert_def met_pool_remove_def met_pool_cleanup_def Let_def pool_len_unchanged
         split: option.split)
qed

interpretation pending_gauge: simulation "met_sync_step id_bytes" "sync_step id_bytes"
    "\<lambda>s m. fst s = m \<and> gauge_shows METRIC_CHANGES_PENDING (length (sm_changes m)) (snd s)" "\<lambda>op. True"
proof unfold_locales
  fix s :: "'a sync_manager \<times> metric_event list" and m and op :: "'a sync_op"
  assume "fst s = m \<and> gauge_shows METRIC_CHANGES_PENDING (length (sm_changes m)) (snd s)"
  then show "fst (met_sync_step id_bytes s op) = sync_step id_bytes m op
      \<and> gauge_shows METRIC_CHANGES_PENDING (length (sm_changes (sync_step id_bytes m op))) (snd (met_sync_step id_bytes s op))"
    by (cases s; cases op)
       (auto simp: met_record_change_def apply_changes_def update_peer_state_def change_receiver_def Let_def
         split: prod.split)
qed

text \<open>
  The gauges are exact: however a pool is used, its size gauge, once set, shows the number of
  connections it holds, though only three of its operations set it; and the gauge of pending
  changes shows the length of the log after all operations of a manager, though only recording
  sets it. The operations do what they do without the events.
\<close>

theorem gauges_exact:
  "let (p, es) = foldl (met_pool_step id_text iter) (pool_new config, []) ops;
       (m, es') = foldl (met_sync_step id_bytes) (sync_manager_new n, []) sops
   in p = foldl (pool_step id_text iter) (pool_new config) ops
      \<and> (gauge_after METRIC_POOL_SIZE es = Some (f64_of_nat (pool_len p))
           \<or> gauge_after METRIC_POOL_SIZE es = None \<and> pool_len p = 0)
      \<and> m = foldl (sync_step id_bytes) (sync_manager_new n) sops
      \<and> (gauge_after METRIC_CHANGES_PENDING es' = Some (f64_of_nat (length (sm_changes m)))
           \<or> gauge_after METRIC_CHANGES_PENDING es' = None \<and> length (sm_changes m) = 0)"
proof -
  have "gauge_shows METRIC_POOL_SIZE (fmsize (pl_connections (pool_new config))) []"
    and "gauge_shows METRIC_CHANGES_PENDING (length (sm_changes (sync_manager_new n))) []"
    by (simp_all add: gauge_shows_def pool_new_def sync_manager_new_def fmsize_def)
  moreover have "list_all (\<lambda>op. True) ops" "list_all (\<lambda>op. True) sops" by (simp_all add: list_all_iff)
  ultimately show ?thesis
    using pool_gauge.sim_run [of "(pool_new config, [])" "pool_new config" ops id_text iter]
      pending_gauge.sim_run [of "(sync_manager_new n, [])" "sync_manager_new n" sops id_bytes]
    by (fastforce simp: split_beta Let_def pool_len_def dest: gauge_shows_in)
qed

end
