(* ===== verification/Benchmarks.thy ===== *)
theory Benchmarks
  imports Sync_Manager Compress
begin

section \<open>The benchmarks (\<open>benches/sync_bench.rs\<close>)\<close>

text \<open>
  What the benchmarks run: criterion calls a routine as often as it likes, here \<open>n\<close>
  times, and the model gives the values the routine computes, or the panic of an
  \<open>unwrap\<close>. Identifiers and clock of the changes created are arguments, and so are
  the two functions of \<open>bincode\<close> and the compressor.
\<close>

subsection \<open>Running a routine\<close>

primrec b_iter :: "('s \<Rightarrow> 'a result \<times> 's) \<Rightarrow> nat \<Rightarrow> 's \<Rightarrow> 'a list result \<times> 's" where
  "b_iter routine 0 s = (Ok [], s)"
| "b_iter routine (Suc n) s =
     (case routine s of
        (Ok x, s') \<Rightarrow>
          (case b_iter routine n s' of
             (Ok xs, s'') \<Rightarrow> (Ok (x # xs), s'')
           | (Err e, s'') \<Rightarrow> (Err e, s'')
           | (Panic, s'') \<Rightarrow> (Panic, s''))
      | (Err e, s') \<Rightarrow> (Err e, s')
      | (Panic, s') \<Rightarrow> (Panic, s'))"

definition unwrap :: "'e + 'a \<Rightarrow> 'a result" where
  "unwrap r = (case r of Inl e \<Rightarrow> Panic | Inr x \<Rightarrow> Ok x)"

text \<open>A benchmark: its group, function name and parameter, the declared throughput, and its run.\<close>

record 'a benchmark =
  bm_group :: string
  bm_function :: string
  bm_parameter :: "nat option"
  bm_elements :: "u64 option"
  bm_run :: "nat \<Rightarrow> 'a list result"

definition plain_benchmark :: "string \<Rightarrow> string \<Rightarrow> (nat \<Rightarrow> 'a list result) \<Rightarrow> 'a benchmark" where
  "plain_benchmark grp name f =
     \<lparr>bm_group = grp, bm_function = name, bm_parameter = None, bm_elements = None, bm_run = f\<rparr>"

text \<open>The state of a creating routine is the number of identifiers drawn so far.\<close>

definition creation_routine :: "(nat \<Rightarrow> uuid) \<Rightarrow> int \<Rightarrow> nat \<Rightarrow> nat \<Rightarrow> change list result \<times> nat" where
  "creation_routine ids now elements drawn =
     (Ok (map (\<lambda>i. change_set (ids i) now ''namespace'' ''database'' (as_bytes (''key-'' @ show_nat 0)) (as_bytes (''value-'' @ show_nat 0)))
            [drawn ..< drawn + elements]),
      drawn + elements)"

definition bench_change_creation :: "(nat \<Rightarrow> uuid) \<Rightarrow> int \<Rightarrow> change list benchmark list" where
  "bench_change_creation ids now =
     map (\<lambda>elements. \<lparr>bm_group = ''change_creation'', bm_function = ''set'', bm_parameter = Some elements,
                  bm_elements = Some (of_nat elements),
                  bm_run = (\<lambda>n. fst (b_iter (creation_routine ids now elements) n 0))\<rparr>)
       [1, 10, 100, 1000]"

datatype coded = CodedBytes bytes | CodedChange change

definition bench_encoded_change :: "uuid \<Rightarrow> int \<Rightarrow> change" where
  "bench_encoded_change new_id now =
     change_set new_id now ''namespace'' ''database'' (replicate 1024 0) (replicate 1024 1)"

definition bench_change_encoding ::
  "(change \<Rightarrow> string + bytes) \<Rightarrow> (bytes \<Rightarrow> string + change) \<Rightarrow> uuid \<Rightarrow> int \<Rightarrow> coded benchmark list" where
  "bench_change_encoding ser de new_id now =
     (let change = bench_encoded_change new_id now
      in [plain_benchmark ''change_encoding'' ''bincode_encode''
            (\<lambda>n. fst (b_iter (\<lambda>s. (and_then (unwrap (ser change)) (\<lambda>bs. Ok (CodedBytes bs)), s)) n ())),
          plain_benchmark ''change_encoding'' ''bincode_decode''
            (\<lambda>n. and_then (unwrap (ser change))
                   (\<lambda>bs. fst (b_iter (\<lambda>s. (and_then (unwrap (de bs)) (\<lambda>c. Ok (CodedChange c)), s)) n ())))])"

text \<open>Recording draws an identifier; the reading benchmark works on a hundred recorded changes.\<close>

definition bench_recorded :: "(nat \<Rightarrow> uuid) \<Rightarrow> int \<Rightarrow> string \<Rightarrow> nat \<Rightarrow> change" where
  "bench_recorded ids now k i = change_set (ids i) now ''ns'' ''db'' (as_bytes k) (as_bytes ''value'')"

definition record_routine :: "(nat \<Rightarrow> uuid) \<Rightarrow> int \<Rightarrow> nat \<times> 'id sync_manager \<Rightarrow> nat result \<times> nat \<times> 'id sync_manager" where
  "record_routine ids now = (\<lambda>(i, manager).
     (case record_change manager (bench_recorded ids now ''key'' i) of
        (offset, manager') \<Rightarrow> (Ok (unat offset), i + 1, manager')))"

definition populated :: "(nat \<Rightarrow> uuid) \<Rightarrow> int \<Rightarrow> 'id sync_manager" where
  "populated ids now =
     record_all (sync_manager_new 10000) (map (\<lambda>i. bench_recorded ids now (''key-'' @ show_nat i) i) [0..<100])"

definition bench_sync_manager :: "(nat \<Rightarrow> uuid) \<Rightarrow> int \<Rightarrow> nat benchmark list" where
  "bench_sync_manager ids now =
     [plain_benchmark ''sync_manager'' ''record_change''
        (\<lambda>n. fst (b_iter (record_routine ids now) n (0, sync_manager_new 10000 :: nat sync_manager))),
      plain_benchmark ''sync_manager'' ''get_changes_since''
        (\<lambda>n. let manager = (populated ids now :: nat sync_manager)
             in fst (b_iter (\<lambda>s. (Ok (length (get_changes_since manager 50)), s)) n ())),
      plain_benchmark ''sync_manager'' ''offset''
        (\<lambda>n. let manager = (sync_manager_new 10000 :: nat sync_manager)
             in fst (b_iter (\<lambda>s. (Ok (unat (sm_offset manager)), s)) n ()))]"

definition bench_compression :: "zstd_compress \<Rightarrow> compressed_data benchmark list" where
  "bench_compression zc =
     (let data = replicate (1024 * 10) 0; config = compression_config_default
      in [plain_benchmark ''compression'' ''compress_10kb''
            (\<lambda>n. fst (b_iter (\<lambda>s. (Ok (compress zc data config), s)) n ()))])"

subsection \<open>What they measure\<close>

lemma b_iter_constant: "b_iter (\<lambda>s. (Ok x, s)) n s = (Ok (replicate n x), s)"
  by (induction n) simp_all

lemma unwrap_simps [simp]: "unwrap (Inr x) = Ok x" "unwrap (Inl e) = Panic"
  by (simp_all add: unwrap_def)

lemma b_iter_step:
  "routine s = (Ok x, s') \<Longrightarrow> fst (b_iter routine n s') = Ok xs \<Longrightarrow> fst (b_iter routine (Suc n) s) = Ok (x # xs)"
  by (cases "b_iter routine n s'") simp

lemma b_iter_creation:
  "\<exists>css. fst (b_iter (creation_routine ids now elements) n drawn) = Ok css
     \<and> length css = n \<and> (\<forall>cs \<in> set css. length cs = elements)"
proof (induction n arbitrary: drawn)
  case (Suc n)
  obtain css where css: "fst (b_iter (creation_routine ids now elements) n (drawn + elements)) = Ok css"
      "length css = n" "\<forall>cs \<in> set css. length cs = elements"
    using Suc by blast
  obtain cs where cs: "creation_routine ids now elements drawn = (Ok cs, drawn + elements)" "length cs = elements"
    by (simp add: creation_routine_def)
  show ?case
    using b_iter_step [OF cs(1) css(1)] css(2,3) cs(2) by (intro exI [of _ "cs # css"]) auto
qed simp

lemma b_iter_record:
  "unat (sm_offset m) + n < 2 ^ 64 \<Longrightarrow>
   fst (b_iter (record_routine ids now) n (i, m)) = Ok [unat (sm_offset m) ..< unat (sm_offset m) + n]"
proof (induction n arbitrary: i m)
  case (Suc n)
  let ?m = "snd (record_change m (bench_recorded ids now ''key'' i))" and ?k = "unat (sm_offset m)"
  have r: "record_routine ids now (i, m) = (Ok ?k, i + 1, ?m)"
    by (simp add: record_routine_def record_change_def Let_def)
  have "unat (sm_offset ?m) = ?k + 1"
    using Suc.prems by (simp add: unat_add_lem [THEN iffD1])
  then have "fst (b_iter (record_routine ids now) n (i + 1, ?m)) = Ok [?k + 1 ..< ?k + 1 + n]"
    using Suc.IH [of ?m "i + 1"] Suc.prems by simp
  from b_iter_step [OF r this] show ?case
    by (metis Suc_eq_plus1 add_Suc_right add_Suc_shift le_add1 less_Suc_eq_le upt_conv_Cons)
qed simp

text \<open>
  The benchmarks measure what they are called: a creation of size \<open>s\<close> builds
  \<open>s\<close> changes in every iteration; where \<open>bincode\<close> writes the change and
  reads it back the coding benchmarks never panic and decode the change encoded; recording returns
  the offsets from 0 on; reading from offset 50 returns 50 of the 100 changes; and the compression
  benchmark compresses.
\<close>

theorem benchmarks_measure:
  assumes "ser (bench_encoded_change new_id now) = Inr bs" "de bs = Inr (bench_encoded_change new_id now)" "n < 2 ^ 64"
  shows "(\<forall>b \<in> set (bench_change_creation ids now).
            \<exists>css. bm_run b n = Ok css \<and> length css = n \<and> (\<forall>cs \<in> set css. Some (length cs) = bm_parameter b))
     \<and> map (\<lambda>b. bm_run b n) (bench_change_encoding ser de new_id now)
         = [Ok (replicate n (CodedBytes bs)), Ok (replicate n (CodedChange (bench_encoded_change new_id now)))]
     \<and> map (\<lambda>b. bm_run b n) (bench_sync_manager ids now) = [Ok [0..<n], Ok (replicate n 50), Ok (replicate n 0)]
     \<and> map (\<lambda>b. bm_run b n) (bench_compression zc) = [Ok (replicate n (compress zc (replicate (1024 * 10) 0) compression_config_default))]"
proof (intro conjI ballI)
  fix b assume "b \<in> set (bench_change_creation ids now)"
  then obtain elements where b: "bm_parameter b = Some elements" "bm_run b n = fst (b_iter (creation_routine ids now elements) n 0)"
    by (auto simp: bench_change_creation_def)
  then show "\<exists>css. bm_run b n = Ok css \<and> length css = n \<and> (\<forall>cs \<in> set css. Some (length cs) = bm_parameter b)"
    using b_iter_creation [of ids now elements n 0] by auto
next
  let ?cs = "map (\<lambda>i. bench_recorded ids now (''key-'' @ show_nat i) i) [0..<100]"
  have "represents (populated ids now :: nat sync_manager) ?cs"
    using sync_log.repr_appends [OF represents_new, of ?cs 10000] by (simp add: populated_def del: upt_rec_numeral)
  moreover have "sm_max_changes (populated ids now :: nat sync_manager) = 10000"
    unfolding populated_def by (simp only: sync_log.cap_appends) (simp add: sync_manager_new_def)
  ultimately have "length (get_changes_since (populated ids now :: nat sync_manager) 50) = 50"
    using since_represents [of "populated ids now :: nat sync_manager" ?cs 50] by (simp add: last_n_def)
  then show "map (\<lambda>b. bm_run b n) (bench_sync_manager ids now) = [Ok [0..<n], Ok (replicate n 50), Ok (replicate n 0)]"
    using b_iter_record [of "sync_manager_new 10000 :: nat sync_manager" n ids now 0] assms(3)
    by (simp add: bench_sync_manager_def plain_benchmark_def b_iter_constant sync_manager_new_def)
qed (use assms in \<open>simp_all add: bench_change_encoding_def bench_compression_def plain_benchmark_def b_iter_constant Let_def\<close>)

theorem benchmarks_measure_witness:
  "map (\<lambda>b. bm_run b 2) (bench_sync_manager (\<lambda>i. of_nat i) 0) = [Ok [0, 1], Ok [50, 50], Ok [0, 0]]"
proof -
  have "map (\<lambda>b. bm_run b 2) (bench_sync_manager (\<lambda>i. of_nat i) 0) = [Ok [0..<2], Ok (replicate 2 50), Ok (replicate 2 0)]"
    by (rule benchmarks_measure [of "\<lambda>c. Inr [1]" 1 0 "[1]" "\<lambda>bs. Inr (bench_encoded_change 1 0)" 2 "\<lambda>i. of_nat i" "\<lambda>d l. d",
          THEN conjunct2, THEN conjunct2, THEN conjunct1]) simp_all
  moreover have "[0..<2] = [0, 1 :: nat]" and "replicate 2 x = [x, x]" for x :: nat
    by (simp_all add: numeral_2_eq_2)
  ultimately show ?thesis by (simp only:)
qed

end
