(* ===== verification/Example_Programs.thy ===== *)
theory Example_Programs
  imports Hook Notify
begin

section \<open>The example programs (\<open>examples/sync.rs\<close>)\<close>

text \<open>
  The four examples drive a runner from outside, so they compose the hook queue, the replicator, its
  discovery and its lifecycle. A program is a function on the state of the process; at every await the
  background tasks of the crate may move, as a schedule says. A program ends with a value, with an
  error, or hangs in an await that never ends.
\<close>

subsection \<open>Programs\<close>

datatype bg_op = BgForward | BgSubscribe | BgExit

record ('id, 'addr, 'ep, 'ch) example_env =
  xe_channel :: "nat \<Rightarrow> 'ch"
  xe_try_send :: "'ch change_send"
  xe_built :: "'ep result"
  xe_ep_id :: "'ep \<Rightarrow> 'id"
  xe_to_json :: "('id, 'addr) ticket_data \<Rightarrow> string + bytes"
  xe_from_json :: "bytes \<Rightarrow> string + ('id, 'addr) ticket_data"
  xe_lib :: "'id proto_lib"
  xe_id_text :: "'id \<Rightarrow> string"
  xe_conns :: "'addr \<Rightarrow> 'id \<times> link"
  xe_new_id :: "nat \<Rightarrow> uuid"
  xe_now :: int
  xe_background :: "nat \<Rightarrow> bg_op list" \<comment> \<open>what the tasks do during the n-th await\<close>

datatype 'id out_line = NodeId 'id | TicketLine string | EventLine "'id change_event" | StreamEnded | TimeoutReached | Usage string

datatype example_error = CrateError error | Message string

datatype 'a example_end = Value 'a | Failed example_error | Crashed | Hangs

record ('id, 'addr, 'ep, 'ch, 'w) process =
  pr_runner :: "('id, 'addr, 'ep, 'ch, 'w) replicator_runner"
  pr_world :: 'w
  pr_out :: "'id out_line list"
  pr_awaits :: nat

type_synonym ('id, 'addr, 'ep, 'ch, 'w, 'a) program =
  "('id, 'addr, 'ep, 'ch, 'w) process \<Rightarrow> 'a example_end \<times> ('id, 'addr, 'ep, 'ch, 'w) process"

definition and_next ::
  "('id, 'addr, 'ep, 'ch, 'w, 'a) program \<Rightarrow> ('a \<Rightarrow> ('id, 'addr, 'ep, 'ch, 'w, 'b) program)
     \<Rightarrow> ('id, 'addr, 'ep, 'ch, 'w, 'b) program" where
  "and_next p q s =
     (case p s of
        (Value x, s') \<Rightarrow> q x s'
      | (Failed e, s') \<Rightarrow> (Failed e, s')
      | (Crashed, s') \<Rightarrow> (Crashed, s')
      | (Hangs, s') \<Rightarrow> (Hangs, s'))"

fun bg_step ::
  "('id, 'addr, 'ep, 'ch) example_env \<Rightarrow> ('id, 'addr, 'ep, 'ch, 'w) process \<Rightarrow> bg_op
     \<Rightarrow> ('id, 'addr, 'ep, 'ch, 'w) process" where
  "bg_step env s BgForward =
     (case runner_forward (xe_try_send env) (pr_runner s, pr_world s) of
        (r, w) \<Rightarrow> s\<lparr>pr_runner := r, pr_world := w\<rparr>)"
| "bg_step env s BgSubscribe =
     s\<lparr>pr_runner := (pr_runner s)\<lparr>rr_replicator := loop_subscribe (rr_replicator (pr_runner s))\<rparr>\<rparr>"
| "bg_step env s BgExit =
     s\<lparr>pr_runner := (pr_runner s)\<lparr>rr_replicator := loop_exit (rr_replicator (pr_runner s))\<rparr>\<rparr>"

definition await ::
  "('id, 'addr, 'ep, 'ch) example_env \<Rightarrow> ('id, 'addr, 'ep, 'ch, 'w, unit) program" where
  "await env s =
     (Value (), foldl (bg_step env) (s\<lparr>pr_awaits := pr_awaits s + 1\<rparr>) (xe_background env (pr_awaits s)))"

text \<open>A call of the runner with \<open>?\<close>, and one whose outcome is dropped.\<close>

definition call_runner ::
  "(('id, 'addr, 'ep, 'ch, 'w) replicator_runner \<Rightarrow> 'a result \<times> ('id, 'addr, 'ep, 'ch, 'w) replicator_runner)
     \<Rightarrow> ('id, 'addr, 'ep, 'ch, 'w, 'a) program" where
  "call_runner f s =
     (case f (pr_runner s) of
        (r, rr) \<Rightarrow>
          ((case r of Ok x \<Rightarrow> Value x | Err e \<Rightarrow> Failed (CrateError e) | Panic \<Rightarrow> Crashed), s\<lparr>pr_runner := rr\<rparr>))"

definition call_ignored ::
  "(('id, 'addr, 'ep, 'ch, 'w) replicator_runner \<Rightarrow> 'a result \<times> ('id, 'addr, 'ep, 'ch, 'w) replicator_runner)
     \<Rightarrow> ('id, 'addr, 'ep, 'ch, 'w, unit) program" where
  "call_ignored f s =
     (case f (pr_runner s) of (r, rr) \<Rightarrow> (if r = Panic then Crashed else Value (), s\<lparr>pr_runner := rr\<rparr>))"

definition update_runner ::
  "(('id, 'addr, 'ep, 'ch, 'w) replicator_runner \<Rightarrow> ('id, 'addr, 'ep, 'ch, 'w) replicator_runner)
     \<Rightarrow> ('id, 'addr, 'ep, 'ch, 'w, unit) program" where
  "update_runner f s = (Value (), s\<lparr>pr_runner := f (pr_runner s)\<rparr>)"

definition print :: "'id out_line \<Rightarrow> ('id, 'addr, 'ep, 'ch, 'w, unit) program" where
  "print l s = (Value (), s\<lparr>pr_out := pr_out s @ [l]\<rparr>)"

text \<open>Waiting for the handle of the main loop ends when the loop has ended.\<close>

definition await_handle ::
  "('id, 'addr, 'ep, 'ch) example_env \<Rightarrow> ('id, 'addr, 'ep, 'ch, 'w, unit) program" where
  "await_handle env =
     and_next (await env) (\<lambda>_ s. (if rp_loop (rr_replicator (pr_runner s)) = LoopNone then Value () else Hangs, s))"

definition process_start ::
  "('id, 'addr, 'ep, 'ch) example_env \<Rightarrow> 'w \<Rightarrow> ('id, 'addr, 'ep, 'ch, 'w) process" where
  "process_start env w =
     \<lparr>pr_runner = runner_new (xe_channel env) default_config, pr_world = w, pr_out = [], pr_awaits = 0\<rparr>"

abbreviation start_and_wait where
  "start_and_wait env \<equiv> and_next (call_runner (runner_start (xe_built env))) (\<lambda>_. await env)"

abbreviation shutdown_and_wait where
  "shutdown_and_wait env \<equiv> and_next (call_runner runner_shutdown) (\<lambda>_. await env)"

subsection \<open>The examples\<close>

definition sample_change :: "('id, 'addr, 'ep, 'ch) example_env \<Rightarrow> nat \<Rightarrow> string \<Rightarrow> string \<Rightarrow> change" where
  "sample_change env n k v =
     change_set (xe_new_id env n) (xe_now env) ''my_namespace'' ''my_database'' (as_bytes k) (as_bytes v)"

definition run_basic_example ::
  "('id, 'addr, 'ep, 'ch) example_env \<Rightarrow> ('id, 'addr, 'ep, 'ch, 'w, unit) program" where
  "run_basic_example env =
     and_next (start_and_wait env) (\<lambda>_ s.
       case runner_endpoint_id (xe_ep_id env) (pr_runner s) of
         None \<Rightarrow> (Failed (Message ''No endpoint ID''), s)
       | Some endpoint_id \<Rightarrow>
           and_next (call_runner (\<lambda>r. (runner_generate_ticket (xe_ep_id env) (xe_to_json env) r, r))) (\<lambda>ticket.
           and_next (await env) (\<lambda>_.
           and_next (print (NodeId endpoint_id)) (\<lambda>_.
           and_next (print (TicketLine ticket)) (\<lambda>_.
           and_next (update_runner (runner_record_change (sample_change env 0 ''key1'' ''value1''))) (\<lambda>_.
           and_next (update_runner (runner_record_change (sample_change env 1 ''key2'' ''value2''))) (\<lambda>_.
           and_next (await env) (\<lambda>_.
           and_next (shutdown_and_wait env) (\<lambda>_.
           await_handle env)))))))) s)"

definition run_connect_example ::
  "('id, 'addr, 'ep, 'ch) example_env \<Rightarrow> string \<Rightarrow> ('id, 'addr, 'ep, 'ch, 'w, unit) program" where
  "run_connect_example env ticket =
     and_next (start_and_wait env) (\<lambda>_.
     and_next (call_ignored (runner_connect_ticket (xe_lib env) (xe_from_json env) (xe_id_text env) (xe_conns env) ticket)) (\<lambda>_.
     and_next (await env) (\<lambda>_.
     and_next (await env) (\<lambda>_.
     and_next (shutdown_and_wait env) (\<lambda>_.
     await_handle env)))))"

text \<open>
  The observer prints the events its channel yields, at most as many as the time allows, and ends
  with the channel or with the time. \<open>recv\<close> gives None where the receiver waits.
\<close>

fun observe :: "('rx \<Rightarrow> ((string + 'id change_event) \<times> 'rx) option) \<Rightarrow> nat \<Rightarrow> 'rx \<Rightarrow> 'id out_line list" where
  "observe recv 0 rx = [TimeoutReached]"
| "observe recv (Suc n) rx =
     (case recv rx of
        None \<Rightarrow> [TimeoutReached]
      | Some (Inl _, rx') \<Rightarrow> [StreamEnded]
      | Some (Inr event, rx') \<Rightarrow> EventLine event # observe recv n rx')"

definition run_observer_example ::
  "('id, 'addr, 'ep, 'ch) example_env \<Rightarrow> (nat \<Rightarrow> ('tx \<times> 'rx) option)
     \<Rightarrow> ('rx \<Rightarrow> ((string + 'id change_event) \<times> 'rx) option) \<Rightarrow> nat
     \<Rightarrow> ('id, 'addr, 'ep, 'ch, 'w, unit) program" where
  "run_observer_example env channel recv events_in_time =
     and_next (start_and_wait env) (\<lambda>_ s.
       case subscribe channel filter_everything (notifier_new 100) of
         (Ok subscription, notifier) \<Rightarrow>
           and_next (await env) (\<lambda>_.
           and_next (\<lambda>s. (Value (), s\<lparr>pr_out := pr_out s @ observe recv events_in_time (sp_rx subscription)\<rparr>)) (\<lambda>_.
           shutdown_and_wait env)) s
       | _ \<Rightarrow> (Crashed, s))"

text \<open>The hook of the example counts the changes it sees.\<close>

definition my_storage_hook :: "('id, u64) storage_hook" where
  "my_storage_hook = \<lparr>on_change = (\<lambda>c n. n + 1), on_sync_request = (\<lambda>p n. n), on_sync_complete = (\<lambda>p k n. n)\<rparr>"

definition run_custom_observer_example ::
  "('id, 'addr, 'ep, 'ch) example_env \<Rightarrow> ('id, 'addr, 'ep, 'ch, u64, unit) program" where
  "run_custom_observer_example env =
     and_next (start_and_wait env) (\<lambda>_.
     and_next (update_runner (register_hook my_storage_hook)) (\<lambda>_.
     and_next (update_runner (runner_record_change
       (change_set (xe_new_id env 0) (xe_now env) ''ns'' ''db'' (as_bytes ''test-key'') (as_bytes ''test-value'')))) (\<lambda>_.
     and_next (await env) (\<lambda>_.
     shutdown_and_wait env))))"

definition usage_lines :: "string list" where
  "usage_lines =
     [''P2P Replication Example'', ''========================='', [], ''Usage:'',
      ''  sync                    - Start as a peer (generates ticket)'',
      ''  sync connect <ticket>   - Connect to a peer'',
      ''  sync observe            - Observe sync events'',
      ''  sync observer           - Use custom observer'', [],
      ''Run two instances:'', ''  Terminal 1: ./sync'',
      ''  Terminal 2: ./sync connect <ticket from terminal 1>'', []]"

definition example_main ::
  "('id, 'addr, 'ep, 'ch) example_env \<Rightarrow> (nat \<Rightarrow> ('tx \<times> 'rx) option)
     \<Rightarrow> ('rx \<Rightarrow> ((string + 'id change_event) \<times> 'rx) option) \<Rightarrow> nat \<Rightarrow> string list
     \<Rightarrow> ('id, 'addr, 'ep, 'ch, u64, unit) program" where
  "example_main env channel recv events_in_time args s =
     (let arg = (\<lambda>i. if i < length args then Some (args ! i) else None)
      in if arg 1 = Some ''connect'' then
           (case arg 2 of
              None \<Rightarrow> (Failed (Message ''Usage: sync connect <ticket>''), s)
            | Some ticket \<Rightarrow> run_connect_example env ticket s)
         else if arg 1 = Some ''observe'' then run_observer_example env channel recv events_in_time s
         else if arg 1 = Some ''observer'' then run_custom_observer_example env s
         else run_basic_example env (s\<lparr>pr_out := pr_out s @ map Usage usage_lines\<rparr>))"

subsection \<open>What a program keeps\<close>

definition keeps :: "(('id, 'addr, 'ep, 'ch, 'w) process \<Rightarrow> bool) \<Rightarrow> ('id, 'addr, 'ep, 'ch, 'w, 'a) program \<Rightarrow> bool" where
  "keeps P p \<longleftrightarrow> (\<forall>s. P s \<longrightarrow> P (snd (p s)))"

lemma keeps_and_next: "keeps P p \<Longrightarrow> (\<And>x. keeps P (q x)) \<Longrightarrow> keeps P (and_next p q)"
  unfolding keeps_def and_next_def by (auto split: prod.split example_end.split)

lemma keeps_await: "(\<And>s op. P s \<Longrightarrow> P (bg_step env s op)) \<Longrightarrow> (\<And>s n. P s \<Longrightarrow> P (s\<lparr>pr_awaits := n\<rparr>)) \<Longrightarrow> keeps P (await env)"
proof -
  assume step: "\<And>s op. P s \<Longrightarrow> P (bg_step env s op)" and awaits: "\<And>s n. P s \<Longrightarrow> P (s\<lparr>pr_awaits := n\<rparr>)"
  have "P (foldl (bg_step env) s ops)" if "P s" for s ops
    using that by (induction ops arbitrary: s) (simp_all add: step)
  then show ?thesis using awaits by (simp add: keeps_def await_def)
qed

text \<open>The replicator has the sync manager it was made with, and its channel is the closed one.\<close>

definition shares_nothing ::
  "('id, 'addr, 'ep, 'ch) example_env \<Rightarrow> ('id, 'addr, 'ep, 'ch, 'w) process \<Rightarrow> bool" where
  "shares_nothing env s \<longleftrightarrow>
     rp_sync_manager (rr_replicator (pr_runner s)) = sync_manager_new 10000
     \<and> rp_change_tx (rr_replicator (pr_runner s)) = xe_channel env 1000"

definition channel_closed :: "('id, 'addr, 'ep, 'ch) example_env \<Rightarrow> bool" where
  "channel_closed env \<longleftrightarrow> (\<forall>c. xe_try_send env (xe_channel env 1000) c = (False, xe_channel env 1000))"

lemma bg_step_shares_nothing:
  "channel_closed env \<Longrightarrow> shares_nothing env s \<Longrightarrow> shares_nothing env (bg_step env s op)"
  by (cases op)
     (auto simp: shares_nothing_def channel_closed_def runner_forward_def replicator_record_change_def
        loop_subscribe_def loop_exit_def split: list.split)

lemma start_shares_nothing: "shares_nothing env (process_start env w)"
  by (simp add: shares_nothing_def process_start_def runner_new_def replicator_new_def)

lemma keeps_shares_nothing:
  "channel_closed env \<Longrightarrow> keeps (shares_nothing env) (await env)"
  "keeps (shares_nothing env) (call_runner (runner_start built))"
  "keeps (shares_nothing env) (call_runner runner_shutdown)"
  "keeps (shares_nothing env) (call_runner (\<lambda>r. (x r, r)))"
  "keeps (shares_nothing env) (update_runner (runner_record_change c))"
  "keeps (shares_nothing env) (update_runner (register_hook h))"
  "keeps (shares_nothing env) (print l)"
proof -
  show "keeps (shares_nothing env) (await env)" if "channel_closed env"
    using that by (intro keeps_await) (simp_all add: bg_step_shares_nothing, simp add: shares_nothing_def)
  show "keeps (shares_nothing env) (call_runner (runner_start built))"
    by (auto simp: keeps_def shares_nothing_def call_runner_def runner_start_def split_beta start_frame)
  show "keeps (shares_nothing env) (call_runner runner_shutdown)"
    by (auto simp: keeps_def shares_nothing_def call_runner_def runner_shutdown_def split_beta shutdown_frame)
qed (simp_all add: keeps_def shares_nothing_def call_runner_def update_runner_def print_def
       runner_record_change_def register_hook_def)

lemma keeps_end: "keeps P (\<lambda>s. (e s, s))"
  by (simp add: keeps_def)

lemma keeps_option:
  "(\<And>x. keeps P (q x)) \<Longrightarrow> keeps P p \<Longrightarrow> keeps P (\<lambda>s. case f s of None \<Rightarrow> p s | Some x \<Rightarrow> q x s)"
  by (auto simp: keeps_def split: option.split)

lemma basic_keeps:
  assumes "channel_closed env"
  shows "keeps (shares_nothing env) (run_basic_example env)"
  unfolding run_basic_example_def await_handle_def
  by (intro keeps_and_next keeps_option keeps_end keeps_shares_nothing assms)

subsection \<open>How the basic example ends\<close>

text \<open>What the background does to the main loop, and what it leaves alone while no signal is out.\<close>

fun loop_bg :: "run_loop \<Rightarrow> bg_op \<Rightarrow> run_loop" where
  "loop_bg l BgForward = l"
| "loop_bg l BgSubscribe = (if l = LoopSpawned then LoopWaiting else l)"
| "loop_bg l BgExit = (if l = LoopSignalled then LoopNone else l)"

abbreviation the_replicator :: "('id, 'addr, 'ep, 'ch, 'w) process \<Rightarrow> ('id, 'addr, 'ep, 'ch) replicator" where
  "the_replicator s \<equiv> rr_replicator (pr_runner s)"

lemma bg_step_loop:
  "rp_loop (the_replicator (bg_step env s op)) = loop_bg (rp_loop (the_replicator s)) op"
  "pr_out (bg_step env s op) = pr_out s" "pr_awaits (bg_step env s op) = pr_awaits s"
  "rp_loop (the_replicator s) \<noteq> LoopSignalled \<Longrightarrow>
     rp_endpoint (the_replicator (bg_step env s op)) = rp_endpoint (the_replicator s)
     \<and> rp_running (the_replicator (bg_step env s op)) = rp_running (the_replicator s)"
  "rp_discovery (the_replicator (bg_step env s op)) = rp_discovery (the_replicator s)"
  by (cases op; auto simp: runner_forward_def replicator_record_change_def loop_subscribe_def loop_exit_def
        split: list.split)+

lemma bg_run_loop:
  "rp_loop (the_replicator (foldl (bg_step env) s ops)) = foldl loop_bg (rp_loop (the_replicator s)) ops"
  "pr_out (foldl (bg_step env) s ops) = pr_out s" "pr_awaits (foldl (bg_step env) s ops) = pr_awaits s"
  "rp_discovery (the_replicator (foldl (bg_step env) s ops)) = rp_discovery (the_replicator s)"
  by (induction ops arbitrary: s) (simp_all add: bg_step_loop)

lemma loop_bg_unsignalled: "l \<in> {LoopSpawned, LoopWaiting} \<Longrightarrow> loop_bg l op \<in> {LoopSpawned, LoopWaiting}"
  by (cases op) auto

lemma bg_run_fields:
  "rp_loop (the_replicator s) \<in> {LoopSpawned, LoopWaiting} \<Longrightarrow>
     rp_endpoint (the_replicator (foldl (bg_step env) s ops)) = rp_endpoint (the_replicator s)
     \<and> rp_running (the_replicator (foldl (bg_step env) s ops)) = rp_running (the_replicator s)"
proof (induction ops arbitrary: s)
  case (Cons op ops)
  have "rp_loop (the_replicator s) \<noteq> LoopSignalled" using Cons.prems by auto
  moreover have "rp_loop (the_replicator (bg_step env s op)) \<in> {LoopSpawned, LoopWaiting}"
    unfolding bg_step_loop(1) by (rule loop_bg_unsignalled [OF Cons.prems])
  ultimately show ?case using Cons.IH [of "bg_step env s op"] bg_step_loop(4) [of s env op] by simp
qed simp

lemma loop_bg_run:
  "foldl loop_bg LoopSpawned ops = (if BgSubscribe \<in> set ops then LoopWaiting else LoopSpawned)"
  "foldl loop_bg LoopWaiting ops = LoopWaiting"
  "foldl loop_bg LoopSignalled ops = (if BgExit \<in> set ops then LoopNone else LoopSignalled)"
  "foldl loop_bg LoopNone ops = LoopNone"
proof -
  show waiting: "foldl loop_bg LoopWaiting ops = LoopWaiting" for ops
  proof (induction ops)
    case (Cons op ops)
    then show ?case by (cases op) simp_all
  qed simp
  show none: "foldl loop_bg LoopNone ops = LoopNone" for ops
  proof (induction ops)
    case (Cons op ops)
    then show ?case by (cases op) simp_all
  qed simp
  show "foldl loop_bg LoopSpawned ops = (if BgSubscribe \<in> set ops then LoopWaiting else LoopSpawned)"
  proof (induction ops)
    case (Cons op ops)
    then show ?case by (cases op) (simp_all add: waiting)
  qed simp
  show "foldl loop_bg LoopSignalled ops = (if BgExit \<in> set ops then LoopNone else LoopSignalled)"
  proof (induction ops)
    case (Cons op ops)
    then show ?case by (cases op) (simp_all add: none)
  qed simp
qed
text \<open>A started replicator whose loop has not been signalled, after \<open>n\<close> awaits.\<close>

definition up ::
  "'ep \<Rightarrow> nat \<Rightarrow> run_loop \<Rightarrow> 'id out_line list \<Rightarrow> ('id, 'addr, 'ep, 'ch, 'w) process \<Rightarrow> bool" where
  "up ep n l out s \<longleftrightarrow>
     rp_loop (the_replicator s) = l \<and> l \<in> {LoopSpawned, LoopWaiting} \<and> rp_endpoint (the_replicator s) = Some ep
     \<and> rp_running (the_replicator s) \<and> rp_discovery (the_replicator s) \<noteq> None
     \<and> pr_out s = out \<and> pr_awaits s = n"

definition awaited ::
  "('id, 'addr, 'ep, 'ch) example_env \<Rightarrow> ('id, 'addr, 'ep, 'ch, 'w) process \<Rightarrow> ('id, 'addr, 'ep, 'ch, 'w) process" where
  "awaited env s = snd (await env s)"

lemma await_value: "await env s = (Value (), awaited env s)"
  by (simp add: awaited_def await_def)

lemma and_next_simps [simp]:
  "p s = (Value x, s') \<Longrightarrow> and_next p q s = q x s'"
  "p s = (Failed e, s') \<Longrightarrow> and_next p q s = (Failed e, s')"
  by (simp_all add: and_next_def)

lemma loop_bg_run_unsignalled:
  "l \<in> {LoopSpawned, LoopWaiting} \<Longrightarrow> foldl loop_bg l ops \<in> {LoopSpawned, LoopWaiting}"
  by (auto simp: loop_bg_run)

lemma up_awaited:
  assumes "up ep n l out s"
  shows "up ep (n + 1) (foldl loop_bg l (xe_background env n)) out (awaited env s)"
  using assms bg_run_fields [of "s\<lparr>pr_awaits := n + 1\<rparr>" env "xe_background env n"]
    loop_bg_run_unsignalled [of l "xe_background env n"]
  by (simp add: up_def awaited_def await_def bg_run_loop)

lemma up_print: "up ep n l out s \<Longrightarrow> up ep n l (out @ [x]) (s\<lparr>pr_out := pr_out s @ [x]\<rparr>)"
  by (simp add: up_def)

lemma up_record: "up ep n l out s \<Longrightarrow> up ep n l out (s\<lparr>pr_runner := runner_record_change c (pr_runner s)\<rparr>)"
  by (simp add: up_def runner_record_change_def)

lemma up_started:
  assumes "xe_built env = Ok ep"
  obtains s where "call_runner (runner_start (xe_built env)) (process_start env w) = (Value (), s)"
    and "up ep 0 LoopSpawned [] s"
  using assms
  by (auto simp: call_runner_def runner_start_def replicator_start_def process_start_def runner_new_def
      replicator_new_def discovery_new_def up_def)

lemma up_shutdown:
  assumes "up ep n l out s"
  obtains s' where "call_runner runner_shutdown s = (Value (), s')"
    and "rp_loop (the_replicator s') = signal_loop l" "pr_out s' = out" "pr_awaits s' = n"
  using assms by (auto simp: call_runner_def runner_shutdown_def replicator_shutdown_def up_def)

lemma awaited_fields:
  "rp_loop (the_replicator (awaited env s)) = foldl loop_bg (rp_loop (the_replicator s)) (xe_background env (pr_awaits s))"
  "pr_out (awaited env s) = pr_out s" "pr_awaits (awaited env s) = pr_awaits s + 1"
  by (simp_all add: awaited_def await_def bg_run_loop)

text \<open>After the signal: the shutdown, what follows it, and the wait for the handle.\<close>

lemma shutdown_and_handle:
  assumes "up ep n l out s"
  shows "fst (and_next (shutdown_and_wait env) (\<lambda>_. await_handle env) s) =
      (if l = LoopWaiting \<and> BgExit \<in> set (xe_background env n @ xe_background env (n + 1)) then Value () else Hangs)
     \<and> pr_out (snd (and_next (shutdown_and_wait env) (\<lambda>_. await_handle env) s)) = out"
proof -
  obtain s' where s': "call_runner runner_shutdown s = (Value (), s')"
    and loop: "rp_loop (the_replicator s') = signal_loop l" and out: "pr_out s' = out" and n: "pr_awaits s' = n"
    using up_shutdown [OF assms] .
  have "l = LoopSpawned \<or> l = LoopWaiting" using assms by (auto simp: up_def)
  then show ?thesis
    using s' by (auto simp: await_handle_def and_next_def await_value awaited_fields loop out n signal_loop_def loop_bg_run split: if_splits)
qed

text \<open>A concrete environment: the channel is closed, the endpoint is bound, and the schedule is given.\<close>

definition quiet_env :: "(nat \<Rightarrow> bg_op list) \<Rightarrow> (u8, nat, u8, unit) example_env" where
  "quiet_env background = \<lparr>xe_channel = (\<lambda>n. ()), xe_try_send = (\<lambda>ch c. (False, ch)), xe_built = Ok 7, xe_ep_id = id,
     xe_to_json = (\<lambda>td. Inr [td_endpoint_id td]), xe_from_json = (\<lambda>bs. Inl ''json''), xe_lib = keepalive_lib,
     xe_id_text = (\<lambda>i. ''id''), xe_conns = (\<lambda>a. (9, perfect_link [])), xe_new_id = of_nat, xe_now = 0,
     xe_background = background\<rparr>"

lemma quiet_env_simps [simp]:
  "xe_built (quiet_env b) = Ok 7" "xe_ep_id (quiet_env b) = id" "xe_background (quiet_env b) = b"
  by (simp_all add: quiet_env_def)

lemma quiet_env_ticket:
  "generate_ticket (xe_to_json (quiet_env b)) (xe_ep_id (quiet_env b) 7) [] = Ok (base64_url_encode [7])"
  by (simp only: quiet_env_def generate_ticket_def example_env.simps id_apply ticket_data.simps of_result.simps
      map_err.simps and_then.simps)

subsection \<open>Properties\<close>

text \<open>
  The basic example prints its identity and its ticket, and then ends only if the main loop had
  subscribed to the shutdown signal by the time it was sent and takes it: otherwise the example
  hangs in the wait for the handle, since a signal sent before the subscription is lost.
\<close>

theorem basic_example_ends:
  assumes "xe_built env = Ok ep" and "generate_ticket (xe_to_json env) (xe_ep_id env ep) [] = Ok t"
  shows "fst (run_basic_example env (process_start env w)) =
      (if BgSubscribe \<in> set (xe_background env 0 @ xe_background env 1 @ xe_background env 2)
          \<and> BgExit \<in> set (xe_background env 3 @ xe_background env 4) then Value () else Hangs)
     \<and> pr_out (snd (run_basic_example env (process_start env w))) = [NodeId (xe_ep_id env ep), TicketLine t]"
proof -
  obtain s0 where s0: "call_runner (runner_start (xe_built env)) (process_start env w) = (Value (), s0)"
    and up0: "up ep 0 LoopSpawned [] s0"
    using up_started [OF assms(1)] .
  define s1 where "s1 = awaited env s0"
  note up1 = up_awaited [OF up0, of env, folded s1_def]
  have ticket: "call_runner (\<lambda>r. (runner_generate_ticket (xe_ep_id env) (xe_to_json env) r, r)) s1 = (Value t, s1)"
    and endpoint: "runner_endpoint_id (xe_ep_id env) (pr_runner s1) = Some (xe_ep_id env ep)"
    using up1 assms(2)
    by (auto simp: up_def call_runner_def runner_generate_ticket_def replicator_generate_ticket_def
        runner_endpoint_id_def replicator_endpoint_id_def)
  define s2 where "s2 = awaited env s1"
  note up2 = up_awaited [OF up1, of env, folded s2_def]
  note up3 = up_print [OF up_print [OF up2, of "NodeId (xe_ep_id env ep)"], of "TicketLine t"]
  note up4 = up_record [OF up_record [OF up3, of "sample_change env 0 ''key1'' ''value1''"],
      of "sample_change env 1 ''key2'' ''value2''"]
  note up5 = up_awaited [OF up4, of env]
  have run: "run_basic_example env (process_start env w) =
      and_next (shutdown_and_wait env) (\<lambda>_. await_handle env)
        (awaited env (snd (update_runner (runner_record_change (sample_change env 1 ''key2'' ''value2''))
           (snd (update_runner (runner_record_change (sample_change env 0 ''key1'' ''value1''))
              (snd (print (TicketLine t) (snd (print (NodeId (xe_ep_id env ep)) s2)))))))))"
    unfolding run_basic_example_def
    using s0 ticket endpoint by (simp add: await_value update_runner_def print_def flip: s1_def s2_def)
  show ?thesis
    unfolding run
    using shutdown_and_handle [OF up5, of env]
    by (simp add: update_runner_def print_def loop_bg_run numeral_2_eq_2 numeral_3_eq_3 numeral_eq_Suc)
qed
theorem basic_example_ends_witness:
  "fst (run_basic_example (quiet_env (\<lambda>n. [])) (process_start (quiet_env (\<lambda>n. [])) ())) = Hangs
   \<and> fst (run_basic_example (quiet_env (\<lambda>n. if n = 0 then [BgSubscribe] else [BgExit]))
        (process_start (quiet_env (\<lambda>n. if n = 0 then [BgSubscribe] else [BgExit])) ())) = Value ()"
proof -
  note ends = basic_example_ends [OF quiet_env_simps(1) quiet_env_ticket, THEN conjunct1, unfolded quiet_env_simps]
  show ?thesis by (simp only: ends) simp
qed

text \<open>
  What an example records goes nowhere: at whatever point the basic example ends, the sync
  manager of its replicator is as it was made, with an empty log, so a peer that connects is
  offered nothing.
\<close>

theorem basic_example_shares_nothing:
  assumes "channel_closed env"
  shows "rp_sync_manager (the_replicator (snd (run_basic_example env (process_start env w)))) = sync_manager_new 10000"
  using basic_keeps [OF assms] start_shares_nothing [of env w] unfolding keeps_def shares_nothing_def by blast

theorem basic_example_shares_nothing_witness:
  "channel_closed (quiet_env (\<lambda>n. [BgForward]))
   \<and> rp_sync_manager (the_replicator (snd (run_basic_example (quiet_env (\<lambda>n. [BgForward]))
        (process_start (quiet_env (\<lambda>n. [BgForward])) ())))) = sync_manager_new 10000"
proof -
  have "channel_closed (quiet_env (\<lambda>n. [BgForward]))" by (simp add: channel_closed_def quiet_env_def)
  from conjI [OF this basic_example_shares_nothing [OF this]] show ?thesis .
qed

subsection \<open>The hook of the custom observer\<close>

abbreviation queued where
  "queued s \<equiv> rr_queue (pr_runner s)"

abbreviation hooks_of where
  "hooks_of s \<equiv> rr_hooks (pr_runner s)"

lemma bg_step_hooks: "hooks_of (bg_step env s op) = hooks_of s"
  by (cases op) (auto simp: runner_forward_def split: list.split)

lemma bg_step_idle:
  "queued s = [] \<Longrightarrow> queued (bg_step env s op) = [] \<and> pr_world (bg_step env s op) = pr_world s"
  by (cases op) (simp_all add: runner_forward_def)

lemma bg_step_queued:
  "queued s = [c] \<Longrightarrow> queued (bg_step env s op) = (if op = BgForward then [] else [c])
     \<and> pr_world (bg_step env s op) = (if op = BgForward then notify_hooks (hooks_of s) c (pr_world s) else pr_world s)"
  by (cases op) (simp_all add: runner_forward_def)

lemma bg_run_hooks: "hooks_of (foldl (bg_step env) s ops) = hooks_of s"
  by (induction ops arbitrary: s) (simp_all add: bg_step_hooks)

lemma bg_run_idle:
  "queued s = [] \<Longrightarrow> queued (foldl (bg_step env) s ops) = [] \<and> pr_world (foldl (bg_step env) s ops) = pr_world s"
  by (induction ops arbitrary: s) (simp_all add: bg_step_idle)

lemma bg_run_queued:
  "queued s = [c] \<Longrightarrow> queued (foldl (bg_step env) s ops) = (if BgForward \<in> set ops then [] else [c])
     \<and> pr_world (foldl (bg_step env) s ops) =
        (if BgForward \<in> set ops then notify_hooks (hooks_of s) c (pr_world s) else pr_world s)"
proof (induction ops arbitrary: s)
  case (Cons op ops)
  show ?case
  proof (cases "op = BgForward")
    case True
    then show ?thesis using bg_step_queued [OF Cons.prems, of env op] by (simp add: bg_run_idle)
  next
    case False
    then show ?thesis
      using bg_step_queued [OF Cons.prems, of env op] Cons.IH [of "bg_step env s op"] by (auto simp: bg_step_hooks)
  qed
qed simp

lemma awaited_idle:
  "queued s = [] \<Longrightarrow> queued (awaited env s) = [] \<and> pr_world (awaited env s) = pr_world s"
  by (simp add: awaited_def await_def bg_run_idle)

lemma awaited_hooks: "hooks_of (awaited env s) = hooks_of s"
  by (simp add: awaited_def await_def bg_run_hooks)

lemma awaited_queued:
  "queued s = [c] \<Longrightarrow> queued (awaited env s) = (if BgForward \<in> set (xe_background env (pr_awaits s)) then [] else [c])
     \<and> pr_world (awaited env s) =
        (if BgForward \<in> set (xe_background env (pr_awaits s)) then notify_hooks (hooks_of s) c (pr_world s) else pr_world s)"
  by (simp add: awaited_def await_def bg_run_queued)

text \<open>
  The hook of the custom observer example sees the one change exactly once if the forwarding
  task runs before the program ends, and never otherwise; the program ends with a value in
  every schedule, since it does not wait for the main loop.
\<close>

theorem custom_observer_counts:
  assumes "xe_built env = Ok ep"
  shows "fst (run_custom_observer_example env (process_start env n)) = Value ()
     \<and> pr_world (snd (run_custom_observer_example env (process_start env n))) =
       (if BgForward \<in> set (xe_background env 1 @ xe_background env 2) then n + 1 else n)"
proof -
  obtain s0 where s0: "call_runner (runner_start (xe_built env)) (process_start env n) = (Value (), s0)"
    and quiet: "queued s0 = []" "hooks_of s0 = []" "pr_world s0 = n" "pr_awaits s0 = 0"
    using assms by (auto simp: call_runner_def runner_start_def replicator_start_def process_start_def runner_new_def
      replicator_new_def discovery_new_def)
  define s1 where "s1 = awaited env s0"
  have s1: "queued s1 = []" "hooks_of s1 = []" "pr_world s1 = n" "pr_awaits s1 = 1"
    using quiet awaited_idle [of s0 env] by (simp_all add: s1_def awaited_hooks awaited_fields)
  define c where "c = change_set (xe_new_id env 0) (xe_now env) ''ns'' ''db'' (as_bytes ''test-key'') (as_bytes ''test-value'')"
  define s2 where "s2 = s1\<lparr>pr_runner := runner_record_change c (register_hook my_storage_hook (pr_runner s1))\<rparr>"
  have s2: "queued s2 = [c]" "hooks_of s2 = [my_storage_hook]" "pr_world s2 = n" "pr_awaits s2 = 1"
    using s1 by (simp_all add: s2_def runner_record_change_def register_hook_def RUNNER_CAPACITY_def)
  define s3 where "s3 = awaited env s2"
  have s3: "queued s3 = (if BgForward \<in> set (xe_background env 1) then [] else [c])"
      "hooks_of s3 = [my_storage_hook]" "pr_awaits s3 = 2"
      "pr_world s3 = (if BgForward \<in> set (xe_background env 1) then n + 1 else n)"
    using s2 awaited_queued [OF s2(1), of env]
    by (simp_all add: s3_def awaited_hooks awaited_fields notify_hooks_def my_storage_hook_def)
  obtain s4 where shut: "call_runner runner_shutdown s3 = (Value (), s4)"
    and s4: "queued s4 = queued s3" "hooks_of s4 = hooks_of s3" "pr_awaits s4 = 2" "pr_world s4 = pr_world s3"
    using s3(3)
    by (cases "rp_running (the_replicator s3)") (auto simp: call_runner_def runner_shutdown_def replicator_shutdown_def)
  have run: "run_custom_observer_example env (process_start env n) = (Value (), awaited env s4)"
    unfolding run_custom_observer_example_def
    using s0 shut by (simp add: await_value update_runner_def s1_def s2_def s3_def c_def)
  show ?thesis
  proof (cases "BgForward \<in> set (xe_background env 1)")
    case True
    then show ?thesis using awaited_idle [of s4 env] s3 s4 by (simp add: run)
  next
    case False
    then show ?thesis
      using awaited_queued [of s4 c env] s3 s4 by (simp add: run notify_hooks_def my_storage_hook_def)
  qed
qed

theorem custom_observer_counts_witness:
  "pr_world (snd (run_custom_observer_example (quiet_env (\<lambda>n. [BgForward])) (process_start (quiet_env (\<lambda>n. [BgForward])) 0))) = 1"
  by (simp only: custom_observer_counts [OF quiet_env_simps(1), THEN conjunct2]) simp

end
