(* ===== verification/Unit_Tests.thy ===== *)
theory Unit_Tests
  imports Compress Hook Notify Pool Reputation Retry Telemetry_Setup
begin

section \<open>The unit tests of the pure modules\<close>

text \<open>
  The tests of the crate, run on the model: a test is the conjunction of its assertions over the
  steps it makes, false where an \<open>unwrap\<close> fails, and a lemma says that the model
  passes it. The clock, the fresh identifiers and the cases a property test draws are arguments.
  The tests of the log, the batcher and the snapshot are in \<open>Log_Tests\<close>, those of the
  file store in \<open>Store_Tests\<close>.
\<close>

subsection \<open>Common helpers\<close>

text \<open>\<open>unwrap\<close> in a test: an error fails the test.\<close>

definition unwrapped :: "('e, 'a) outcome \<Rightarrow> ('a \<Rightarrow> bool) \<Rightarrow> bool" where
  "unwrapped r k \<longleftrightarrow> (case r of Ok x \<Rightarrow> k x | _ \<Rightarrow> False)"

lemma unwrapped_Ok [simp]: "unwrapped (Ok x) k = k x"
  by (simp add: unwrapped_def)

lemma unwrapped_if: "r = Ok x \<Longrightarrow> k x \<Longrightarrow> unwrapped r k"
  by simp

fun is_err :: "('e, 'a) outcome \<Rightarrow> bool" where
  "is_err (Ok x) = False"
| "is_err (Err e) = True"
| "is_err Panic = False"

definition change_of :: "(nat \<Rightarrow> uuid) \<Rightarrow> int \<Rightarrow> nat \<Rightarrow> string \<Rightarrow> string \<Rightarrow> string \<Rightarrow> string \<Rightarrow> change" where
  "change_of ids now n ns db k v = change_set (ids n) now ns db (as_bytes k) (as_bytes v)"

lemma change_of_simps [simp]:
  "ch_id (change_of ids now n ns db k v) = ids n" "ch_namespace (change_of ids now n ns db k v) = ns"
  "ch_database (change_of ids now n ns db k v) = db" "ch_operation (change_of ids now n ns db k v) = OpSet"
  "ch_key (change_of ids now n ns db k v) = Some (as_bytes k)"
  "ch_value (change_of ids now n ns db k v) = Some (as_bytes v)"
  by (simp_all add: change_of_def change_set_def)

subsection \<open>\<open>common.rs\<close>\<close>

definition test_base64_url_roundtrip :: bool where
  "test_base64_url_roundtrip \<longleftrightarrow>
     (let original = as_bytes ''Hello, World! This is a test.''; encoded = base64_url_encode original
      in unwrapped (base64_url_decode encoded) (\<lambda>decoded. original = decoded))"

definition test_base64_url_no_padding :: bool where
  "test_base64_url_no_padding \<longleftrightarrow> CHR ''='' \<notin> set (base64_url_encode (as_bytes ''test''))"

definition test_base64_url_decode_invalid_char :: bool where
  "test_base64_url_decode_invalid_char \<longleftrightarrow> is_err (base64_url_decode ''invalid!!!'')"

definition test_base64_url_decode_empty :: bool where
  "test_base64_url_decode_empty \<longleftrightarrow> unwrapped (base64_url_decode []) (\<lambda>result. result = [])"

definition test_current_timestamp_nanos :: "int \<Rightarrow> bool" where
  "test_current_timestamp_nanos now \<longleftrightarrow> 0 < current_timestamp_nanos now"

definition test_current_timestamp_secs :: "int \<Rightarrow> bool" where
  "test_current_timestamp_secs now \<longleftrightarrow> 0 < current_timestamp_secs now"

lemma decode_invalid:
  "b \<in> set (as_bytes s) \<Longrightarrow> \<not> in_alphabet b \<Longrightarrow> base64_url_decode s = Err ''invalid base64 character''"
  unfolding base64_url_decode_def by (rule decode_loop_errors(2)) blast

lemma not_in_alphabet: "\<not> in_alphabet 33" "\<not> in_alphabet 61"
  by (simp_all add: in_alphabet_def alphabet_def as_bytes_def)

lemma encoded_in_alphabet: "b \<in> set (as_bytes (base64_url_encode bs)) \<Longrightarrow> in_alphabet b"
  by (auto simp: base64_url_encode_def intro: encode_chunk_in_alphabet)

lemma common_tests_pass:
  "test_base64_url_roundtrip" "test_base64_url_no_padding" "test_base64_url_decode_invalid_char"
  "test_base64_url_decode_empty"
proof -
  show test_base64_url_roundtrip by (simp add: test_base64_url_roundtrip_def base64_decode_encode)
  show test_base64_url_decode_empty by (simp add: test_base64_url_decode_empty_def base64_url_decode_def as_bytes_def)
  have "33 \<in> set (as_bytes ''invalid!!!'')" by (simp add: as_bytes_def)
  then show test_base64_url_decode_invalid_char
    by (simp add: test_base64_url_decode_invalid_char_def decode_invalid [OF _ not_in_alphabet(1)])
  have "61 \<in> set (as_bytes s)" if "CHR ''='' \<in> set s" for s
    using that by (force simp: as_bytes_def)
  then show test_base64_url_no_padding
    unfolding test_base64_url_no_padding_def using encoded_in_alphabet not_in_alphabet(2) by blast
qed

text \<open>The clock reads a time after the epoch, in 64 bits of nanoseconds.\<close>

lemma clock_tests_pass:
  assumes "10 ^ 9 \<le> now" "now < 2 ^ 64"
  shows "test_current_timestamp_nanos now" "test_current_timestamp_secs now"
proof -
  have "0 < (of_int k :: u64)" if "0 < k" "k < 2 ^ 64" for k :: int
    using that by (simp add: word_less_def uint_word_of_int take_bit_int_eq_self)
  from this [of now] this [of "now div 10 ^ 9"] assms
  show "test_current_timestamp_nanos now" "test_current_timestamp_secs now"
    by (auto simp: test_current_timestamp_nanos_def test_current_timestamp_secs_def current_timestamp_nanos_def
        current_timestamp_secs_def)
qed

subsection \<open>\<open>change.rs\<close>\<close>

text \<open>A message sent through the codec and read back, as the tests do it.\<close>

definition recoded :: "json_printer \<Rightarrow> json_parser \<Rightarrow> sync_message \<Rightarrow> (sync_message \<Rightarrow> bool) \<Rightarrow> bool" where
  "recoded to_json from_json msg k \<longleftrightarrow>
     unwrapped (encode_message to_json msg) (\<lambda>encoded. unwrapped (decode_message from_json encoded) k)"

definition test_change_encoding :: "json_printer \<Rightarrow> json_parser \<Rightarrow> bool" where
  "test_change_encoding to_json from_json \<longleftrightarrow>
     (let msg = Request 0 None; encoded = encode_message to_json msg
      in is_ok encoded \<and> unwrapped encoded (\<lambda>bytes.
           let decoded = decode_message from_json bytes
           in is_ok decoded \<and> unwrapped decoded (\<lambda>m. case m of Request off _ \<Rightarrow> off = 0 | _ \<Rightarrow> False)))"

definition test_change_batch :: "(nat \<Rightarrow> uuid) \<Rightarrow> int \<Rightarrow> bool" where
  "test_change_batch ids now \<longleftrightarrow>
     (let batch = change_batch_new 0
        [change_of ids now 0 ''ns'' ''db'' ''key1'' ''value1'', change_of ids now 1 ''ns'' ''db'' ''key2'' ''value2'']
      in change_batch_len batch = 2)"

text \<open>
  The strategies of the property tests: the values they draw from, and one draw per case. The
  third alternative for a message maps its number to \<open>Pong\<close>.
\<close>

definition arbitrary_operations :: "change_operation list" where
  "arbitrary_operations = [OpQuery, OpSet, OpDelete, OpCommit, OpSchema, OpAuth, OpLiveNotify]"

definition arbitrary_message :: "nat \<Rightarrow> u64 \<Rightarrow> nat option \<Rightarrow> sync_message" where
  "arbitrary_message alternative n limit =
     (if alternative = 0 then Ping else if alternative = 1 then Pong else if alternative = 2 then Pong
      else if alternative = 3 then Request n limit else Ack n)"

text \<open>\<open>debug\<close> is the derived formatting, whose text the tests compare.\<close>

definition test_sync_message_encode_decode_roundtrip ::
  "json_printer \<Rightarrow> json_parser \<Rightarrow> (sync_message \<Rightarrow> string) \<Rightarrow> u64 list \<Rightarrow> u64 list \<Rightarrow> bool" where
  "test_sync_message_encode_decode_roundtrip to_json from_json debug requests acks \<longleftrightarrow>
     (\<forall>n \<in> set requests. let msg = Request n None in recoded to_json from_json msg (\<lambda>decoded. debug msg = debug decoded))
     \<and> (\<forall>n \<in> set acks. let msg = Ack n in recoded to_json from_json msg (\<lambda>decoded. debug msg = debug decoded))
     \<and> (\<forall>msg \<in> {Ping, Pong}. recoded to_json from_json msg (\<lambda>decoded. debug msg = debug decoded))"

definition test_change_operation_serialization ::
  "(change_operation \<Rightarrow> string + string) \<Rightarrow> (string \<Rightarrow> string + change_operation) \<Rightarrow> nat list \<Rightarrow> bool" where
  "test_change_operation_serialization to_json from_json cases \<longleftrightarrow>
     (\<forall>i \<in> set cases. let op = arbitrary_operations ! (i mod 7)
        in unwrapped (of_result (to_json op)) (\<lambda>json. unwrapped (of_result (from_json json)) (\<lambda>back. op = back)))"

definition test_batch_len_consistency :: bool where
  "test_batch_len_consistency \<longleftrightarrow>
     (let batch = change_batch_new 0 []
      in change_batch_is_empty batch = change_batch_is_empty batch
         \<and> (\<not> change_batch_is_empty batch) = (\<not> change_batch_is_empty batch))"

definition test_batch_clone_preserves_data :: "(nat \<Rightarrow> uuid) \<Rightarrow> int \<Rightarrow> (u64 \<times> bool \<times> nat) list \<Rightarrow> bool" where
  "test_batch_clone_preserves_data ids now cases \<longleftrightarrow>
     (\<forall>(off, final, len) \<in> set cases.
        let changes = map (\<lambda>i. change_query (ids i) now ''namespace'' ''database'' None) [0..<min len 100];
            batch = (change_batch_new off changes)\<lparr>cb_is_final := final\<rparr>;
            cloned = batch
        in cb_offset cloned = cb_offset batch \<and> cb_is_final cloned = cb_is_final batch
           \<and> length (cb_changes cloned) = length (cb_changes batch))"

definition test_batch_offset_preserved :: "u64 list \<Rightarrow> bool" where
  "test_batch_offset_preserved cases \<longleftrightarrow> (\<forall>off \<in> set cases. cb_offset (change_batch_new off []) = off)"

text \<open>The clock is read a hundred times; each reading is at least the one before.\<close>

fun timestamps_monotonic :: "u64 \<Rightarrow> int list \<Rightarrow> bool" where
  "timestamps_monotonic prev [] \<longleftrightarrow> True"
| "timestamps_monotonic prev (now # nows) \<longleftrightarrow>
     (let ts = current_timestamp_nanos now in prev \<le> ts \<and> timestamps_monotonic ts nows)"

definition test_timestamp_monotonic :: "(nat \<Rightarrow> int) \<Rightarrow> bool" where
  "test_timestamp_monotonic clock \<longleftrightarrow> timestamps_monotonic 0 (map clock [0..<100])"

fun ids_fresh :: "uuid set \<Rightarrow> change list \<Rightarrow> bool" where
  "ids_fresh seen [] \<longleftrightarrow> True"
| "ids_fresh seen (c # cs) \<longleftrightarrow> ch_id c \<notin> seen \<and> ids_fresh (insert (ch_id c) seen) cs"

definition test_change_ids_are_unique :: "(nat \<Rightarrow> uuid) \<Rightarrow> int \<Rightarrow> bool" where
  "test_change_ids_are_unique ids now \<longleftrightarrow>
     ids_fresh {} (map (\<lambda>i. change_query (ids i) now ''ns'' ''db'' None) [0..<100])"

definition test_all_sync_message_variants :: "json_printer \<Rightarrow> json_parser \<Rightarrow> (nat \<Rightarrow> uuid) \<Rightarrow> int \<Rightarrow> bool" where
  "test_all_sync_message_variants to_json from_json ids now \<longleftrightarrow>
     recoded to_json from_json Ping (\<lambda>decoded. decoded = Ping)
     \<and> recoded to_json from_json Pong (\<lambda>decoded. decoded = Pong)
     \<and> recoded to_json from_json (Request 42 (Some 100))
         (\<lambda>decoded. case decoded of Request off limit \<Rightarrow> off = 42 \<and> limit = Some 100 | _ \<Rightarrow> False)
     \<and> recoded to_json from_json (Response (change_batch_new 10 [change_of ids now 0 ''ns'' ''db'' ''k'' ''v'']))
         (\<lambda>decoded. case decoded of Response batch \<Rightarrow> cb_offset batch = 10 \<and> length (cb_changes batch) = 1
            | _ \<Rightarrow> False)"

definition test_large_batch_handling :: "json_printer \<Rightarrow> json_parser \<Rightarrow> (nat \<Rightarrow> uuid) \<Rightarrow> int \<Rightarrow> bool" where
  "test_large_batch_handling to_json from_json ids now \<longleftrightarrow>
     (let changes = map (\<lambda>i. change_query (ids i) now ''ns'' ''db'' None) [0..<1000];
          batch = change_batch_new 0 changes
      in change_batch_len batch = 1000 \<and> \<not> change_batch_is_empty batch
         \<and> recoded to_json from_json (Response batch)
             (\<lambda>decoded. case decoded of Response b \<Rightarrow> length (cb_changes b) = 1000 | _ \<Rightarrow> False))"

definition test_empty_batch :: "json_printer \<Rightarrow> json_parser \<Rightarrow> bool" where
  "test_empty_batch to_json from_json \<longleftrightarrow>
     (let batch = change_batch_new 0 []
      in change_batch_is_empty batch \<and> change_batch_len batch = 0
         \<and> recoded to_json from_json (Response batch)
             (\<lambda>decoded. case decoded of Response b \<Rightarrow> change_batch_is_empty b \<and> length (cb_changes b) = 0 | _ \<Rightarrow> False))"

definition test_batch_with_final :: "json_printer \<Rightarrow> json_parser \<Rightarrow> bool" where
  "test_batch_with_final to_json from_json \<longleftrightarrow>
     (let batch = change_batch_with_final (change_batch_new 0 [])
      in cb_is_final batch
         \<and> recoded to_json from_json (Response batch)
             (\<lambda>decoded. case decoded of Response b \<Rightarrow> cb_is_final b | _ \<Rightarrow> False))"

definition test_encode_decode_preserves_semantics ::
  "json_printer \<Rightarrow> json_parser \<Rightarrow> (sync_message \<Rightarrow> string) \<Rightarrow> (nat \<times> u64 \<times> nat option) list \<Rightarrow> bool" where
  "test_encode_decode_preserves_semantics to_json from_json debug cases \<longleftrightarrow>
     (\<forall>(i, n, limit) \<in> set cases. let msg = arbitrary_message i n limit
        in recoded to_json from_json msg (\<lambda>decoded.
             case (msg, decoded) of
               (Request o1 l1, Request o2 l2) \<Rightarrow> o1 = o2 \<and> l1 = l2
             | (Ack o1, Ack o2) \<Rightarrow> o1 = o2
             | _ \<Rightarrow> debug msg = debug decoded))"

lemma recoded_if: "json_faithful to_json from_json msg \<Longrightarrow> k msg \<Longrightarrow> recoded to_json from_json msg k"
  using json_faithful_codec [of to_json from_json msg] by (auto simp: recoded_def)

lemma codec_tests_pass:
  assumes faithful: "\<And>msg. json_faithful to_json from_json msg"
  shows "test_change_encoding to_json from_json"
    "test_sync_message_encode_decode_roundtrip to_json from_json debug requests acks"
    "test_all_sync_message_variants to_json from_json ids now"
    "test_large_batch_handling to_json from_json ids now"
    "test_empty_batch to_json from_json"
    "test_batch_with_final to_json from_json"
    "test_encode_decode_preserves_semantics to_json from_json debug cases"
proof -
  note recoded = recoded_if [OF faithful]
  have same: "case msg of Request o1 l1 \<Rightarrow> (case msg of Request o2 l2 \<Rightarrow> o1 = o2 \<and> l1 = l2 | _ \<Rightarrow> debug msg = debug msg)
      | Ack o1 \<Rightarrow> (case msg of Ack o2 \<Rightarrow> o1 = o2 | _ \<Rightarrow> debug msg = debug msg) | _ \<Rightarrow> debug msg = debug msg" for msg
    by (cases msg) simp_all
  show "test_change_encoding to_json from_json"
    using json_faithful_codec [OF faithful [of "Request 0 None"]] by (auto simp: test_change_encoding_def)
  show "test_sync_message_encode_decode_roundtrip to_json from_json debug requests acks"
    by (simp add: test_sync_message_encode_decode_roundtrip_def recoded)
  show "test_all_sync_message_variants to_json from_json ids now"
    by (simp add: test_all_sync_message_variants_def recoded change_batch_new_def)
  show "test_large_batch_handling to_json from_json ids now"
    by (simp add: test_large_batch_handling_def recoded change_batch_new_def change_batch_len_def
        change_batch_is_empty_def Let_def)
  show "test_empty_batch to_json from_json"
    by (simp add: test_empty_batch_def recoded change_batch_new_def change_batch_len_def change_batch_is_empty_def)
  show "test_batch_with_final to_json from_json"
    by (simp add: test_batch_with_final_def recoded change_batch_with_final_def)
  show "test_encode_decode_preserves_semantics to_json from_json debug cases"
    unfolding test_encode_decode_preserves_semantics_def
    by (intro ballI) (simp only: split_paired_all prod.case Let_def, rule recoded, rule same)
qed

lemma operation_test_passes:
  "(\<And>op. \<exists>s. to_json op = Inr s \<and> from_json s = Inr op) \<Longrightarrow> test_change_operation_serialization to_json from_json cases"
  unfolding test_change_operation_serialization_def Let_def
proof
  fix i
  assume "\<And>op. \<exists>s. to_json op = Inr s \<and> from_json s = Inr op"
  then obtain s where "to_json (arbitrary_operations ! (i mod 7)) = Inr s" "from_json s = Inr (arbitrary_operations ! (i mod 7))"
    by blast
  then show "unwrapped (of_result (to_json (arbitrary_operations ! (i mod 7))))
      (\<lambda>json. unwrapped (of_result (from_json json)) (\<lambda>back. arbitrary_operations ! (i mod 7) = back))"
    by simp
qed

lemma change_tests_pass:
  "test_change_batch ids now" "test_batch_len_consistency" "test_batch_clone_preserves_data ids now clones"
  "test_batch_offset_preserved offsets"
  by (simp_all add: test_change_batch_def test_batch_len_consistency_def test_batch_clone_preserves_data_def
      test_batch_offset_preserved_def change_batch_new_def change_batch_len_def split_beta)

lemma timestamps_monotonic_if:
  "sorted nows \<Longrightarrow> (\<forall>now \<in> set nows. 0 \<le> now \<and> now < 2 ^ 64) \<Longrightarrow> (nows \<noteq> [] \<Longrightarrow> prev \<le> of_int (hd nows)) \<Longrightarrow>
     timestamps_monotonic prev nows"
proof (induction nows arbitrary: prev)
  case (Cons now nows)
  have "(of_int now :: u64) \<le> of_int (hd nows)" if "nows \<noteq> []"
    using Cons.prems(1,2) that
    by (cases nows) (auto simp: word_le_def uint_word_of_int take_bit_int_eq_self)
  then show ?case using Cons by (simp add: current_timestamp_nanos_def Let_def)
qed simp

lemma ids_fresh_iff: "ids_fresh seen cs \<longleftrightarrow> distinct (map ch_id cs) \<and> seen \<inter> ch_id ` set cs = {}"
  by (induction cs arbitrary: seen) auto

lemma queries_fresh:
  "inj_on ids {..<n} \<Longrightarrow> ids_fresh {} (map (\<lambda>i. change_query (ids i) now ns db tbl) [0..<n])"
  by (simp add: ids_fresh_iff change_query_def comp_def distinct_map atLeast0LessThan)

lemma readings_monotonic:
  "mono clock \<Longrightarrow> (\<And>i. 0 \<le> clock i \<and> clock i < 2 ^ 64) \<Longrightarrow> timestamps_monotonic 0 (map clock [0..<n])"
  by (intro timestamps_monotonic_if) (auto simp: sorted_map mono_def intro: sorted_wrt_mono_rel [OF _ sorted_upt])

text \<open>What the two remaining tests rely on: the clock does not go back, and the identifiers differ.\<close>

lemma clock_and_id_tests_pass:
  "mono clock \<Longrightarrow> (\<And>i. 0 \<le> clock i \<and> clock i < 2 ^ 64) \<Longrightarrow> test_timestamp_monotonic clock"
  "inj_on ids {..<100} \<Longrightarrow> test_change_ids_are_unique ids now"
  unfolding test_timestamp_monotonic_def test_change_ids_are_unique_def
  by (erule readings_monotonic, blast) (rule queries_fresh)

subsection \<open>\<open>compress.rs\<close>\<close>

text \<open>\<open>compressor\<close> is \<open>compress\<close> of the build, with or without the feature.\<close>

definition test_compression_config_default :: bool where
  "test_compression_config_default \<longleftrightarrow>
     (let config = compression_config_default
      in cc_enabled config \<and> cc_level config = 3 \<and> cc_min_size config = 64)"

definition test_compression_disabled :: "(bytes \<Rightarrow> compression_config \<Rightarrow> compressed_data) \<Rightarrow> bool" where
  "test_compression_disabled compressor \<longleftrightarrow>
     (let config = compression_with_enabled False compression_config_default;
          data = as_bytes ''hello world this is some data to compress'';
          result = compressor data config
      in \<not> cd_compressed result \<and> cd_data result = data)"

definition test_compression_small_data :: "(bytes \<Rightarrow> compression_config \<Rightarrow> compressed_data) \<Rightarrow> bool" where
  "test_compression_small_data compressor \<longleftrightarrow>
     (let config = compression_with_min_size 1024 compression_config_default;
          result = compressor (as_bytes ''short'') config
      in \<not> cd_compressed result)"

definition test_compression_roundtrip :: "zstd_compress \<Rightarrow> zstd_decompress \<Rightarrow> bool" where
  "test_compression_roundtrip zc zd \<longleftrightarrow>
     (let config = compression_config_default;
          data = as_bytes ''This is a much longer piece of data that should compress well because it has repetition and patternssss'';
          encoded = encode_compressed zc data config
      in unwrapped (decode_compressed zd encoded) (\<lambda>decoded. decoded = data))"

lemma compress_tests_pass:
  "test_compression_config_default"
  "test_compression_disabled (compress zc)" "test_compression_disabled compress_off"
  "test_compression_small_data (compress zc)" "test_compression_small_data compress_off"
  by (simp_all add: test_compression_config_default_def test_compression_disabled_def test_compression_small_data_def
      compress_def compress_off_def compression_config_default_def compression_with_enabled_def
      compression_with_min_size_def Let_def as_bytes_def)

lemma compression_small_roundtrip:
  assumes "length data < 2 ^ 32" "zd (zc data (cc_level config)) (length data) = Inr (length data, data)"
  shows "decode_compressed zd (encode_compressed zc data config) = Ok data"
  using assms
  by (auto simp: encode_compressed_def compress_def decode_compressed_def decompress_def Let_def unat_of_nat_u32)

lemma compression_roundtrip_test_passes:
  assumes "\<And>data level. zd (zc data level) (length data) = Inr (length data, data)"
  shows "test_compression_roundtrip zc zd"
proof -
  have "decode_compressed zd (encode_compressed zc data config) = Ok data" if "length data < 2 ^ 32" for data config
    using that assms by (rule compression_small_roundtrip)
  then show ?thesis by (simp add: test_compression_roundtrip_def as_bytes_def)
qed

subsection \<open>\<open>discovery.rs\<close>\<close>

definition test_discovery_manager_creation :: bool where
  "test_discovery_manager_creation \<longleftrightarrow>
     is_ok (discovery_new default_config :: (nat, nat) discovery_manager result)"

definition test_ticket_roundtrip :: bool where
  \<open>test_ticket_roundtrip \<longleftrightarrow>
     (let json = ''{"endpoint_id":"test","addresses":[]}''; bytes = as_bytes json; encoded = base64_url_encode bytes
      in unwrapped (base64_url_decode encoded) (\<lambda>decoded. utf8_valid decoded \<and> json = of_bytes decoded))\<close>

text \<open>The peer is made at \<open>made\<close> and recorded at \<open>now\<close>.\<close>

definition test_record_peer :: "'id \<Rightarrow> nat \<Rightarrow> nat \<Rightarrow> bool" where
  "test_record_peer pid made now \<longleftrightarrow>
     unwrapped (discovery_new (default_config :: nat replicator_config)) (\<lambda>discovery.
       let peer = \<lparr>dp_endpoint_id = pid, dp_addresses = [], dp_discovery_method = Manual, dp_discovered_at = made,
             dp_name = Some ''test-peer'', dp_last_connected = None\<rparr>;
           peers = known_peers (record_peer now peer discovery)
       in length peers = 1 \<and> dp_endpoint_id (peers ! 0) = dp_endpoint_id peer)"

definition test_discovery_method_display :: bool where
  "test_discovery_method_display \<longleftrightarrow>
     method_as_upper Dns = ''DNS'' \<and> method_as_upper Mdns = ''mDNS'' \<and> method_as_upper Manual = ''Manual''
     \<and> method_as_upper Relay = ''Relay''"

definition test_parse_invalid_ticket :: "(bytes \<Rightarrow> string + ('id, 'addr) ticket_data) \<Rightarrow> bool" where
  "test_parse_invalid_ticket from_json \<longleftrightarrow>
     is_err (parse_ticket from_json ''invalid-base64!!!'') \<and> is_err (parse_ticket from_json ''bm90LWpzb24='')"

definition test_ticket_with_addresses ::
  "(('id, 'addr) ticket_data \<Rightarrow> string + bytes) \<Rightarrow> (bytes \<Rightarrow> string + ('id, 'addr) ticket_data) \<Rightarrow> 'id \<Rightarrow> bool" where
  "test_ticket_with_addresses to_json from_json pid \<longleftrightarrow>
     unwrapped (discovery_new (default_config :: 'addr replicator_config) :: ('id, 'addr) discovery_manager result) (\<lambda>discovery.
       unwrapped (generate_ticket to_json pid []) (\<lambda>ticket.
         unwrapped (parse_ticket from_json ticket) (\<lambda>(decoded_id, _). decoded_id = pid)))"

text \<open>
  The second ticket of \<open>test_parse_invalid_ticket\<close> is meant to be valid base64 of
  something that is not JSON. It ends with the padding character, which the decoder refuses, so
  the parser of the JSON is not reached: both tickets fail the same way, whatever the parser does.
\<close>

lemma parse_ticket_padded:
  "b \<in> set (as_bytes ticket) \<Longrightarrow> \<not> in_alphabet b \<Longrightarrow>
     parse_ticket from_json ticket = Err (InvalidTicket ''invalid base64 character'')"
  by (simp add: parse_ticket_def decode_invalid)

lemma invalid_ticket_test_stops_at_base64:
  "parse_ticket from_json ''bm90LWpzb24='' = Err (InvalidTicket ''invalid base64 character'')"
  "parse_ticket from_json ''invalid-base64!!!'' = Err (InvalidTicket ''invalid base64 character'')"
proof -
  have "61 \<in> set (as_bytes ''bm90LWpzb24='')" "33 \<in> set (as_bytes ''invalid-base64!!!'')" by (simp_all add: as_bytes_def)
  note parse_ticket_padded [OF this(1) not_in_alphabet(2)] parse_ticket_padded [OF this(2) not_in_alphabet(1)]
  then show "parse_ticket from_json ''bm90LWpzb24='' = Err (InvalidTicket ''invalid base64 character'')"
    "parse_ticket from_json ''invalid-base64!!!'' = Err (InvalidTicket ''invalid base64 character'')" by this
qed

lemma discovery_tests_pass:
  "test_discovery_manager_creation" "test_ticket_roundtrip" "test_discovery_method_display"
  "test_parse_invalid_ticket from_json"
  "now - made < PEER_MAX_AGE \<Longrightarrow> test_record_peer pid made now"
  "ticket_faithful to_json from_json' \<lparr>td_endpoint_id = pid, td_addresses = []\<rparr> \<Longrightarrow>
     test_ticket_with_addresses to_json from_json' pid"
proof -
  show test_discovery_manager_creation by (simp add: test_discovery_manager_creation_def discovery_new_def)
  have ascii: "unwrapped (base64_url_decode (base64_url_encode (as_bytes s))) (\<lambda>d. utf8_valid d \<and> s = of_bytes d)"
    if "utf8_valid (as_bytes s)" for s
    using that by (simp add: base64_decode_encode)
  show test_ticket_roundtrip unfolding test_ticket_roundtrip_def Let_def by (rule ascii) (simp add: as_bytes_def)
  show test_discovery_method_display by (simp add: test_discovery_method_display_def method_as_upper_def)
  show "test_parse_invalid_ticket from_json"
    by (simp add: test_parse_invalid_ticket_def invalid_ticket_test_stops_at_base64)
  show "test_record_peer pid made now" if "now - made < PEER_MAX_AGE"
    using that by (simp add: test_record_peer_def discovery_new_def record_peer_def known_peers_def peer_is_valid_def)
  show "test_ticket_with_addresses to_json from_json' pid"
    if "ticket_faithful to_json from_json' \<lparr>td_endpoint_id = pid, td_addresses = []\<rparr>"
    using that by (auto simp: test_ticket_with_addresses_def discovery_new_def ticket_faithful_def generate_ticket_def
        parse_ticket_def base64_decode_encode)
qed

subsection \<open>\<open>hook.rs\<close> and \<open>replicator.rs\<close>\<close>

definition test_storage_hook_trait :: bool where
  "test_storage_hook_trait \<longleftrightarrow>
     (let test_hook = \<lparr>on_change = (\<lambda>c w. w), on_sync_request = (\<lambda>p w. w), on_sync_complete = (\<lambda>p n w. w)\<rparr>
      in on_change test_hook = (\<lambda>c (w :: unit). w) \<and> on_sync_request test_hook = (\<lambda>(p :: nat) w. w))"

definition test_sync_context :: "(nat \<Rightarrow> 'ch) \<Rightarrow> bool" where
  "test_sync_context closed_channel \<longleftrightarrow>
     (let runner = (runner_new closed_channel (default_config :: nat replicator_config)
            :: (nat, nat, unit, 'ch, unit) replicator_runner)
      in rr_hooks runner = [])"

text \<open>\<open>Replicator::new\<close> has no failing branch; what is recorded goes to its channel only.\<close>

definition test_record_change :: "'ch change_send \<Rightarrow> (nat \<Rightarrow> 'ch) \<Rightarrow> (nat \<Rightarrow> uuid) \<Rightarrow> int \<Rightarrow> bool" where
  "test_record_change try_send closed_channel ids now \<longleftrightarrow>
     (let replicator = (replicator_new closed_channel default_config :: (nat, nat, unit, 'ch) replicator);
          recorded = replicator_record_change try_send (change_of ids now 0 ''ns'' ''db'' ''key'' ''value'') replicator
      in rp_sync_manager recorded = rp_sync_manager replicator)"

lemma hook_tests_pass:
  "test_storage_hook_trait" "test_sync_context closed_channel" "test_record_change try_send closed_channel ids now"
  by (simp_all add: test_storage_hook_trait_def test_sync_context_def runner_new_def test_record_change_def
      replicator_record_change_def Let_def)

subsection \<open>\<open>notify.rs\<close>\<close>

text \<open>
  The receiving end of a broadcast channel: \<open>recv\<close> gives what the receiver gets from
  the channel of a sender, and None where it waits. A test that would wait fails.
\<close>

type_synonym ('tx, 'rx, 'e) broadcast_recv = "'tx \<Rightarrow> 'rx \<Rightarrow> ((string + 'e) \<times> 'rx) option"

definition recv_event ::
  "('tx, 'rx, 'e) broadcast_recv \<Rightarrow> 'tx notifier \<Rightarrow> 'rx subscription \<Rightarrow> ('e option \<times> 'rx subscription) option" where
  "recv_event recv n sub =
     (case fmlookup (nf_subscribers n) (sp_id sub) of
        None \<Rightarrow> Some (None, sub)
      | Some sb \<Rightarrow> map_option (\<lambda>got. subscription_recv (\<lambda>_. got) sub) (recv (sb_sender sb) (sp_rx sub)))"

text \<open>
  \<open>tokio\<close>'s broadcast channel, as far as the tests go: a new channel is empty, a send
  is kept in order, and a receiver that has not fallen behind its capacity gets the events one by
  one.
\<close>

definition broadcast_channel ::
  "(nat \<Rightarrow> ('tx \<times> 'rx) option) \<Rightarrow> ('tx \<Rightarrow> 'e \<Rightarrow> bool \<times> 'tx) \<Rightarrow> ('tx, 'rx, 'e) broadcast_recv
     \<Rightarrow> ('tx \<Rightarrow> 'e list) \<Rightarrow> ('rx \<Rightarrow> nat) \<Rightarrow> bool" where
  "broadcast_channel channel send recv sent next_event \<longleftrightarrow>
     (\<forall>n. 0 < n \<longrightarrow> (\<exists>tx rx. channel n = Some (tx, rx) \<and> sent tx = [] \<and> next_event rx = 0))
     \<and> (\<forall>tx e. sent (snd (send tx e)) = sent tx @ [e])
     \<and> (\<forall>tx rx. length (sent tx) \<le> 10 \<longrightarrow>
          (if next_event rx < length (sent tx)
           then \<exists>rx'. recv tx rx = Some (Inr (sent tx ! next_event rx), rx') \<and> next_event rx' = next_event rx + 1
           else recv tx rx = None))"

definition set_event :: "(nat \<Rightarrow> uuid) \<Rightarrow> int \<Rightarrow> nat \<Rightarrow> string \<Rightarrow> string \<Rightarrow> string \<Rightarrow> string \<Rightarrow> u64 \<Rightarrow> 'id change_event" where
  "set_event ids now n ns db k v seq = change_event_new now EventSet (change_of ids now n ns db k v) seq"

definition test_subscription_filter :: "(nat \<Rightarrow> uuid) \<Rightarrow> int \<Rightarrow> bool" where
  "test_subscription_filter ids now \<longleftrightarrow>
     filter_matches filter_everything (set_event ids now 0 ''ns1'' ''db1'' ''key1'' ''value'' 1 :: nat change_event)"

definition test_subscription_filter_namespace :: "(nat \<Rightarrow> uuid) \<Rightarrow> int \<Rightarrow> bool" where
  "test_subscription_filter_namespace ids now \<longleftrightarrow>
     (let flt = with_namespace ''ns1'' filter_everything;
          event1 = (set_event ids now 0 ''ns1'' ''db1'' ''key1'' ''value'' 1 :: nat change_event);
          event2 = (set_event ids now 1 ''ns2'' ''db1'' ''key1'' ''value'' 2 :: nat change_event)
      in filter_matches flt event1 \<and> \<not> filter_matches flt event2)"

definition test_change_notifier ::
  "(nat \<Rightarrow> ('tx \<times> 'rx) option) \<Rightarrow> ('tx \<Rightarrow> nat change_event \<Rightarrow> bool \<times> 'tx)
     \<Rightarrow> ('tx, 'rx, nat change_event) broadcast_recv \<Rightarrow> (nat \<Rightarrow> uuid) \<Rightarrow> int \<Rightarrow> bool" where
  "test_change_notifier channel send recv ids now \<longleftrightarrow>
     (case subscribe channel filter_everything (notifier_new 10) of
        (Ok sub, n) \<Rightarrow>
          let n' = notify send (set_event ids now 0 ''ns'' ''db'' ''key'' ''value'' 1) n
          in (case recv_event recv n' sub of None \<Rightarrow> False | Some (event, sub') \<Rightarrow> event \<noteq> None)
             \<and> subscriber_count n' = 1
      | _ \<Rightarrow> False)"

lemma filter_tests_pass:
  "test_subscription_filter ids now" "test_subscription_filter_namespace ids now"
  by (simp_all add: test_subscription_filter_def test_subscription_filter_namespace_def filter_matches_iff
      filter_everything_def with_namespace_def push_opt_def set_event_def change_event_new_def Let_def)

text \<open>One subscriber of a new notifier, and what it holds after some notifications.\<close>

lemma subscribed_once:
  assumes "broadcast_channel channel send recv sent next_event" "0 < buffer"
  obtains tx rx where "subscribe channel f (notifier_new buffer) =
      (Ok \<lparr>sp_id = 1, sp_filter = f, sp_rx = rx\<rparr>,
       (notifier_new buffer)\<lparr>nf_subscribers := fmupd 1 \<lparr>sb_filter = f, sb_sender = tx\<rparr> fmempty\<rparr>)"
    and "sent tx = []" "next_event rx = 0"
  using assms
  by (auto simp: broadcast_channel_def subscribe_def notifier_new_def subscriber_count_def Let_def
      elim!: allE [of _ buffer])

lemma recv_sent:
  assumes "broadcast_channel channel send recv sent next_event"
    and "fmlookup (nf_subscribers n) (sp_id sub) = Some \<lparr>sb_filter = f, sb_sender = tx\<rparr>"
    and "length (sent tx) \<le> 10" "next_event (sp_rx sub) < length (sent tx)"
  obtains rx where "recv_event recv n sub = Some (Some (sent tx ! next_event (sp_rx sub)), sub\<lparr>sp_rx := rx\<rparr>)"
    and "next_event rx = next_event (sp_rx sub) + 1"
proof -
  obtain rx where rx: "recv tx (sp_rx sub) = Some (Inr (sent tx ! next_event (sp_rx sub)), rx)"
    and n: "next_event rx = next_event (sp_rx sub) + 1"
    using assms(1,3,4) unfolding broadcast_channel_def by meson
  then have "recv_event recv n sub = Some (Some (sent tx ! next_event (sp_rx sub)), sub\<lparr>sp_rx := rx\<rparr>)"
    using assms(2) by (simp add: recv_event_def subscription_recv_def)
  then show thesis using n by (rule that)
qed

lemma notifier_test_passes:
  assumes channel: "broadcast_channel channel send recv sent next_event"
  shows "test_change_notifier channel send recv ids now"
proof -
  obtain tx rx where sub: "subscribe channel filter_everything (notifier_new 10) =
      (Ok \<lparr>sp_id = 1, sp_filter = filter_everything, sp_rx = rx\<rparr>,
       (notifier_new 10)\<lparr>nf_subscribers := fmupd 1 \<lparr>sb_filter = filter_everything, sb_sender = tx\<rparr> fmempty\<rparr>)"
    and new: "sent tx = []" "next_event rx = 0"
    by (rule subscribed_once [OF channel, of 10 filter_everything]) simp_all
  let ?e = "set_event ids now 0 ''ns'' ''db'' ''key'' ''value'' 1"
  let ?n = "(notifier_new 10)\<lparr>nf_subscribers := fmupd 1 \<lparr>sb_filter = filter_everything, sb_sender = tx\<rparr> fmempty\<rparr>"
  let ?sub = "\<lparr>sp_id = 1, sp_filter = filter_everything, sp_rx = rx\<rparr>"
  have "sent (snd (send tx ?e)) = [?e]" using channel new by (simp add: broadcast_channel_def)
  moreover have "fmlookup (nf_subscribers (notify send ?e ?n)) (sp_id ?sub)
      = Some \<lparr>sb_filter = filter_everything, sb_sender = snd (send tx ?e)\<rparr>"
    by (simp add: notify_def)
  ultimately obtain rx' where "recv_event recv (notify send ?e ?n) ?sub = Some (Some ?e, ?sub\<lparr>sp_rx := rx'\<rparr>)"
    using recv_sent [OF channel, of "notify send ?e ?n" ?sub] new by auto
  moreover have "subscriber_count ?n = 1" by (simp add: subscriber_count_def)
  ultimately show ?thesis by (simp add: test_change_notifier_def sub Let_def)
qed

subsection \<open>\<open>pool.rs\<close> and \<open>protocol.rs\<close>\<close>

definition test_pool_config_default :: bool where
  "test_pool_config_default \<longleftrightarrow>
     (let config = pool_config_default in po_max_connections config = 10 \<and> po_max_uses config = 100)"

definition test_pool_stats :: bool where
  "test_pool_stats \<longleftrightarrow>
     (let stats = \<lparr>pt_active_connections = 5, pt_in_use_connections = 2, pt_max_connections = 10, pt_total_uses = 100,
            pt_oldest_connection_age = secs 60\<rparr>
      in pt_active_connections stats = 5 \<and> pt_in_use_connections stats = 2 \<and> pt_max_connections stats = 10)"

definition test_max_message_size_constant :: bool where
  "test_max_message_size_constant \<longleftrightarrow> MAX_MESSAGE_SIZE = 16 * 1024 * 1024 \<and> MAX_MESSAGE_SIZE < 2 ^ 64 - 1"

definition test_message_size_limit_enforcement_logic :: bool where
  "test_message_size_limit_enforcement_logic \<longleftrightarrow>
     (let oversized = 17 * 1024 * 1024; within_limit = 16 * 1024 * 1024
      in oversized > MAX_MESSAGE_SIZE \<and> within_limit \<le> MAX_MESSAGE_SIZE)"

definition test_end_of_stream_marker :: bool where
  "test_end_of_stream_marker \<longleftrightarrow> from_be_bytes [0, 0, 0, 0] = 0"

definition test_alpn_value :: bool where
  "test_alpn_value \<longleftrightarrow> ALPN = as_bytes ''surrealdb/iroh-sync/1''"

lemma pool_and_protocol_tests_pass:
  "test_pool_config_default" "test_pool_stats" "test_max_message_size_constant"
  "test_message_size_limit_enforcement_logic" "test_end_of_stream_marker" "test_alpn_value"
  by (simp_all add: test_pool_config_default_def pool_config_default_def test_pool_stats_def
      test_max_message_size_constant_def MAX_MESSAGE_SIZE_def test_message_size_limit_enforcement_logic_def
      test_end_of_stream_marker_def from_be_bytes_def test_alpn_value_def ALPN_def)

subsection \<open>\<open>reputation.rs\<close>\<close>

definition test_reputation_config_default :: bool where
  "test_reputation_config_default \<longleftrightarrow>
     (let config = reputation_config_default
      in pq_initial_score config = Fin 50 \<and> pq_sync_success_bonus config = Fin 5)"

definition test_peer_reputation :: "u64 \<Rightarrow> 'id \<Rightarrow> bool" where
  "test_peer_reputation now pid \<longleftrightarrow>
     (let rep = peer_reputation_new now pid (Fin 50) in pr_score rep = Fin 50 \<and> pr_sync_successes rep = 0)"

definition test_reputation_manager :: "('id \<Rightarrow> string) \<Rightarrow> u64 \<Rightarrow> u64 \<Rightarrow> 'id \<Rightarrow> bool" where
  "test_reputation_manager id_text now later pid \<longleftrightarrow>
     (let manager = reputation_manager_new reputation_config_default;
          manager1 = manager\<lparr>rm_reputations :=
            fmupd (id_text pid) (peer_reputation_new now pid (Fin 50)) (rm_reputations manager)\<rparr>;
          manager2 = record_sync_success id_text later pid manager1
      in case get_reputation id_text pid manager2 of
           None \<Rightarrow> False
         | Some rep \<Rightarrow> pr_sync_successes rep = 1 \<and> f64_less (Fin 50) (pr_score rep))"

definition test_reputation_filter :: "u64 \<Rightarrow> 'id \<Rightarrow> bool" where
  "test_reputation_filter now pid \<longleftrightarrow>
     (let flt = filter_with_max_failures 5 (filter_with_min_score (Fin 30) reputation_filter_new)
      in filter_passes flt (peer_reputation_new now pid (Fin 50)))"

lemma score_after_success: "f64_min (f64_add (Fin 50) (Fin 5)) (Fin 100) = Fin 55"
proof -
  have "f64_add (Fin 50) (Fin 5) = f64_of 55" by simp
  also have "\<dots> = Fin 55" using f64_of_int_exact [of 55] by simp
  finally show ?thesis by (simp add: f64_min_def)
qed

lemma reputation_tests_pass:
  "test_reputation_config_default" "test_peer_reputation now pid" "test_reputation_manager id_text now later pid"
  "test_reputation_filter now pid"
  by (simp_all add: test_reputation_config_default_def test_peer_reputation_def test_reputation_manager_def
      test_reputation_filter_def reputation_config_default_def peer_reputation_new_def reputation_manager_new_def
      record_sync_success_def update_reputation_def success_update_def get_reputation_def score_after_success
      filter_passes_def filter_with_max_failures_def filter_with_min_score_def reputation_filter_new_def Let_def
      del: f64_add.simps)

subsection \<open>\<open>retry.rs\<close>\<close>

definition test_retry_config_default :: bool where
  "test_retry_config_default \<longleftrightarrow>
     (let config = retry_config_default in rc_initial_delay config = millis 100 \<and> rc_max_retries config = 5)"

definition test_retry_policy_should_retry :: bool where
  "test_retry_policy_should_retry \<longleftrightarrow>
     (let policy = retry_policy_new retry_config_default
      in should_retry policy \<and> \<not> should_retry ((record_attempt ^^ 5) policy))"

fun retries_forever :: "nat \<Rightarrow> retry_policy \<Rightarrow> bool" where
  "retries_forever 0 policy \<longleftrightarrow> True"
| "retries_forever (Suc n) policy \<longleftrightarrow>
     (let policy' = record_attempt policy in should_retry policy' \<and> retries_forever n policy')"

definition test_retry_policy_infinite :: bool where
  "test_retry_policy_infinite \<longleftrightarrow>
     retries_forever 100 (retry_policy_new (with_max_retries 0 retry_config_default))"

definition test_retry_budget :: bool where
  "test_retry_budget \<longleftrightarrow>
     (let budget = retry_budget_new 3 (secs 1);
          spent = budget_record_attempt (budget_record_attempt (budget_record_attempt budget))
      in can_retry budget \<and> \<not> can_retry spent \<and> remaining spent = 0)"

lemma retries_forever_if: "rc_max_retries (ry_config p) = 0 \<Longrightarrow> retries_forever n p"
  by (induction n arbitrary: p) (simp_all add: should_retry_def record_attempt_def Let_def)

lemma record_attempts:
  "ry_attempts ((record_attempt ^^ n) p) = ry_attempts p + n" "ry_config ((record_attempt ^^ n) p) = ry_config p"
  by (induction n) (simp_all add: record_attempt_def)

lemma retry_tests_pass:
  "test_retry_config_default" "test_retry_policy_should_retry" "test_retry_policy_infinite" "test_retry_budget"
proof -
  show test_retry_config_default by (simp add: test_retry_config_default_def retry_config_default_def millis_def)
  show test_retry_policy_should_retry
    by (simp add: test_retry_policy_should_retry_def retry_policy_new_def retry_config_default_def should_retry_def
        record_attempts Let_def)
  show test_retry_policy_infinite
    unfolding test_retry_policy_infinite_def
    by (rule retries_forever_if) (simp add: retry_policy_new_def with_max_retries_def)
  show test_retry_budget
    by (simp add: test_retry_budget_def retry_budget_new_def budget_record_attempt_def can_retry_def remaining_def Let_def)
qed

subsection \<open>\<open>telemetry.rs\<close>\<close>

definition span_name_format :: bool where
  "span_name_format \<longleftrightarrow>
     span_name ''sync'' ''peer1'' = ''sync peer1'' \<and> span_name ''connect'' [] = ''connect ''"

definition normalize_connection_type_spec_values :: bool where
  "normalize_connection_type_spec_values \<longleftrightarrow>
     normalize_connection_type ''direct'' = ''direct'' \<and> normalize_connection_type ''relay'' = ''relay''
     \<and> normalize_connection_type ''hole_punched'' = ''hole_punched''"

definition normalize_connection_type_aliases :: bool where
  "normalize_connection_type_aliases \<longleftrightarrow>
     normalize_connection_type ''p2p'' = ''direct'' \<and> normalize_connection_type ''peer'' = ''direct''
     \<and> normalize_connection_type ''holepunch'' = ''hole_punched''
     \<and> normalize_connection_type ''hole-punch'' = ''hole_punched''"

definition normalize_sync_direction_spec_values :: bool where
  "normalize_sync_direction_spec_values \<longleftrightarrow>
     normalize_sync_direction ''push'' = ''push'' \<and> normalize_sync_direction ''pull'' = ''pull''
     \<and> normalize_sync_direction ''bidirectional'' = ''bidirectional''"

definition normalize_sync_direction_aliases :: bool where
  "normalize_sync_direction_aliases \<longleftrightarrow>
     normalize_sync_direction ''send'' = ''push'' \<and> normalize_sync_direction ''receive'' = ''pull''
     \<and> normalize_sync_direction ''bidir'' = ''bidirectional''"

definition normalize_sync_type_spec_values :: bool where
  "normalize_sync_type_spec_values \<longleftrightarrow>
     normalize_sync_type ''snapshot'' = ''snapshot'' \<and> normalize_sync_type ''incremental'' = ''incremental''"

definition normalize_sync_type_aliases :: bool where
  "normalize_sync_type_aliases \<longleftrightarrow>
     normalize_sync_type ''full'' = ''snapshot'' \<and> normalize_sync_type ''delta'' = ''incremental''
     \<and> normalize_sync_type ''diff'' = ''incremental''"

definition metric_names_follow_otel_conventions :: bool where
  "metric_names_follow_otel_conventions \<longleftrightarrow>
     CHR ''.'' \<in> set METRIC_SYNC_TOTAL \<and> CHR ''.'' \<in> set METRIC_PEERS_ACTIVE"

definition attribute_keys_match_otel_semconv :: bool where
  "attribute_keys_match_otel_semconv \<longleftrightarrow>
     ATTR_RPC_SYSTEM = ''rpc.system'' \<and> ATTR_RPC_METHOD = ''rpc.method'' \<and> ATTR_SERVER_ADDRESS = ''server.address''
     \<and> ATTR_ERROR_TYPE = ''error.type''"

lemma telemetry_tests_pass:
  "span_name_format" "normalize_connection_type_spec_values" "normalize_connection_type_aliases"
  "normalize_sync_direction_spec_values" "normalize_sync_direction_aliases" "normalize_sync_type_spec_values"
  "normalize_sync_type_aliases" "metric_names_follow_otel_conventions" "attribute_keys_match_otel_semconv"
  by (simp_all add: span_name_format_def span_name_def normalize_connection_type_spec_values_def
      normalize_connection_type_aliases_def normalize_connection_type_def normalize_sync_direction_spec_values_def
      normalize_sync_direction_aliases_def normalize_sync_direction_def normalize_sync_type_spec_values_def
      normalize_sync_type_aliases_def normalize_sync_type_def to_lowercase_def lower_char_def
      metric_names_follow_otel_conventions_def METRIC_SYNC_TOTAL_def METRIC_PEERS_ACTIVE_def
      attribute_keys_match_otel_semconv_def ATTR_RPC_SYSTEM_def ATTR_RPC_METHOD_def ATTR_SERVER_ADDRESS_def
      ATTR_ERROR_TYPE_def)

end
