(* ===== verification/Log_Tests.thy ===== *)
theory Log_Tests
  imports Unit_Tests Batch Snapshot
begin

section \<open>The unit tests of the log, the batcher and the snapshot\<close>

text \<open>
  The tests of \<open>sync.rs\<close>, \<open>batch.rs\<close> and \<open>snapshot.rs\<close> on
  the model, in the style of \<open>Unit_Tests\<close>. The order in which a table is listed, the
  hash and the codecs of other crates are arguments; the instants at which the flush task wakes up
  too.
\<close>

subsection \<open>\<open>sync.rs\<close>\<close>

text \<open>The changes a test records in a loop over \<open>0..n\<close>.\<close>

definition numbered_changes :: "(nat \<Rightarrow> uuid) \<Rightarrow> int \<Rightarrow> nat \<Rightarrow> change list" where
  "numbered_changes ids now n = map (\<lambda>i. change_of ids now i ''ns'' ''db'' (''key'' @ show_nat i) ''val'') [0..<n]"

lemma length_numbered_changes [simp]: "length (numbered_changes ids now n) = n"
  by (simp add: numbered_changes_def)

definition test_change_tracking :: "(nat \<Rightarrow> uuid) \<Rightarrow> int \<Rightarrow> bool" where
  "test_change_tracking ids now \<longleftrightarrow>
     (let manager = (sync_manager_new 100 :: nat sync_manager);
          (offset1, manager1) = record_change manager (change_of ids now 0 ''ns'' ''db'' ''key1'' ''val1'');
          (offset2, manager2) = record_change manager1 (change_of ids now 1 ''ns'' ''db'' ''key2'' ''val2'')
      in offset1 = 0 \<and> offset2 = 1 \<and> sm_offset manager2 = 2
         \<and> length (get_changes_since manager2 0) = 2 \<and> length (get_changes_since manager2 1) = 1
         \<and> get_changes_since manager2 2 = [])"

definition test_change_trimming :: "(nat \<Rightarrow> uuid) \<Rightarrow> int \<Rightarrow> bool" where
  "test_change_trimming ids now \<longleftrightarrow>
     (let manager = record_all (sync_manager_new 3 :: nat sync_manager) (numbered_changes ids now 5)
      in length (get_changes_since manager 0) = 3)"

text \<open>The table of the first manager is empty, so its listing is too.\<close>

definition test_restore_with_valid_snapshot :: "(bytes \<Rightarrow> string + nat) \<Rightarrow> (nat \<Rightarrow> uuid) \<Rightarrow> int \<Rightarrow> bool" where
  "test_restore_with_valid_snapshot id_from_bytes ids now \<longleftrightarrow>
     (let manager = record_all (sync_manager_new 100 :: nat sync_manager) (numbered_changes ids now 5);
          snap = snapshot [] manager;
          (restored, manager2) = restore id_from_bytes (sync_manager_new 100) snap
      in sn_offset snap = 5 \<and> restored \<noteq> Panic \<and> length (get_changes_since manager2 0) = 5)"

definition test_restore_with_empty_snapshot :: bool where
  "test_restore_with_empty_snapshot \<longleftrightarrow>
     (let snap = snapshot [] (sync_manager_new 100 :: nat sync_manager)
      in sn_offset snap = 0 \<and> sn_changes snap = [])"

text \<open>\<open>listing\<close> is the order in which a table is iterated.\<close>

definition test_snapshot_and_restore_preserves_peer_state ::
  "('id \<Rightarrow> bytes) \<Rightarrow> (bytes \<Rightarrow> string + 'id)
     \<Rightarrow> ((string \<rightharpoonup> 'id peer_sync_state) \<Rightarrow> (string \<times> 'id peer_sync_state) list)
     \<Rightarrow> (nat \<Rightarrow> uuid) \<Rightarrow> int \<Rightarrow> 'id \<Rightarrow> bool" where
  "test_snapshot_and_restore_preserves_peer_state id_bytes id_from_bytes listing ids now pid \<longleftrightarrow>
     (let manager = update_peer_state id_bytes (record_all (sync_manager_new 100) (numbered_changes ids now 3)) pid Syncing;
          snap = snapshot (listing (sm_peer_states manager)) manager;
          (restored, manager2) = restore id_from_bytes (sync_manager_new 100) snap;
          states = get_peer_states (listing (sm_peer_states manager2))
      in restored \<noteq> Panic \<and> length states = 1 \<and> ps_peer_id (states ! 0) = pid)"

definition test_peer_state_encoding_roundtrip :: "('id \<Rightarrow> bytes) \<Rightarrow> 'id \<Rightarrow> bool" where
  "test_peer_state_encoding_roundtrip id_bytes pid \<longleftrightarrow>
     (let encoded = base64_url_encode (id_bytes pid); decoded = base64_url_decode encoded
      in is_ok decoded \<and> unwrapped decoded (\<lambda>decoded_bytes. decoded_bytes = id_bytes pid))"

definition test_invalid_base64_in_restore :: "(bytes \<Rightarrow> string + nat) \<Rightarrow> (nat \<Rightarrow> uuid) \<Rightarrow> int \<Rightarrow> bool" where
  "test_invalid_base64_in_restore id_from_bytes ids now \<longleftrightarrow>
     (let snap = \<lparr>sn_offset = 5, sn_changes = [], sn_peers = [(''not-valid-base64!!!'', 0)]\<rparr>;
          (restored, manager) = restore id_from_bytes (sync_manager_new 100) snap;
          (off, manager') = record_change manager (change_of ids now 0 ''ns'' ''db'' ''key'' ''val'')
      in restored \<noteq> Panic \<and> off = 5)"

lemma new_manager [simp]:
  "sm_max_changes (sync_manager_new n) = n" "sm_peer_states (sync_manager_new n) = Map.empty"
  by (simp_all add: sync_manager_new_def)

lemma recorded_fields [simp]:
  "sm_max_changes (record_all m cs) = sm_max_changes m" "sm_peer_states (record_all m cs) = sm_peer_states m"
  by (induction cs arbitrary: m) simp_all

lemma represents_recorded:
  "length cs < 2 ^ 64 \<Longrightarrow> represents (record_all (sync_manager_new n) cs) cs"
  using sync_log.repr_appends [OF represents_new, of cs n] by simp

lemma since_recorded:
  "length cs < 2 ^ 64 \<Longrightarrow> length (get_changes_since (record_all (sync_manager_new n) cs) 0) = min n (length cs)"
  by (simp add: sync_log.repr_since [OF represents_recorded])

lemma offset_recorded:
  "length cs < 2 ^ 64 \<Longrightarrow> sm_offset (record_all (sync_manager_new n) cs) = of_nat (length cs)"
  by (rule sync_log.repr_tail [OF represents_recorded])

text \<open>What a manager restored from the snapshot of another answers.\<close>

lemma changes_recorded:
  assumes "length cs < 2 ^ 64"
  shows "sm_changes (record_all (sync_manager_new n :: 'a sync_manager) cs) = last_n n cs"
proof -
  have "sm_changes m = last_n (sm_max_changes m) h" if "represents m h" for m :: "'a sync_manager" and h
    using that by (simp add: represents_def)
  from this [OF represents_recorded [OF assms]] show ?thesis by simp
qed

lemma sync_tests_pass:
  "test_change_tracking ids now" "test_change_trimming ids now"
  "test_restore_with_valid_snapshot id_from_bytes ids now" "test_restore_with_empty_snapshot"
  "test_peer_state_encoding_roundtrip id_bytes pid" "test_invalid_base64_in_restore id_from_bytes ids now"
proof -
  show "test_change_tracking ids now"
    by (simp add: test_change_tracking_def record_change_def sync_manager_new_def get_changes_since_def Let_def
        word_le_nat_alt)
  show "test_change_trimming ids now"
    by (simp add: test_change_trimming_def since_recorded)
  show "test_restore_with_valid_snapshot id_from_bytes ids now"
    by (simp add: test_restore_with_valid_snapshot_def snapshot_def restore_def offset_recorded changes_recorded
        get_changes_since_def Let_def last_n_all)
  show test_restore_with_empty_snapshot
    by (simp add: test_restore_with_empty_snapshot_def snapshot_def sync_manager_new_def)
  show "test_peer_state_encoding_roundtrip id_bytes pid"
    by (simp add: test_peer_state_encoding_roundtrip_def base64_decode_encode)
  have "33 \<in> set (as_bytes ''not-valid-base64!!!'')" by (simp add: as_bytes_def)
  then have "decode_peer_id id_from_bytes ''not-valid-base64!!!''
      = Err (Encoding (''base64 decode failed: '' @ ''invalid base64 character''))"
    by (simp add: decode_peer_id_def decode_invalid [OF _ not_in_alphabet(1)])
  then show "test_invalid_base64_in_restore id_from_bytes ids now"
    by (simp add: test_invalid_base64_in_restore_def restore_def record_change_def Let_def)
qed

text \<open>A table with one entry is listed as that entry.\<close>

definition lists_table :: "(('k \<rightharpoonup> 'v) \<Rightarrow> ('k \<times> 'v) list) \<Rightarrow> bool" where
  "lists_table listing \<longleftrightarrow> (\<forall>k v. listing [k \<mapsto> v] = [(k, v)])"

lemma peer_state_test_passes:
  assumes "id_codec id_bytes id_from_bytes" "lists_table listing"
  shows "test_snapshot_and_restore_preserves_peer_state id_bytes id_from_bytes listing ids now pid"
proof -
  have "decode_peer_id id_from_bytes (peer_key id_bytes pid) = Ok pid"
    using assms(1) by (simp add: decode_peer_id_def peer_key_def base64_decode_encode id_codec_def)
  then show ?thesis
    using assms(2)
    by (simp add: test_snapshot_and_restore_preserves_peer_state_def update_peer_state_def snapshot_def restore_def
        lists_table_def peer_sync_state_new_def get_peer_states_def Let_def)
qed

subsection \<open>\<open>batch.rs\<close>\<close>

definition test_batch_config_default :: bool where
  "test_batch_config_default \<longleftrightarrow>
     (let config = batch_config_default in bc_max_batch_size config = 100 \<and> bc_enabled config)"

definition test_tx_batch :: "(nat \<Rightarrow> uuid) \<Rightarrow> int \<Rightarrow> nat \<Rightarrow> bool" where
  "test_tx_batch ids now instant \<longleftrightarrow>
     (let batch = tx_batch_new instant [change_of ids now 0 ''ns'' ''db'' ''key1'' ''val1''] 1
      in tx_batch_len batch = 1 \<and> \<not> tx_batch_is_empty batch)"

text \<open>The channel of these tests has capacity 10 and is never full in them: \<open>queue_send\<close>, from empty.\<close>

definition test_batch_flush_on_size :: "(nat \<Rightarrow> uuid) \<Rightarrow> int \<Rightarrow> nat \<Rightarrow> nat \<Rightarrow> bool" where
  "test_batch_flush_on_size ids now t1 t2 \<longleftrightarrow>
     (let b0 = batcher_new (with_max_batch_size 2 batch_config_default) [];
          (flushed1, b1) = batcher_add queue_send t1 (change_of ids now 0 ''ns'' ''db'' ''k1'' ''v1'') b0;
          (flushed2, b2) = batcher_add queue_send t2 (change_of ids now 1 ''ns'' ''db'' ''k2'' ''v2'') b1
      in \<not> flushed1 \<and> pending_count b1 = 1 \<and> flushed2 \<and> pending_count b2 = 0)"

text \<open>
  The change is added at \<open>added_at\<close>, the task wakes up at \<open>woken_at\<close>,
  and the receiver waits for a batch until it arrives.
\<close>

definition test_background_flush_task :: "(nat \<Rightarrow> uuid) \<Rightarrow> int \<Rightarrow> nat \<Rightarrow> nat \<Rightarrow> bool" where
  "test_background_flush_task ids now added_at woken_at \<longleftrightarrow>
     (let config = with_max_batch_age (millis 50) (with_max_batch_size 100 batch_config_default);
          b0 = start_background_flush_task (batcher_new config []);
          b1 = snd (batcher_add queue_send added_at (change_of ids now 0 ''ns'' ''db'' ''k1'' ''v1'') b0);
          b2 = age_tick queue_send woken_at b1
      in pending_count b1 = 1
         \<and> (case bt_channel b2 of [] \<Rightarrow> False | batch # _ \<Rightarrow> tx_batch_len batch = 1 \<and> pending_count b2 = 0))"

text \<open>The receiver is dropped before the shutdown; the task ends without a panic.\<close>

definition test_graceful_shutdown :: "'ch \<Rightarrow> bool" where
  "test_graceful_shutdown receiverless_channel \<longleftrightarrow>
     (let config = with_max_batch_age (millis 50) (with_max_batch_size 100 batch_config_default);
          b1 = start_background_flush_task (batcher_new config receiverless_channel);
          b2 = batcher_shutdown False b1
      in is_task_running b1 \<and> \<not> is_task_running b2)"

definition test_task_crash_detection :: "'ch \<Rightarrow> bool" where
  "test_task_crash_detection ch \<longleftrightarrow>
     (let config = with_max_batch_age (secs 3600) (with_max_batch_size 100 batch_config_default)
      in \<not> has_task_crashed (start_background_flush_task (batcher_new config ch)))"

lemmas batcher_defs = batcher_new_def batcher_add_def check_flush_def batcher_flush_def send_batch_def queue_send_def
  has_task_crashed_def add_push_def add_mark_def pending_count_def start_background_flush_task_def

lemma batch_tests_pass:
  "test_batch_config_default" "test_tx_batch ids now instant" "test_batch_flush_on_size ids now t1 t2"
  "test_graceful_shutdown ch" "test_task_crash_detection ch"
  by (simp_all add: test_batch_config_default_def batch_config_default_def test_tx_batch_def tx_batch_len_def
      tx_batch_is_empty_def tx_batch_new_def test_batch_flush_on_size_def batcher_defs Batch.with_max_batch_size_def
      test_graceful_shutdown_def batcher_shutdown_def is_task_running_def test_task_crash_detection_def
      with_max_batch_age_def Let_def)

text \<open>The timer does not fire before the age of the batch has passed.\<close>

lemma background_flush_test_passes:
  assumes "added_at + millis 50 \<le> woken_at"
  shows "test_background_flush_task ids now added_at woken_at"
  using assms
  by (simp add: test_background_flush_task_def batcher_defs batch_config_default_def Batch.with_max_batch_size_def
      with_max_batch_age_def age_tick_def tx_batch_len_def tx_batch_new_def Let_def)

subsection \<open>\<open>snapshot.rs\<close>\<close>

definition test_snapshot_config :: bool where
  "test_snapshot_config \<longleftrightarrow> sc_compress snapshot_config_default"

definition test_snapshot_serializer ::
  "(hash_write list \<Rightarrow> u64) \<Rightarrow> (ns_map \<Rightarrow> (string \<times> db_map) list)
     \<Rightarrow> (db_map \<Rightarrow> (string \<times> key_value_entry list) list) \<Rightarrow> (nat \<Rightarrow> uuid) \<Rightarrow> int \<Rightarrow> bool" where
  "test_snapshot_serializer hash iter_ns iter_db ids now \<longleftrightarrow>
     (let serializer = serializer_add_change (serializer_new snapshot_config_default)
            (change_of ids now 0 ''ns'' ''db'' ''key'' ''value'');
          snap = fst (build_snapshot hash iter_ns iter_db (\<lambda>_. now) serializer)
      in serializer_pending_count serializer = 1 \<and> length (dbs_namespaces snap) = 1 \<and> snapshot_validate hash snap)"

text \<open>The loop that imports the chunks and unwraps each result.\<close>

fun import_all :: "snapshot_chunk list \<Rightarrow> importer \<Rightarrow> (importer \<Rightarrow> bool) \<Rightarrow> bool" where
  "import_all [] im k = k im"
| "import_all (c # cs) im k =
     (case import_chunk c im of (Ok _, im') \<Rightarrow> import_all cs im' k | _ \<Rightarrow> False)"

definition test_snapshot_export_import ::
  "(hash_write list \<Rightarrow> u64) \<Rightarrow> (ns_map \<Rightarrow> (string \<times> db_map) list)
     \<Rightarrow> (db_map \<Rightarrow> (string \<times> key_value_entry list) list) \<Rightarrow> (database_snapshot \<Rightarrow> string + bytes)
     \<Rightarrow> (bytes \<Rightarrow> string + database_snapshot) \<Rightarrow> (nat \<Rightarrow> uuid) \<Rightarrow> int \<Rightarrow> bool" where
  "test_snapshot_export_import hash iter_ns iter_db ser de ids now \<longleftrightarrow>
     (let exporter = serializer_add_change (serializer_new snapshot_config_default)
            (change_of ids now 0 ''ns'' ''db'' ''key'' ''value'')
      in unwrapped (fst (snapshot_export hash iter_ns iter_db ser (\<lambda>_. now) exporter)) (\<lambda>chunks.
           chunks \<noteq> [] \<and> import_all chunks importer_new (\<lambda>im.
             is_complete im \<and> unwrapped (finalize de im) (\<lambda>snap. length (dbs_namespaces snap) = 1))))"

lemma single_listed: "lists_entries kvs (fmupd k v fmempty) \<Longrightarrow> length kvs = 1"
proof -
  assume kvs: "lists_entries kvs (fmupd k v fmempty)"
  then have "set kvs = {(k, v)}" using lists_entries_iff [OF kvs] by (auto split: if_splits)
  moreover have "distinct kvs" using kvs by (auto simp: lists_entries_def distinct_map)
  ultimately show ?thesis using distinct_card [of kvs] by simp
qed

lemma one_namespace:
  assumes "\<And>m. lists_entries (iter_ns m) m" "sr_pending s = [c]"
  shows "length (dbs_namespaces (fst (build_snapshot hash iter_ns iter_db (\<lambda>_. now) s))) = 1"
  using assms single_listed [OF assms(1)]
  by (simp add: build_snapshot_def database_snapshot_new_def group_change_def Let_def)

lemma snapshot_tests_pass:
  "test_snapshot_config"
  "(\<And>m. lists_entries (iter_ns m) m) \<Longrightarrow> test_snapshot_serializer hash iter_ns iter_db ids now"
proof -
  show test_snapshot_config by (simp add: test_snapshot_config_def snapshot_config_default_def)
  assume "\<And>m. lists_entries (iter_ns m) m"
  note one_namespace [OF this]
  moreover have "snapshot_validate hash (fst (build_snapshot hash iter_ns iter_db (\<lambda>_. now) s))" for s
    by (simp add: snapshot_validate_def build_snapshot_def database_snapshot_new_def Let_def)
  ultimately show "test_snapshot_serializer hash iter_ns iter_db ids now"
    by (simp add: test_snapshot_serializer_def serializer_add_change_def serializer_new_def serializer_pending_count_def)
qed

lemma import_all_if:
  "(\<forall>i < length cs. fst (import_chunk (cs ! i) (foldl (\<lambda>im c. snd (import_chunk c im)) im (take i cs))) = Ok ())
     \<Longrightarrow> k (foldl (\<lambda>im c. snd (import_chunk c im)) im cs) \<Longrightarrow> import_all cs im k"
proof (induction cs arbitrary: im)
  case (Cons c cs)
  have "fst (import_chunk c im) = Ok ()" using Cons.prems(1) by force
  moreover have "fst (import_chunk (cs ! i) (foldl (\<lambda>im c. snd (import_chunk c im)) (snd (import_chunk c im)) (take i cs)))
      = Ok ()" if "i < length cs" for i
    using Cons.prems(1) that by (auto dest: spec [of _ "Suc i"])
  ultimately show ?case using Cons.IH [of "snd (import_chunk c im)"] Cons.prems(2)
    by (cases "import_chunk c im") simp
qed simp

text \<open>What the round trip needs of \<open>bincode\<close>: the snapshot is written, as some bytes, and read back.\<close>

lemma export_import_test_passes:
  assumes entries: "\<And>m. lists_entries (iter_ns m) m"
    and codec: "\<And>s. \<exists>bs. ser s = Inr bs \<and> bs \<noteq> [] \<and> length bs \<le> MAX_SLOTS \<and> de bs = Inr s"
  shows "test_snapshot_export_import hash iter_ns iter_db ser de ids now"
proof -
  let ?s = "serializer_add_change (serializer_new snapshot_config_default) (change_of ids now 0 ''ns'' ''db'' ''key'' ''value'')"
  define snap where "snap = fst (build_snapshot hash iter_ns iter_db (\<lambda>_. now) ?s)"
  have one: "length (dbs_namespaces snap) = 1"
    unfolding snap_def by (rule one_namespace [OF entries]) (simp add: serializer_add_change_def serializer_new_def)
  obtain bs where bs: "ser snap = Inr bs" "bs \<noteq> []" "length bs \<le> MAX_SLOTS" "de bs = Inr snap" using codec by blast
  define cs where "cs = map (chunk_at (chunks 65536 bs)) [0..<length (chunks 65536 bs)]"
  have export: "export_chunks 65536 bs = Ok cs" unfolding cs_def by (rule export_chunks_eq) simp
  have "length cs \<le> length bs" by (simp add: cs_def length_chunks)
  then have len: "length cs \<le> MAX_SLOTS" using bs(3) by simp
  have "cs \<noteq> []" using bs(2) by (cases bs) (simp_all add: cs_def chunks_step)
  moreover have "fst (snapshot_export hash iter_ns iter_db ser (\<lambda>_. now) ?s) = Ok cs"
  proof -
    have "sc_chunk_size (sr_config ?s) = 65536"
      by (simp add: serializer_add_change_def serializer_new_def snapshot_config_default_def)
    then show ?thesis
      using bs(1) export by (simp add: snapshot_export_def split_beta snap_def [symmetric] snapshot_serialize_def)
  qed
  moreover have "import_all cs importer_new (\<lambda>im. is_complete im \<and> unwrapped (finalize de im)
      (\<lambda>snap. length (dbs_namespaces snap) = 1))"
    using import_all_chunks [OF export bs(2) len refl, of de] one bs(4)
    by (intro import_all_if) (simp_all add: Let_def snapshot_deserialize_def)
  ultimately show ?thesis by (simp add: test_snapshot_export_import_def)
qed

end
