(* ===== verification/Store_Tests.thy ===== *)
theory Store_Tests
  imports Unit_Tests Persist
begin

section \<open>The unit tests of the change stores\<close>

text \<open>
  The tests of \<open>persist.rs\<close> on the model, in the style of \<open>Unit_Tests\<close>.
  A temporary directory is a healthy disk without names; \<open>entries\<close> is a listing of
  it. What is relied on of \<open>bincode\<close> is said of the changes a test makes.
\<close>

subsection \<open>Steps of the tests\<close>

type_synonym store_state = "disk \<times> file_store"

definition opened ::
  "store_lib \<Rightarrow> string list \<Rightarrow> nat \<Rightarrow> disk \<Rightarrow> (store_state \<Rightarrow> bool) \<Rightarrow> bool" where
  "opened lib entries threshold d k \<longleftrightarrow>
     (case file_store_new lib entries (\<lambda>name. True) threshold d of (Ok st, d') \<Rightarrow> k (d', st) | _ \<Rightarrow> False)"

fun appended :: "store_lib \<Rightarrow> change list \<Rightarrow> store_state \<Rightarrow> (store_state \<Rightarrow> bool) \<Rightarrow> bool" where
  "appended lib [] s k = k s"
| "appended lib (c # cs) s k = (case file_append lib s c of (Ok _, s') \<Rightarrow> appended lib cs s' k | _ \<Rightarrow> False)"

definition flushed :: "store_lib \<Rightarrow> store_state \<Rightarrow> (store_state \<Rightarrow> bool) \<Rightarrow> bool" where
  "flushed lib s k \<longleftrightarrow> (case file_flush lib s of (Ok _, s') \<Rightarrow> k s' | _ \<Rightarrow> False)"

definition closed :: "store_lib \<Rightarrow> store_state \<Rightarrow> (disk \<Rightarrow> bool) \<Rightarrow> bool" where
  "closed lib s k \<longleftrightarrow> (case file_close lib s of (Ok _, d, st) \<Rightarrow> k d | _ \<Rightarrow> False)"

definition write_file :: "string \<Rightarrow> bytes \<Rightarrow> disk \<Rightarrow> disk" where
  "write_file name bs d = (case disk_create name d of (i, d') \<Rightarrow> disk_put i bs d')"

text \<open>The changes of the loops: \<open>u32\<close> bytes for keys and values, or numbered texts.\<close>

definition byte_changes :: "(nat \<Rightarrow> uuid) \<Rightarrow> int \<Rightarrow> nat \<Rightarrow> change list" where
  "byte_changes ids now n =
     map (\<lambda>i. change_set (ids i) now ''ns'' ''db'' (to_le_bytes (of_nat i)) (to_le_bytes (of_nat i))) [0..<n]"

definition text_changes :: "(nat \<Rightarrow> uuid) \<Rightarrow> int \<Rightarrow> nat \<Rightarrow> change list" where
  "text_changes ids now n =
     map (\<lambda>i. change_of ids now i ''ns'' ''db'' (''key'' @ show_nat i) (''value'' @ show_nat i)) [0..<n]"

lemma length_test_changes [simp]: "length (byte_changes ids now n) = n" "length (text_changes ids now n) = n"
  by (simp_all add: byte_changes_def text_changes_def)

subsection \<open>The tests\<close>

definition test_memory_store :: "(nat \<Rightarrow> uuid) \<Rightarrow> int \<Rightarrow> bool" where
  "test_memory_store ids now \<longleftrightarrow>
     (let (r, store) = memory_append [] (change_of ids now 0 ''ns'' ''db'' ''key'' ''value'')
      in unwrapped r (\<lambda>off. off = 0) \<and> memory_tail_offset store = 1
         \<and> unwrapped (memory_get_since store 0) (\<lambda>changes. length changes = 1))"

definition test_file_store_basic :: "store_lib \<Rightarrow> string list \<Rightarrow> disk \<Rightarrow> (nat \<Rightarrow> uuid) \<Rightarrow> int \<Rightarrow> bool" where
  "test_file_store_basic lib entries dir ids now \<longleftrightarrow>
     opened lib entries 10 dir (\<lambda>store.
       let (r, store1) = file_append lib store (change_of ids now 0 ''ns'' ''db'' ''key'' ''value'')
       in unwrapped r (\<lambda>off. off = 0)
          \<and> flushed lib store1 (\<lambda>store2.
              unwrapped (file_get_since lib store2 0) (\<lambda>changes. length changes = 1)
              \<and> closed lib store2 (\<lambda>_. True)))"

definition test_file_store_multiple_changes ::
  "store_lib \<Rightarrow> string list \<Rightarrow> disk \<Rightarrow> (nat \<Rightarrow> uuid) \<Rightarrow> int \<Rightarrow> bool" where
  "test_file_store_multiple_changes lib entries dir ids now \<longleftrightarrow>
     opened lib entries 5 dir (\<lambda>store. appended lib (text_changes ids now 10) store (\<lambda>store1.
       file_tail_offset store1 = 10
       \<and> unwrapped (file_get_since lib store1 0) (\<lambda>changes. length changes = 10)
       \<and> closed lib store1 (\<lambda>_. True)))"

definition test_file_store_get_since :: "store_lib \<Rightarrow> string list \<Rightarrow> disk \<Rightarrow> (nat \<Rightarrow> uuid) \<Rightarrow> int \<Rightarrow> bool" where
  "test_file_store_get_since lib entries dir ids now \<longleftrightarrow>
     opened lib entries 10 dir (\<lambda>store. appended lib (byte_changes ids now 10) store (\<lambda>store1.
       flushed lib store1 (\<lambda>store2.
         unwrapped (file_get_since lib store2 5) (\<lambda>changes. length changes = 5)
         \<and> unwrapped (file_get_since lib store2 10) (\<lambda>changes. changes = [])
         \<and> closed lib store2 (\<lambda>_. True))))"

definition test_file_store_reopen ::
  "store_lib \<Rightarrow> string list \<Rightarrow> string list \<Rightarrow> disk \<Rightarrow> (nat \<Rightarrow> uuid) \<Rightarrow> int \<Rightarrow> bool" where
  "test_file_store_reopen lib entries entries' dir ids now \<longleftrightarrow>
     opened lib entries 10 dir (\<lambda>store1. appended lib (byte_changes ids now 5) store1 (\<lambda>store1.
       flushed lib store1 (\<lambda>store1. closed lib store1 (\<lambda>dir'.
         opened lib entries' 10 dir' (\<lambda>store2.
           unwrapped (file_get_since lib store2 0) (\<lambda>changes. length changes = 5)
           \<and> closed lib store2 (\<lambda>_. True))))))"

text \<open>The test takes the file out of the store.\<close>

definition test_file_store_flush_error_propagation ::
  "store_lib \<Rightarrow> string list \<Rightarrow> disk \<Rightarrow> (nat \<Rightarrow> uuid) \<Rightarrow> int \<Rightarrow> bool" where
  "test_file_store_flush_error_propagation lib entries dir ids now \<longleftrightarrow>
     opened lib entries 10 dir (\<lambda>store. appended lib (byte_changes ids now 5) store (\<lambda>(d, st).
       flushed lib (d, st\<lparr>fs_file := None\<rparr>) (\<lambda>store2. closed lib store2 (\<lambda>_. True))))"

definition test_change_store_manager :: "store_lib \<Rightarrow> (nat \<Rightarrow> uuid) \<Rightarrow> int \<Rightarrow> bool" where
  "test_change_store_manager lib ids now \<longleftrightarrow>
     (let manager = store_manager_in_memory;
          (r, store) = store_append lib (mg_store manager) (change_of ids now 0 ''ns'' ''db'' ''key'' ''value'')
      in is_ok r \<and> store_tail_offset store = 1
         \<and> is_ok (fst (store_manager_shutdown lib (manager\<lparr>mg_store := store\<rparr>))))"

definition test_base64_url_decode_integration :: bool where
  "test_base64_url_decode_integration \<longleftrightarrow>
     (let data = as_bytes ''HelloWorld123''; encoded = base64_url_encode data;
          data2 = as_bytes ''test-data_with-special''; encoded2 = base64_url_encode data2
      in unwrapped (base64_url_decode encoded) (\<lambda>decoded. data = decoded)
         \<and> unwrapped (base64_url_decode encoded2) (\<lambda>decoded2. data2 = decoded2))"

text \<open>The second and the third orphan of the test have the same name.\<close>

definition test_crash_recovery_temp_files :: "store_lib \<Rightarrow> string list \<Rightarrow> disk \<Rightarrow> bool" where
  "test_crash_recovery_temp_files lib entries dir \<longleftrightarrow>
     (let dir1 = write_file ''changes.tmp'' (as_bytes ''orphan temp data'') dir;
          dir2 = write_file ''changes.compacting.tmp'' (as_bytes ''orphan compacting data'') dir1;
          dir3 = write_file ''changes.compacting.tmp'' (as_bytes ''legacy data'') dir2
      in opened lib entries 10 dir3 (\<lambda>store.
           dk_names (fst store) ''changes.tmp'' = None
           \<and> dk_names (fst store) ''changes.compacting.tmp'' = None
           \<and> dk_names (fst store) ''changes.log'' \<noteq> None
           \<and> closed lib store (\<lambda>_. True)))"

definition test_recovery_preserves_main_log ::
  "store_lib \<Rightarrow> string list \<Rightarrow> string list \<Rightarrow> disk \<Rightarrow> (nat \<Rightarrow> uuid) \<Rightarrow> int \<Rightarrow> bool" where
  "test_recovery_preserves_main_log lib entries entries' dir ids now \<longleftrightarrow>
     opened lib entries 10 dir (\<lambda>store. appended lib (byte_changes ids now 5) store (\<lambda>store1.
       flushed lib store1 (\<lambda>store2. closed lib store2 (\<lambda>dir1.
         let dir2 = write_file ''changes.tmp'' (as_bytes ''orphan'') dir1
         in opened lib entries' 10 dir2 (\<lambda>store3.
              unwrapped (file_get_since lib store3 0) (\<lambda>changes. length changes = 5)
              \<and> closed lib store3 (\<lambda>_. True))))))"

subsection \<open>The model passes them\<close>

lemma plain_store_tests_pass:
  "test_memory_store ids now" "test_change_store_manager lib ids now" "test_base64_url_decode_integration"
  by (simp_all add: test_memory_store_def memory_append_def memory_tail_offset_def memory_get_since_def
      test_change_store_manager_def store_manager_in_memory_def store_manager_new_def store_manager_shutdown_def
      memory_close_def test_base64_url_decode_integration_def base64_decode_encode Let_def)

text \<open>Opening a fresh directory, and appending to a store that holds a history.\<close>

definition fresh :: "disk \<Rightarrow> bool" where
  "fresh d \<longleftrightarrow> healthy d \<and> dk_names d = Map.empty"

text \<open>A directory with nothing but the log, and the operations that leave its names alone.\<close>

definition lone :: "disk \<Rightarrow> bool" where
  "lone d \<longleftrightarrow> (\<exists>i < dk_next d. dk_names d = [log_name \<mapsto> i])"

lemma disk_append_frame:
  "dk_names (snd (disk_append i bs d)) = dk_names d" "dk_next (snd (disk_append i bs d)) = dk_next d"
  by (simp_all add: disk_append_def split: option.split)

lemma write_records_frame:
  "dk_names (snd (write_records lib i cs d)) = dk_names d \<and> dk_next (snd (write_records lib i cs d)) = dk_next d"
proof (induction cs arbitrary: d)
  case (Cons c cs)
  have "dk_names d1 = dk_names d \<and> dk_next d1 = dk_next d" if "disk_append i bs d = (r, d1)" for bs r d d1
    using disk_append_frame [of i bs d] that by simp
  then show ?case using Cons.IH by (auto split: sum.split prod.split outcome.split)
qed simp

lemma lone_frame: "dk_names d' = dk_names d \<Longrightarrow> dk_next d' = dk_next d \<Longrightarrow> lone d' \<longleftrightarrow> lone d"
  by (simp add: lone_def)

lemma lone_flush: "lone (fst (snd (file_flush lib s))) \<longleftrightarrow> lone (fst s)"
proof (rule lone_frame)
  obtain d st where s: "s = (d, st)" by force
  have "dk_names d1 = dk_names d \<and> dk_next d1 = dk_next d" if "write_records lib i cs d = (r, d1)" for i cs r d1
    using write_records_frame [of lib i cs d] that by simp
  then show "dk_names (fst (snd (file_flush lib s))) = dk_names (fst s)"
    "dk_next (fst (snd (file_flush lib s))) = dk_next (fst s)"
    by (auto simp: s file_flush_def Let_def split: option.split prod.split outcome.split)
qed

lemma lone_append: "lone (fst (snd (file_append lib s c))) \<longleftrightarrow> lone (fst s)"
proof -
  obtain d st where s: "s = (d, st)" by force
  show ?thesis
    using lone_flush [of lib "(d, st\<lparr>fs_tail := fs_tail st + 1, fs_buffer := fs_buffer st @ [c]\<rparr>)"]
    by (auto simp: s file_append_def Let_def split_beta)
qed

lemma lone_appends: "lone (fst (foldl (\<lambda>s c. snd (file_append lib s c)) s cs)) \<longleftrightarrow> lone (fst s)"
  by (induction cs arbitrary: s) (simp_all add: lone_append)

lemma lone_close: "lone (fst (snd (file_close lib s))) \<longleftrightarrow> lone (fst s)"
  using lone_flush [of lib s] by (auto simp: file_close_def split: prod.split outcome.split)

text \<open>Opening a directory without a log adds the log to what the recovery left.\<close>

lemma file_store_new_names:
  assumes "healthy d" "dk_names d log_name = None"
  shows "dk_names (snd (file_store_new lib entries removable threshold d))
       = (dk_names (recover_temp_files entries removable d))(log_name \<mapsto> dk_next d)"
    "dk_next (snd (file_store_new lib entries removable threshold d)) = dk_next d + 1"
  using assms
  by (simp_all add: file_store_new_def healthy_def disk_open_append_def Let_def initialize_file_def HEADER_SIZE_def
      write_header_def disk_append_room recover_temp_files_eq disk_put_def)

lemma recover_fresh [simp]: "dk_names d = Map.empty \<Longrightarrow> dk_names (recover_temp_files entries removable d) = Map.empty"
  by (auto simp: recover_temp_files_eq)

lemma opened_fresh:
  assumes "fresh dir" "threshold < DEFAULT_INDEX_INTERVAL"
    and "\<And>s. file_holds lib s [] \<Longrightarrow> fs_flush_threshold (snd s) = threshold \<Longrightarrow> lone (fst s) \<Longrightarrow> k s"
  shows "opened lib entries threshold dir k"
proof -
  obtain st d' where new: "file_store_new lib entries (\<lambda>name. True) threshold dir = (Ok st, d')"
    and holds: "file_holds lib (d', st) []"
    using file_store_new_fresh [of dir threshold] assms(1,2) by (fastforce simp: fresh_def)
  have "fs_flush_threshold st = threshold"
    using new by (auto simp: file_store_new_def Let_def split: if_splits prod.splits outcome.splits)
  moreover have "lone d'"
    using file_store_new_names [of dir lib entries "\<lambda>name. True" threshold] new assms(1)
    by (auto simp: lone_def fresh_def)
  ultimately show ?thesis using new assms(3) [OF holds] by (simp add: opened_def)
qed

lemma appended_holds:
  "file_holds lib s h \<Longrightarrow> list_all (record_ok lib) cs \<Longrightarrow> length h + length cs < 2 ^ 64 \<Longrightarrow>
     appended lib cs s k = k (foldl (\<lambda>s c. snd (file_append lib s c)) s cs)"
proof (induction cs arbitrary: s h)
  case (Cons c cs)
  have "fst (file_append lib s c) = Ok (of_nat (length h)) \<and> file_holds lib (snd (file_append lib s c)) (h @ [c])"
    by (rule file_log.append_holds [OF Cons.prems(1)]) (use Cons.prems in auto)
  then show ?case using Cons.IH [of "snd (file_append lib s c)" "h @ [c]"] Cons.prems
    by (cases "file_append lib s c") simp
qed simp

lemma flushed_holds: "file_holds lib s h \<Longrightarrow> flushed lib s k = k (snd (file_flush lib s))"
  using file_flush_holds [of lib s h] by (cases "file_flush lib s") (auto simp: flushed_def)

lemma closed_holds: "file_holds lib s h \<Longrightarrow> closed lib s (\<lambda>_. True)"
  using file_close_holds [of lib "fst s" "snd s" h]
  by (cases s; cases "file_close lib s") (force simp: closed_def)

lemma closed_empty: "fs_buffer (snd s) = [] \<Longrightarrow> closed lib s (\<lambda>_. True)"
  by (cases s) (simp add: closed_def file_close_def file_flush_def)

text \<open>The changes of the tests can be stored.\<close>

abbreviation storable :: "store_lib \<Rightarrow> change list \<Rightarrow> bool" where
  "storable lib cs \<equiv> list_all (record_small lib) cs"

text \<open>A fresh store after appending and flushing, and what it reads.\<close>

lemma stored:
  assumes "file_holds lib s []" "storable lib cs" "length cs < 2 ^ 64"
  defines "s1 \<equiv> foldl (\<lambda>s c. snd (file_append lib s c)) s cs"
  shows "appended lib cs s k = k s1" "file_holds lib s1 cs" "file_tail_offset s1 = of_nat (length cs)"
    "file_holds lib (snd (file_flush lib s1)) cs" "fs_buffer (snd (snd (file_flush lib s1))) = []"
    "file_get_since lib (snd (file_flush lib s1)) off = Ok (drop (unat off) cs)"
proof -
  note ok = small_ok [OF assms(2)]
  show "appended lib cs s k = k s1" unfolding s1_def by (rule appended_holds [OF assms(1) ok]) (use assms(3) in simp)
  show s1: "file_holds lib s1 cs" unfolding s1_def using file_log.appends_hold [OF assms(1) ok] assms(3) by simp
  from file_log.tail_holds [OF this] show "file_tail_offset s1 = of_nat (length cs)" .
  from file_flush_holds [OF s1] show "file_holds lib (snd (file_flush lib s1)) cs"
    "fs_buffer (snd (snd (file_flush lib s1))) = []" by blast+
  from file_get_flushed [OF this] show "file_get_since lib (snd (file_flush lib s1)) off = Ok (drop (unat off) cs)" .
qed

lemma file_store_basic_test_passes:
  assumes "fresh dir" "storable lib [change_of ids now 0 ''ns'' ''db'' ''key'' ''value'']"
  shows "test_file_store_basic lib entries dir ids now"
  unfolding test_file_store_basic_def
proof (rule opened_fresh [OF assms(1)])
  fix s assume s: "file_holds lib s []"
  let ?c = "change_of ids now 0 ''ns'' ''db'' ''key'' ''value''"
  from file_log.append_holds [OF s, of ?c] have r: "fst (file_append lib s ?c) = Ok 0"
    using assms(2) by (simp add: record_small_def)
  note stored = stored [OF s assms(2), simplified]
  show "let (r, store1) = file_append lib s ?c
    in unwrapped r (\<lambda>off. off = 0)
       \<and> flushed lib store1 (\<lambda>store2. unwrapped (file_get_since lib store2 0) (\<lambda>changes. length changes = 1)
           \<and> closed lib store2 (\<lambda>_. True))"
    using r stored(6) [of 0] closed_holds [OF stored(4)] flushed_holds [OF stored(2)] by (simp add: split_beta)
qed (simp add: DEFAULT_INDEX_INTERVAL_def)

lemma append_buffer:
  "length (fs_buffer (snd (snd (file_append lib s c)))) =
     (if fs_flush_threshold (snd s) \<le> length (fs_buffer (snd s)) + 1 then 0 else length (fs_buffer (snd s)) + 1)"
  "fs_flush_threshold (snd (snd (file_append lib s c))) = fs_flush_threshold (snd s)"
  by (auto simp: file_append_def file_flush_def Let_def split_beta split: option.split outcome.split)

lemma appends_buffer:
  "length (fs_buffer (snd s)) < fs_flush_threshold (snd s) \<Longrightarrow>
     length (fs_buffer (snd (foldl (\<lambda>s c. snd (file_append lib s c)) s cs)))
       = (length (fs_buffer (snd s)) + length cs) mod fs_flush_threshold (snd s)"
proof (induction cs arbitrary: s)
  case (Cons c cs)
  let ?s = "snd (file_append lib s c)"
  have "length (fs_buffer (snd ?s)) = (length (fs_buffer (snd s)) + 1) mod fs_flush_threshold (snd s)"
    "fs_flush_threshold (snd ?s) = fs_flush_threshold (snd s)"
    using Cons.prems append_buffer [of lib s c] by (simp_all add: mod_Suc)
  with Cons.IH [of ?s] Cons.prems show ?case by (simp add: mod_simps)
qed simp

lemma file_store_multiple_changes_test_passes:
  assumes "fresh dir" "storable lib (text_changes ids now 10)"
  shows "test_file_store_multiple_changes lib entries dir ids now"
  unfolding test_file_store_multiple_changes_def
proof (rule opened_fresh [OF assms(1)])
  fix s assume s: "file_holds lib s []" and threshold: "fs_flush_threshold (snd s) = 5"
  let ?cs = "text_changes ids now 10"
  define s1 where "s1 = foldl (\<lambda>s c. snd (file_append lib s c)) s ?cs"
  note stored = stored [OF s assms(2), simplified, folded s1_def]
  have "fs_buffer (snd s) = []" using s by (cases s) (auto simp: file_holds_def split: option.splits)
  then have "fs_buffer (snd s1) = []"
    using appends_buffer [of s lib ?cs] threshold by (simp add: s1_def)
  from file_get_flushed [OF stored(2) this] closed_holds [OF stored(2)]
  show "appended lib ?cs s (\<lambda>store1. file_tail_offset store1 = 10
      \<and> unwrapped (file_get_since lib store1 0) (\<lambda>changes. length changes = 10) \<and> closed lib store1 (\<lambda>_. True))"
    by (simp add: stored(1,3))
qed (simp add: DEFAULT_INDEX_INTERVAL_def)

lemma file_store_get_since_test_passes:
  assumes "fresh dir" "storable lib (byte_changes ids now 10)"
  shows "test_file_store_get_since lib entries dir ids now"
  unfolding test_file_store_get_since_def
proof (rule opened_fresh [OF assms(1)])
  fix s assume s: "file_holds lib s []"
  note stored = stored [OF s assms(2), simplified]
  show "appended lib (byte_changes ids now 10) s (\<lambda>store1. flushed lib store1 (\<lambda>store2.
      unwrapped (file_get_since lib store2 5) (\<lambda>changes. length changes = 5)
      \<and> unwrapped (file_get_since lib store2 10) (\<lambda>changes. changes = []) \<and> closed lib store2 (\<lambda>_. True)))"
    using closed_holds [OF stored(4)] by (simp add: stored(1,6) flushed_holds [OF stored(2)])
qed (simp add: DEFAULT_INDEX_INTERVAL_def)

text \<open>Closing, and opening again with or without an orphaned temporary file.\<close>

definition log_closed :: "store_lib \<Rightarrow> change list \<Rightarrow> disk \<Rightarrow> bool" where
  "log_closed lib cs d \<longleftrightarrow> (\<exists>i. dk_names d log_name = Some i \<and> dk_data d i = log_header @ log_bytes lib cs)
     \<and> dk_dir_ok d \<and> dk_open_ok d"

lemma closed_then:
  assumes "file_holds lib s h" "lone (fst s)" "\<And>d. log_closed lib h d \<Longrightarrow> lone d \<Longrightarrow> k d"
  shows "closed lib s k"
proof -
  obtain r d st where close: "file_close lib s = (r, d, st)" by (metis prod_cases3)
  have "r = Ok () \<and> log_closed lib h d"
    using file_close_holds [of lib "fst s" "snd s" h r d st] assms(1) close by (simp add: log_closed_def)
  moreover have "lone d" using lone_close [of lib s] assms(2) close by simp
  ultimately show ?thesis using assms(3) close by (simp add: closed_def)
qed

lemma reopened:
  assumes "log_closed lib cs d" "storable lib cs" "length cs + 1 < 2 ^ 64" "length cs = n"
  shows "opened lib entries threshold d (\<lambda>s. unwrapped (file_get_since lib s 0) (\<lambda>changes. length changes = n)
     \<and> closed lib s (\<lambda>_. True))"
proof -
  obtain i where "dk_names d log_name = Some i" "dk_data d i = log_header @ log_bytes lib cs" "dk_dir_ok d" "dk_open_ok d"
    using assms(1) by (auto simp: log_closed_def)
  from log_reopened [OF this(3,4,1,2) assms(2,3), of entries "\<lambda>name. True" threshold]
  obtain st d' where "file_store_new lib entries (\<lambda>name. True) threshold d = (Ok st, d')" "fs_buffer st = []"
    "file_get_since lib (d', st) 0 = Ok cs" by blast
  with assms(4) show ?thesis by (simp add: opened_def closed_empty)
qed

lemma write_file_log_closed:
  assumes "log_closed lib cs d" "lone d" "name \<noteq> log_name"
  shows "log_closed lib cs (write_file name bs d)"
  using assms by (auto simp: log_closed_def lone_def write_file_def disk_create_def disk_open_append_def disk_put_def)

lemma stored_lone:
  "lone (fst s) \<Longrightarrow> lone (fst (snd (file_flush lib (foldl (\<lambda>s c. snd (file_append lib s c)) s cs))))"
  by (simp add: lone_flush lone_appends)

lemma reopen_tests_pass:
  assumes "fresh dir" "storable lib (byte_changes ids now 5)"
  shows "test_file_store_reopen lib entries entries' dir ids now"
    "test_recovery_preserves_main_log lib entries entries' dir ids now"
proof -
  let ?cs = "byte_changes ids now 5"
  have reopen: "opened lib entries' 10 d (\<lambda>s. unwrapped (file_get_since lib s 0) (\<lambda>changes. length changes = 5)
      \<and> closed lib s (\<lambda>_. True))" if "log_closed lib ?cs d" for d
    by (rule reopened [OF that assms(2)]) simp_all
  have run: "opened lib entries 10 dir (\<lambda>s. appended lib ?cs s (\<lambda>s. flushed lib s (\<lambda>s. closed lib s k)))"
    if k: "\<And>d. log_closed lib ?cs d \<Longrightarrow> lone d \<Longrightarrow> k d" for k
  proof (rule opened_fresh [OF assms(1)])
    fix s assume s: "file_holds lib s []" and lone: "lone (fst s)"
    note stored = stored [OF s assms(2), simplified]
    have "closed lib (snd (file_flush lib (foldl (\<lambda>s c. snd (file_append lib s c)) s ?cs))) k"
      by (rule closed_then [OF stored(4) stored_lone [OF lone] k])
    then show "appended lib ?cs s (\<lambda>s. flushed lib s (\<lambda>s. closed lib s k))"
      by (simp add: stored(1) flushed_holds [OF stored(2)])
  qed (simp add: DEFAULT_INDEX_INTERVAL_def)
  show "test_file_store_reopen lib entries entries' dir ids now"
    unfolding test_file_store_reopen_def by (rule run, rule reopen)
  have "''changes.tmp'' \<noteq> log_name" by (simp add: log_name_def)
  then show "test_recovery_preserves_main_log lib entries entries' dir ids now"
    unfolding test_recovery_preserves_main_log_def Let_def
    by (intro run reopen write_file_log_closed)
qed

text \<open>
  Without its file a store flushes with success. The test calls the buffered changes not lost and
  written at the close; they are dropped with the first flush, and the disk stays as it was.
\<close>

lemma flush_without_file:
  "file_flush lib (d, st\<lparr>fs_file := None\<rparr>) = (Ok (), d, st\<lparr>fs_file := None, fs_buffer := []\<rparr>)"
  by (simp add: file_flush_def Let_def)

lemma flush_error_test_passes:
  assumes "fresh dir" "storable lib (byte_changes ids now 5)"
  shows "test_file_store_flush_error_propagation lib entries dir ids now"
  unfolding test_file_store_flush_error_propagation_def
proof (rule opened_fresh [OF assms(1)])
  fix s assume "file_holds lib s []"
  note stored = stored [OF this assms(2), simplified]
  show "appended lib (byte_changes ids now 5) s (\<lambda>(d, st).
      flushed lib (d, st\<lparr>fs_file := None\<rparr>) (\<lambda>store2. closed lib store2 (\<lambda>_. True)))"
    by (simp add: stored(1) split_beta flushed_def flush_without_file closed_empty)
qed (simp add: DEFAULT_INDEX_INTERVAL_def)

text \<open>The orphans of a crash are removed when the directory is opened.\<close>

lemma write_file_frame:
  "dk_room (write_file name bs d) = dk_room d" "dk_sync_ok (write_file name bs d) = dk_sync_ok d"
  "dk_dir_ok (write_file name bs d) = dk_dir_ok d" "dk_open_ok (write_file name bs d) = dk_open_ok d"
  "name \<noteq> log_name \<Longrightarrow> dk_names (write_file name bs d) log_name = dk_names d log_name"
  by (auto simp: write_file_def disk_create_def disk_open_append_def disk_put_def split: option.split)

lemma crash_recovery_test_passes:
  assumes "fresh dir" "set entries = {''changes.tmp'', ''changes.compacting.tmp''}"
  shows "test_crash_recovery_temp_files lib entries dir"
proof -
  define d where "d = write_file ''changes.compacting.tmp'' (as_bytes ''legacy data'')
    (write_file ''changes.compacting.tmp'' (as_bytes ''orphan compacting data'')
      (write_file ''changes.tmp'' (as_bytes ''orphan temp data'') dir))"
  have names: "''changes.tmp'' \<noteq> log_name" "''changes.compacting.tmp'' \<noteq> log_name" by (simp_all add: log_name_def)
  have d: "healthy d" "dk_names d log_name = None"
    using assms(1) names by (simp_all add: d_def healthy_def fresh_def write_file_frame)
  have temps: "classify_temp ''changes.tmp'' \<noteq> None" "temp_name = ''changes.compacting.tmp''"
    by (simp_all add: classify_temp_def path_split_def Let_def temp_name_def)
  obtain st d' where new: "file_store_new lib entries (\<lambda>name. True) 10 d = (Ok st, d')"
    and holds: "file_holds lib (d', st) []"
    using file_store_new_fresh [OF d, of 10] by (fastforce simp: DEFAULT_INDEX_INTERVAL_def)
  have "dk_names d' = (dk_names (recover_temp_files entries (\<lambda>name. True) d))(log_name \<mapsto> dk_next d)"
    using file_store_new_names(1) [OF d, of lib entries "\<lambda>name. True" 10] new by simp
  then have "dk_names d' ''changes.tmp'' = None" "dk_names d' ''changes.compacting.tmp'' = None"
    "dk_names d' log_name \<noteq> None"
    using assms(2) temps names by (simp_all add: recover_temp_files_eq)
  then show ?thesis
    using new closed_holds [OF holds]
    by (simp add: test_crash_recovery_temp_files_def opened_def Let_def log_name_def flip: d_def)
qed

end
