(* ===== verification/Integration_Tests.thy ===== *)
theory Integration_Tests
  imports Unit_Tests Batch
begin

section \<open>The integration tests (\<open>tests/integration.rs\<close>)\<close>

text \<open>
  The tests of the public interface on the model, in the style of \<open>Unit_Tests\<close>. A
  timeout of a second around a \<open>recv\<close> is not reached: a receiver that has an event
  gets it at once, and one without would wait until the timeout, which fails the test.
\<close>

subsection \<open>Notifications\<close>

type_synonym ('tx, 'rx) channels = "nat \<Rightarrow> ('tx \<times> 'rx) option"

text \<open>The loop that receives up to three events.\<close>

fun receive_loop ::
  "('tx, 'rx, 'e) broadcast_recv \<Rightarrow> 'tx notifier \<Rightarrow> nat \<Rightarrow> 'rx subscription \<Rightarrow> nat" where
  "receive_loop recv n 0 sub = 0"
| "receive_loop recv n (Suc k) sub =
     (case recv_event recv n sub of
        Some (Some e, sub') \<Rightarrow> Suc (receive_loop recv n k sub')
      | _ \<Rightarrow> 0)"

definition integration_change_notifier ::
  "('tx, 'rx) channels \<Rightarrow> ('tx \<Rightarrow> nat change_event \<Rightarrow> bool \<times> 'tx)
     \<Rightarrow> ('tx, 'rx, nat change_event) broadcast_recv \<Rightarrow> (nat \<Rightarrow> uuid) \<Rightarrow> int \<Rightarrow> bool" where
  "integration_change_notifier channel send recv ids now \<longleftrightarrow>
     (case subscribe channel filter_everything (notifier_new 10) of
        (Ok subscription, n) \<Rightarrow>
          let published = foldl (\<lambda>n i. notify send (change_event_new now EventSet
                (change_set (ids i) now ''ns'' ''db'' [of_nat i] [of_nat i]) (of_nat i)) n) n [0..<3]
          in receive_loop recv published 3 subscription = 3
      | _ \<Rightarrow> False)"

text \<open>A hook that counts the changes.\<close>

definition test_hook :: "('id, nat) storage_hook" where
  "test_hook = \<lparr>on_change = (\<lambda>c n. n + 1), on_sync_request = (\<lambda>p n. n), on_sync_complete = (\<lambda>p k n. n)\<rparr>"

text \<open>A subscriber, some events, and one receive.\<close>

definition received_after ::
  "('tx, 'rx) channels \<Rightarrow> ('tx \<Rightarrow> nat change_event \<Rightarrow> bool \<times> 'tx)
     \<Rightarrow> ('tx, 'rx, nat change_event) broadcast_recv \<Rightarrow> subscription_filter \<Rightarrow> nat change_event list
     \<Rightarrow> nat change_event option" where
  "received_after channel send recv flt events =
     (case subscribe channel flt (notifier_new 10) of
        (Ok subscription, n) \<Rightarrow>
          (case recv_event recv (foldl (\<lambda>n e. notify send e n) n events) subscription of
             Some (event, _) \<Rightarrow> event
           | None \<Rightarrow> None)
      | _ \<Rightarrow> None)"

definition test_subscription_filter_matching ::
  "('tx, 'rx) channels \<Rightarrow> ('tx \<Rightarrow> nat change_event \<Rightarrow> bool \<times> 'tx)
     \<Rightarrow> ('tx, 'rx, nat change_event) broadcast_recv \<Rightarrow> (nat \<Rightarrow> uuid) \<Rightarrow> int \<Rightarrow> bool" where
  "test_subscription_filter_matching channel send recv ids now \<longleftrightarrow>
     received_after channel send recv (with_namespace ''ns1'' filter_everything)
       [set_event ids now 0 ''ns1'' ''db1'' ''key1'' ''val1'' 1,
        set_event ids now 1 ''ns2'' ''db1'' ''key2'' ''val2'' 2] \<noteq> None"

definition test_subscription_filter_with_db ::
  "('tx, 'rx) channels \<Rightarrow> ('tx \<Rightarrow> nat change_event \<Rightarrow> bool \<times> 'tx)
     \<Rightarrow> ('tx, 'rx, nat change_event) broadcast_recv \<Rightarrow> (nat \<Rightarrow> uuid) \<Rightarrow> int \<Rightarrow> bool" where
  "test_subscription_filter_with_db channel send recv ids now \<longleftrightarrow>
     received_after channel send recv (with_database ''db1'' (with_namespace ''ns1'' filter_everything))
       [set_event ids now 0 ''ns1'' ''db1'' ''key'' ''val'' 1] \<noteq> None"

definition test_change_event_types :: bool where
  "test_change_event_types \<longleftrightarrow>
     event_type_display EventSet = ''set'' \<and> event_type_display EventDelete = ''delete''
     \<and> event_type_display EventBatch = ''batch''"

definition test_filter_everything_matches :: "(nat \<Rightarrow> uuid) \<Rightarrow> int \<Rightarrow> bool" where
  "test_filter_everything_matches ids now \<longleftrightarrow>
     filter_matches filter_everything (set_event ids now 0 ''ns1'' ''db1'' ''key'' ''value'' 1 :: nat change_event)"

definition test_filter_namespace_mismatch :: "(nat \<Rightarrow> uuid) \<Rightarrow> int \<Rightarrow> bool" where
  "test_filter_namespace_mismatch ids now \<longleftrightarrow>
     \<not> filter_matches (with_namespace ''ns1'' filter_everything)
         (set_event ids now 0 ''ns2'' ''db1'' ''key'' ''value'' 1 :: nat change_event)"

subsection \<open>Changes and batches\<close>

definition test_change_batch_operations :: "(nat \<Rightarrow> uuid) \<Rightarrow> int \<Rightarrow> nat \<Rightarrow> bool" where
  "test_change_batch_operations ids now instant \<longleftrightarrow>
     (let batch = tx_batch_new instant [change_of ids now 0 ''ns'' ''db'' ''key1'' ''val1'',
            change_of ids now 1 ''ns'' ''db'' ''key2'' ''val2''] 0
      in tx_batch_len batch = 2 \<and> \<not> tx_batch_is_empty batch)"

definition test_change_creation :: "(nat \<Rightarrow> uuid) \<Rightarrow> int \<Rightarrow> bool" where
  "test_change_creation ids now \<longleftrightarrow>
     (let c = change_of ids now 0 ''ns'' ''db'' ''key'' ''value'' in ch_namespace c = ''ns'' \<and> ch_database c = ''db'')"

definition test_change_deletion :: "(nat \<Rightarrow> uuid) \<Rightarrow> int \<Rightarrow> bool" where
  "test_change_deletion ids now \<longleftrightarrow>
     (let c = change_delete (ids 0) now ''ns'' ''db'' (as_bytes ''key'')
      in ch_namespace c = ''ns'' \<and> ch_database c = ''db'' \<and> ch_value c = None)"

definition test_multi_namespace_db :: "(nat \<Rightarrow> uuid) \<Rightarrow> int \<Rightarrow> bool" where
  "test_multi_namespace_db ids now \<longleftrightarrow>
     (let pairs = List.product [''ns1'', ''ns2'', ''ns3''] [''db1'', ''db2'']
      in list_all (\<lambda>(ns, db). let c = change_of ids now 0 ns db ''key'' ''value''
            in ch_namespace c = ns \<and> ch_database c = db) pairs
         \<and> length pairs = 6)"

definition test_empty_key_value :: "(nat \<Rightarrow> uuid) \<Rightarrow> int \<Rightarrow> bool" where
  "test_empty_key_value ids now \<longleftrightarrow>
     (let c = change_set (ids 0) now ''ns'' ''db'' [] []
      in (case ch_key c of Some k \<Rightarrow> k = [] | None \<Rightarrow> True) \<and> (case ch_value c of Some v \<Rightarrow> v = [] | None \<Rightarrow> True))"

definition test_large_value :: "(nat \<Rightarrow> uuid) \<Rightarrow> int \<Rightarrow> bool" where
  "test_large_value ids now \<longleftrightarrow>
     (let large_value = replicate (100 * 1024) 0;
          c = change_set (ids 0) now ''ns'' ''db'' (as_bytes ''large-key'') large_value
      in (case ch_value c of Some v \<Rightarrow> length v | None \<Rightarrow> 0) = 100 * 1024)"

subsection \<open>The model passes them\<close>

lemma change_integration_tests_pass:
  "test_change_batch_operations ids now instant" "test_change_creation ids now" "test_change_deletion ids now"
  "test_multi_namespace_db ids now" "test_empty_key_value ids now" "test_large_value ids now"
  "test_change_event_types" "test_filter_everything_matches ids now" "test_filter_namespace_mismatch ids now"
  by (simp_all add: test_change_batch_operations_def tx_batch_len_def tx_batch_is_empty_def tx_batch_new_def
      test_change_creation_def test_change_deletion_def change_delete_def test_multi_namespace_db_def
      test_empty_key_value_def test_large_value_def change_set_def test_change_event_types_def event_type_display_def
      test_filter_everything_matches_def test_filter_namespace_mismatch_def filter_matches_iff filter_everything_def
      Notify.with_namespace_def push_opt_def set_event_def change_event_new_def Let_def)

text \<open>A lone subscriber holds every event published since, and receives them in order.\<close>

definition lone_subscriber ::
  "('tx \<Rightarrow> 'e list) \<Rightarrow> ('rx \<Rightarrow> nat) \<Rightarrow> subscription_filter \<Rightarrow> 'tx notifier \<Rightarrow> 'rx subscription
     \<Rightarrow> 'e list \<Rightarrow> nat \<Rightarrow> bool" where
  "lone_subscriber sent next_event flt n sub events k \<longleftrightarrow>
     (\<exists>tx. fmlookup (nf_subscribers n) (sp_id sub) = Some \<lparr>sb_filter = flt, sb_sender = tx\<rparr> \<and> sent tx = events)
     \<and> next_event (sp_rx sub) = k"

lemma lone_subscribed:
  assumes "broadcast_channel channel send recv sent next_event"
  obtains n sub where "subscribe channel flt (notifier_new 10) = (Ok sub, n)"
    and "lone_subscriber sent next_event flt n sub [] 0"
  by (rule subscribed_once [OF assms, of 10 flt]) (simp_all add: lone_subscriber_def that)

lemma lone_notified:
  assumes "broadcast_channel channel send recv sent next_event"
    and "lone_subscriber sent next_event flt n sub events k"
  shows "lone_subscriber sent next_event flt (foldl (\<lambda>n e. notify send e n) n es) sub (events @ es) k"
  using assms(2)
proof (induction es arbitrary: n events)
  case (Cons e es)
  have "lone_subscriber sent next_event flt (notify send e n) sub (events @ [e]) k"
    using assms(1) Cons.prems by (auto simp: lone_subscriber_def notify_def broadcast_channel_def)
  from Cons.IH [OF this] show ?case by simp
qed simp

lemma lone_received:
  assumes "broadcast_channel channel send recv sent next_event"
    and "lone_subscriber sent next_event flt n sub events k" "k < length events" "length events \<le> 10"
  obtains sub' where "recv_event recv n sub = Some (Some (events ! k), sub')"
    and "lone_subscriber sent next_event flt n sub' events (k + 1)"
proof -
  obtain tx where tx: "fmlookup (nf_subscribers n) (sp_id sub) = Some \<lparr>sb_filter = flt, sb_sender = tx\<rparr>" "sent tx = events"
    and k: "next_event (sp_rx sub) = k"
    using assms(2) by (auto simp: lone_subscriber_def)
  obtain rx where "recv_event recv n sub = Some (Some (events ! k), sub\<lparr>sp_rx := rx\<rparr>)" "next_event rx = k + 1"
    using recv_sent [OF assms(1) tx(1)] tx(2) k assms(3,4) by metis
  then show thesis using tx by (intro that [of "sub\<lparr>sp_rx := rx\<rparr>"]) (simp_all add: lone_subscriber_def)
qed

lemma receive_loop_all:
  assumes channel: "broadcast_channel channel send recv sent next_event"
  shows "lone_subscriber sent next_event flt n sub events k \<Longrightarrow> k + m \<le> length events \<Longrightarrow> length events \<le> 10
     \<Longrightarrow> receive_loop recv n m sub = m"
proof (induction m arbitrary: k sub)
  case (Suc m)
  then obtain sub' where "recv_event recv n sub = Some (Some (events ! k), sub')"
    and "lone_subscriber sent next_event flt n sub' events (k + 1)"
    using lone_received [OF channel Suc.prems(1)] by auto
  then show ?case using Suc.IH [of sub' "k + 1"] Suc.prems by simp
qed simp

lemma received_first:
  assumes channel: "broadcast_channel channel send recv sent next_event" and "length (e # es) \<le> 10"
  shows "received_after channel send recv flt (e # es) = Some e"
proof -
  obtain n sub where sub: "subscribe channel flt (notifier_new 10) = (Ok sub, n)"
    and n: "lone_subscriber sent next_event flt n sub [] 0"
    by (rule lone_subscribed [OF channel])
  obtain sub' where "recv_event recv (foldl (\<lambda>n e. notify send e n) n (e # es)) sub = Some (Some e, sub')"
    using lone_received [OF channel lone_notified [OF channel n, of "e # es"]] assms(2) by auto
  with sub show ?thesis by (simp add: received_after_def)
qed

lemma notifier_integration_tests_pass:
  assumes channel: "broadcast_channel channel send recv sent next_event"
  shows "integration_change_notifier channel send recv ids now"
    "test_subscription_filter_matching channel send recv ids now"
    "test_subscription_filter_with_db channel send recv ids now"
proof -
  let ?event = "\<lambda>i. change_event_new now EventSet (change_set (ids i) now ''ns'' ''db'' [of_nat i] [of_nat i]) (of_nat i)"
  obtain n sub where sub: "subscribe channel filter_everything (notifier_new 10) = (Ok sub, n)"
    and n: "lone_subscriber sent next_event filter_everything n sub [] 0"
    by (rule lone_subscribed [OF channel])
  have "receive_loop recv (foldl (\<lambda>n e. notify send e n) n (map ?event [0..<3])) 3 sub = 3"
    by (rule receive_loop_all [OF channel lone_notified [OF channel n]]) simp_all
  then show "integration_change_notifier channel send recv ids now"
    by (simp add: integration_change_notifier_def sub foldl_map Let_def)
qed (simp_all add: test_subscription_filter_matching_def test_subscription_filter_with_db_def
       received_first [OF channel])

text \<open>
  The filter of a subscription is not consulted on the way: also the event of the other namespace
  reaches the subscriber, which the test does not look for.
\<close>

lemma filtered_event_received:
  assumes "broadcast_channel channel send recv sent next_event"
  shows "received_after channel send recv (with_namespace ''ns1'' filter_everything)
     [set_event ids now 1 ''ns2'' ''db1'' ''key2'' ''val2'' 2] = Some (set_event ids now 1 ''ns2'' ''db1'' ''key2'' ''val2'' 2)"
  by (rule received_first [OF assms]) simp

end
