(* ===== verification/Spec2Isabelle.thy ===== *)
theory Spec2Isabelle
  imports Config Persist Batch Notify Pool Snapshot Compress Hook Retry Reputation Base64_Reference
    Concurrent_Log Concurrent_Store Concurrent_Batch Connections Concurrent_Notify Flush_Task Lock_Order Node
    Dialogue
    Telemetry_Setup Metered Benchmarks Example_Programs Unit_Tests Log_Tests Store_Tests Integration_Tests
begin

text \<open>
  A verification of the crate \<open>surrealdb-iroh\<close>: peer-to-peer replication of database changes
  over iroh (QUIC) connections.

  \<^bold>\<open>The program.\<close> A host database records changes through a \<open>ReplicatorRunner\<close>
  (\<open>src/hook.rs\<close>): a bounded queue, a task that takes one change after the other, the
  registered hooks, and a \<open>Replicator\<close> (\<open>src/replicator.rs\<close>) that owns the endpoint, the
  discovery manager (\<open>src/discovery.rs\<close>: peer table, tickets in base64url JSON) and the sync
  manager (\<open>src/sync.rs\<close>: the in-memory change log, its offset and the peer states). Incoming
  connections are served and outgoing ones driven by \<open>src/protocol.rs\<close>, which exchanges
  length-prefixed JSON messages (\<open>src/change.rs\<close>) and reads and writes the sync manager. The
  main loop of the replicator ticks, connects to peers that are not synchronized, and ends on a
  shutdown signal. Around this core stand parts that the crate exports and that its core does not
  call: change stores on disk (\<open>persist.rs\<close>), batching (\<open>batch.rs\<close>, over the sync manager), full
  state transfer (\<open>snapshot.rs\<close>), compression (\<open>compress.rs\<close>), notifications (\<open>notify.rs\<close>), the
  connection pool (\<open>pool.rs\<close>), retries (\<open>retry.rs\<close>), peer reputation (\<open>reputation.rs\<close>) and
  telemetry (\<open>telemetry.rs\<close>).

  \<^bold>\<open>The theories\<close>, each with the records, datatypes and operations of its file under
  \<open>src\<close>, in the order of the code:

  \<^item> \<open>Prelude\<close>: machine integers as words, \<open>outcome\<close> (a value, an error, a panic), the slice and
    stream operations of the standard library, lists of map entries as iteration orders, the named
    theorem collections, and the locales below.
  \<^item> \<open>Float64\<close>: \<open>f64\<close> as IEEE binary64, rounding to nearest even over rationals; signed zeros are
    one value. It models the language, so it corresponds to no file.
  \<^item> \<open>Common\<close> (\<open>common.rs\<close>), \<open>Base64_Reference\<close> (the encoder of \<open>common.rs\<close> against RFC 4648),
    \<open>Error_Types\<close> (\<open>error.rs\<close>), \<open>Config\<close> (\<open>config.rs\<close>), \<open>Change\<close> (\<open>change.rs\<close>).
  \<^item> \<open>Sync_Manager\<close> (\<open>sync.rs\<close>): \<open>sync_manager\<close> is \<open>SyncManager\<close>; the abstract log is the
    history of recorded changes, and \<open>represents\<close> relates the two.
  \<^item> \<open>Protocol\<close> (\<open>protocol.rs\<close>): \<open>process_message\<close> and \<open>serve_frame\<close> are the server's turn,
    \<open>handle_loop\<close> its loop, \<open>client_loop\<close> and \<open>connect_and_sync\<close> the other end. A \<open>link\<close> gives what
    the network does. \<open>session_step\<close> composes both ends over two queues of whole messages;
    \<open>Dialogue\<close> composes them over the bytes of one stream, with every way out of the two loops.
  \<^item> \<open>Discovery\<close> (\<open>discovery.rs\<close>), \<open>Replicator\<close> (\<open>replicator.rs\<close>, with the lifecycle as the step
    relation \<open>rep_step\<close>), \<open>Hook\<close> (\<open>hook.rs\<close>, the runner as \<open>runner_step\<close>).
  \<^item> \<open>Persist\<close> (\<open>persist.rs\<close>): the log file in a directory of names and inodes with limited room
    and failing \<open>fsync\<close>; the memory store; the manager over either.
  \<^item> \<open>Batch\<close> (\<open>batch.rs\<close>), \<open>Snapshot\<close> (\<open>snapshot.rs\<close>), \<open>Compress\<close> (\<open>compress.rs\<close>), \<open>Notify\<close>
    (\<open>notify.rs\<close>), \<open>Pool\<close> (\<open>pool.rs\<close>), \<open>Retry\<close> (\<open>retry.rs\<close>), \<open>Reputation\<close> (\<open>reputation.rs\<close>),
    \<open>Telemetry\<close> and \<open>Telemetry_Setup\<close> (\<open>telemetry.rs\<close>: recording, and the names, buckets and
    set-up).
  \<^item> \<open>Concurrent_Log\<close>: the two sections of \<open>SyncManager::record_change\<close>, and of \<open>snapshot\<close>, under
    any interleaving of recording threads and requests. \<open>Connections\<close>: the sections of
    \<open>handle_connection\<close> and \<open>connect_and_sync\<close>, and any number of connections and recording threads
    over one sync manager. \<open>Node\<close>: a whole node, that is a runner with its replicator, the accept tasks of every
    start and all connections over its one sync manager, through any number of restarts.
    \<open>Concurrent_Store\<close>: the sections of \<open>append\<close> and \<open>flush\<close> of a shared file store.
    \<open>Concurrent_Batch\<close>: the sections of \<open>add\<close>, \<open>flush\<close> and the flush task of a shared batcher.
    \<open>Concurrent_Notify\<close>: the sections of \<open>notify_local\<close>, \<open>notify\<close> and \<open>notify_sync\<close> of a shared notifier.
    \<open>Flush_Task\<close>: starts, shutdowns and tasks of the batcher's background flush. \<open>Locks\<close>: threads
    and read-write locks, deadlock, and the discipline of a lock order. \<open>Lock_Order\<close>: what every
    operation of the crate does with its locks.
  \<^item> \<open>Metered\<close>: the functions of the protocol, the pool and the sync manager with the metric events
    they emit when the feature \<open>metrics\<close> is on.
  \<^item> \<open>Benchmarks\<close> (\<open>benches/sync_bench.rs\<close>): what each benchmark computes. \<open>Example_Programs\<close> (\<open>examples/sync.rs\<close>): the example programs over the model of the runner.
    \<open>Unit_Tests\<close>, \<open>Log_Tests\<close>, \<open>Store_Tests\<close> and \<open>Integration_Tests\<close>: the assertions of the
    crate's tests as Boolean definitions over the model (the tests in \<open>src\<close>, those of \<open>sync.rs\<close>,
    \<open>batch.rs\<close> and \<open>snapshot.rs\<close>, those of \<open>persist.rs\<close>, and \<open>tests/integration.rs\<close>).

  \<^bold>\<open>Interfaces.\<close> \<open>simulation\<close> and \<open>machine\<close> (\<open>Prelude\<close>) state what one step of an object keeps and
  give it for every run; they are interpreted on the batcher (\<open>batching\<close>), the runner
  (\<open>forwarding\<close>), the sync manager (\<open>sync_machine\<close>), the pool (\<open>shared\<close>), the reputation manager
  (\<open>history\<close>, \<open>scoring\<close>), concurrent recording (\<open>recording\<close>), paging (\<open>paging\<close>), many connections
  (\<open>peer_table\<close>, \<open>node\<close>), a whole node (\<open>node_runs\<close>, \<open>node_log\<close>), the shared file store
  (\<open>store_races\<close>), the shared batcher (\<open>batch_races\<close>), the shared notifier (\<open>bus\<close>), the gauges
  (\<open>pool_gauge\<close>, \<open>pending_gauge\<close>) and the
  flush tasks (\<open>flush_machine\<close>). \<open>framing\<close> is a self-delimiting encoding, interpreted on the wire frames
  (\<open>wire\<close>) and on the records of the log file (\<open>records\<close>). \<open>bounded_log\<close> is the log the protocol
  reads (\<open>sync_log\<close>). \<open>change_store\<close> is the trait \<open>ChangeStore\<close>, interpreted on the file store, the
  memory store and the dispatching store (\<open>file_log\<close>, \<open>memory_log\<close>, \<open>any_log\<close>).
  \<open>lock_discipline\<close> says that programs take their locks in the order of a rank; it is interpreted
  on the operations of the crate (\<open>crate\<close>).

  \<^bold>\<open>What is shown.\<close>
  \<^item> Logs: the sync manager refines a bounded log of its history; both change stores, when fresh,
    keep the contract of the trait; the changes of a log file survive a restart, and the ways in
    which it does not keep its promises (offsets after a restart, compaction, torn records) are
    theorems as well.
  \<^item> Protocol: the answer to every request, complete paging with its termination while the log
    holds what is outstanding, whole sessions of either end, oversized frames rejected; that a
    session of two ends of this crate never completes (they wait for each other for ever, or the
    client fails) and, at the level of messages, transfers nothing.
  \<^item> Lifecycle: the invariant of the replicator over every sequence of calls and loop moves, and
    restart after shutdown; what hooks see of the recorded changes.
  \<^item> Round trips: base64url (also equal to the reference encoding), messages, tickets, sync
    snapshots, compression, and full state transfer through chunks in any order.
  \<^item> Concurrent batching loses a change only with a batch that its bounded channel refuses, and a
    wake-up of the flush task that meets no other call bounds the latency; the pool is well formed
    under every interleaving of its users, reuses only connections that it has not marked closed
    and that are free in its table, and keeps its capacity while an unused connection can be
    evicted; the table of discovered peers has one fresh entry per peer.
  \<^item> Concurrency: a reader that pages while others record loses nothing as long as no request is
    answered between the two sections of a recording, and recording threads leave a log in the
    order of their pushes; but a request between the two sections skips a change for good.
    Connections that run alone do what the functions of the protocol do; any number of
    them share one log with recording threads, every response carrying the slice that starts as
    many changes before the requested offset as recordings were in flight, and the peer table
    shows for each peer what the connection that wrote last has reached. Concurrent appends of a
    file store lose nothing, but their offsets need not match the file. Every flush task but one
    has been told to stop, though its handle can be stale. Concurrent notifications are sent to
    every subscriber once, of which a channel keeps the last ones up to its capacity, and they can
    be out of order. No operations of the crate deadlock, but for the flush task on an overdue
    batch, which can.
  \<^item> A whole node: whatever is recorded, served, dialled, started and shut down in any order, the
    log holds an interleaving of prefixes of what the peers sent and nothing recorded locally, and
    the peer table shows for each peer what the connection that wrote last has reached.
  \<^item> Retries: termination with a bound, the backoff delays and their bound under rounding,
    overflow and NaN. Reputation: nobody is ever tracked; in a table that holds scores all the same
    they stay in range, and the ranking is the stable sort. Telemetry: totals are the sums of their
    parts; what the counters say of a connection served or driven when no write fails, and that the
    gauges are exact.
  \<^item> Programs: when the basic example ends and what it shares; that its custom observer counts
    every change; that the benchmarks measure what they are called; and that the tests of the
    crate hold of the model.

  \<^bold>\<open>Conventions.\<close> Integers of a width are words and wrap, as a release build does; lengths are
  \<open>nat\<close>. Errors and panics are values of \<open>outcome\<close>. A lock is held for one operation, so the
  operations are the atomic steps; where the code takes a lock twice in one operation, the
  sections are operations of their own (\<open>record_claim\<close> and \<open>record_push\<close> of the sync manager,
  \<open>snapshot_changes\<close> and \<open>snapshot_rest\<close> of its snapshot, \<open>add_mark\<close> and \<open>add_push\<close> of the batcher, and
  \<open>size_reached\<close>, \<open>age_reached\<close>, \<open>take_pending\<close>, \<open>next_sequence\<close> and \<open>hand_over\<close> of its flushes,
  \<open>pool_reuse\<close> and \<open>pool_insert\<close> of the pool, \<open>serve_section\<close> and \<open>drive_section\<close> of connections,
  \<open>append_claim\<close> to \<open>flush_write\<close> of the file store, \<open>start_sending\<close> and \<open>send_one\<close> of the notifier, \<open>start_check\<close> to \<open>start_finish\<close> of the flush
  task); lemmas show that the sections in a row are the operation, and the theories \<open>Concurrent_Log\<close>,
  \<open>Concurrent_Batch\<close>, \<open>Concurrent_Store\<close>, \<open>Concurrent_Notify\<close>, \<open>Connections\<close>, \<open>Node\<close> and \<open>Flush_Task\<close>
  interleave them. Clock readings are arguments; \<open>build_snapshot\<close> has one for every
  change, while an operation that reads the clock several times in a row for one decision, such as
  \<open>record_peer\<close> and the health check of the pool, is given one value for them. Where a hash map is iterated, the order is an argument, any list with the
  entries of the map. Loops are structural or have a measure (the unread bytes of the
  stream, the chunks left); the reader \<open>read_pages\<close> counts its requests, and one more than the
  outstanding changes is enough (\<open>paging_complete\<close>). The retry loop may run for ever and is a
  \<open>partial_function\<close>, whose value None means that it does not return; \<open>execute_bounded\<close> shows
  that it does with a bound on the retries, \<open>execute_unbounded\<close> that it need not without one.

  \<^bold>\<open>Parameters.\<close> Third-party code is an argument: serde_json and bincode (a text or bytes or an
  error), zstd, tokio channels (\<open>try_send\<close>), iroh identifiers, endpoints and connections, the
  standard hasher, \<open>f64::powi\<close>, the clock and random identifiers. What a property relies on is a
  hypothesis of it (such as \<open>bincode_faithful\<close> below), and its witness gives an instance.

  \<^bold>\<open>Not modelled.\<close> Logging; two metrics calls of the replicator (they name a function and a variant
  that do not exist, so the crate does not build with the feature \<open>metrics\<close>); serde attributes
  beyond the codecs; \<open>Debug\<close> and accessors without logic; delays of timers, which are steps that
  may happen at any time; the measuring of the benchmarks; in the tests, what they do to time,
  files of the system and third-party text.

  What is left uncovered in \<open>src\<close> are imports, comments, module lists, accessors that return a
  field, and one-line delegations.
\<close>

section \<open>Properties across components\<close>

text \<open>What full state transfer relies on of bincode: bytes, never none, that convert back.\<close>

definition bincode_faithful ::
  "(database_snapshot \<Rightarrow> string + bytes) \<Rightarrow> (bytes \<Rightarrow> string + database_snapshot) \<Rightarrow> bool" where
  "bincode_faithful ser de \<longleftrightarrow> (\<forall>snap bs. ser snap = Inr bs \<longrightarrow> bs \<noteq> [] \<and> de bs = Inr snap)"

text \<open>
  C21. Full state transfer: when an exporter's pending changes are exported and the chunks reach
  an importer in whatever order and however often each, \<open>finalize\<close> returns a snapshot that
  validates and holds, for every namespace and database, exactly the pending changes of that
  database in the order they were added, each with the clock reading of its grouping.
\<close>

theorem snapshot_transfer:
  assumes "bincode_faithful ser de" "\<And>m. lists_entries (iter_ns m) m" "\<And>m. lists_entries (iter_db m) m"
    and "fst (snapshot_export hash iter_ns iter_db ser clock s) = Ok cs"
    and "length cs \<le> MAX_SLOTS" "set ps = set cs"
  shows "\<exists>snap. finalize de (foldl (\<lambda>im c. snd (import_chunk c im)) importer_new ps) = Ok snap
     \<and> snapshot_validate hash snap
     \<and> entries_of snap n d
         = map (\<lambda>(i, c). entry_of (clock i) c)
             (filter (\<lambda>(i, c). ch_namespace c = n \<and> ch_database c = d) (enumerate 0 (sr_pending s)))"
proof -
  let ?snap = "fst (build_snapshot hash iter_ns iter_db clock s)"
  obtain bs where ser: "ser ?snap = Inr bs" and ex: "export_chunks (sc_chunk_size (sr_config s)) bs = Ok cs"
    using assms(4) by (cases "ser ?snap") (auto simp: snapshot_export_def snapshot_serialize_def split_beta)
  then have de: "bs \<noteq> []" "de bs = Inr ?snap" using assms(1) by (auto simp: bincode_faithful_def)
  have "finalize de (foldl (\<lambda>im c. snd (import_chunk c im)) importer_new ps) = Ok ?snap"
    using import_all_chunks [OF ex de(1) assms(5,6), of de] de(2)
    by (simp add: Let_def snapshot_deserialize_def)
  moreover have "snapshot_validate hash ?snap"
    by (simp add: build_snapshot_def database_snapshot_new_def snapshot_validate_def Let_def)
  ultimately show ?thesis
    using entries_of_build [OF assms(2,3), of hash clock s n d]
    by (simp add: grouped_changes grouped_empty)
qed

theorem snapshot_transfer_witness:
  "let s = serializer_add_change (serializer_new snapshot_config_default) (change_set 1 0 ''n'' ''d'' [1] [2]);
       snap = fst (build_snapshot (\<lambda>w. 0) sorted_list_of_fmap sorted_list_of_fmap (\<lambda>i. 7 + int i) s);
       de = (\<lambda>bs. Inr snap)
   in \<exists>snap'. finalize de (foldl (\<lambda>im c. snd (import_chunk c im)) importer_new [snapshot_chunk_new 0 1 [1] True]) = Ok snap'
        \<and> entries_of snap' ''n'' ''d'' = [entry_of 7 (change_set 1 0 ''n'' ''d'' [1] [2])]"
proof -
  let ?s = "serializer_add_change (serializer_new snapshot_config_default) (change_set 1 0 ''n'' ''d'' [1] [2])"
  let ?snap = "fst (build_snapshot (\<lambda>w. 0) sorted_list_of_fmap sorted_list_of_fmap (\<lambda>i. 7 + int i) ?s)"
  let ?ser = "\<lambda>x. if x = ?snap then Inr [1] else Inl ''unsupported''"
  let ?ch = "[snapshot_chunk_new 0 1 [1] True]"
  have faithful: "bincode_faithful ?ser (\<lambda>bs. Inr ?snap)" by (simp add: bincode_faithful_def)
  have size: "sc_chunk_size (sr_config ?s) = 65536"
    by (simp add: serializer_add_change_def serializer_new_def snapshot_config_default_def)
  have "export_chunks 65536 [1] = Ok ?ch" by (simp add: export_chunks_def chunks_step)
  then have "fst (snapshot_export (\<lambda>w. 0) sorted_list_of_fmap sorted_list_of_fmap ?ser (\<lambda>i. 7 + int i) ?s) = Ok ?ch"
    by (simp add: snapshot_export_def snapshot_serialize_def split_beta size)
  from snapshot_transfer [OF faithful lists_entries_sorted lists_entries_sorted this _ refl, of "''n''" "''d''"]
  show ?thesis
    by (simp add: Let_def MAX_SLOTS_def serializer_add_change_def serializer_new_def change_set_def) blast
qed

end
